(* ===== verification/Prelude.thy ===== *)
theory Prelude
  imports Main "HOL-Library.Word"
begin

text \<open>
  Shared vocabulary of the encapsule development: the machine integer types, the loops that
  more than one component runs over its rows (first match, least recently used), the
  character classes of the C locale, and the lemmas about them that the component proofs
  use. Collections: \<open>scan_simps\<close> (loops over row indices) and \<open>wf_simps\<close>
  (unfolding of the components' well-formedness predicates).
\<close>

named_theorems scan_simps
named_theorems wf_simps

section \<open>Machine integers\<close>

type_synonym u8 = "8 word"
type_synonym u16 = "16 word"
type_synonym u32 = "32 word"
type_synonym u64 = "64 word"

text \<open>Handles (\<open>SOCKET\<close>, \<open>std::uintptr_t\<close>) and tick counters are 64 bits wide in the x64 build.\<close>

type_synonym uintptr = u64

text \<open>An IPv4 address as \<open>std::array<std::uint8_t, 4>\<close>, network order.\<close>

type_synonym octets = "u8 \<times> u8 \<times> u8 \<times> u8"

lemma bit_u8_high [simp]:
  "\<not> bit (w :: u8) (8 + n)" "\<not> bit (w :: u8) (16 + n)" "\<not> bit (w :: u8) (24 + n)"
  by (auto dest: bit_imp_le_length)

section \<open>Runs that keep an invariant\<close>

text \<open>
  Every component with a state is driven through a list of its operations. The contract: the
  operations that are allowed keep the invariant; then so does every run of them, and a run from
  an initial state that has the invariant never leaves it.
\<close>

locale guarded_steps =
  fixes step :: "'c \<Rightarrow> 's \<Rightarrow> 's"
    and allowed :: "'c \<Rightarrow> bool"
    and inv :: "'s \<Rightarrow> bool"
  assumes step_inv: "inv s \<Longrightarrow> allowed c \<Longrightarrow> inv (step c s)"
begin

lemma run_inv: "inv s \<Longrightarrow> \<forall>c \<in> set cs. allowed c \<Longrightarrow> inv (fold step cs s)"
  by (induction cs arbitrary: s) (simp_all add: step_inv)

end

locale invariant_steps = guarded_steps step "\<lambda>_. True" inv
  for step :: "'c \<Rightarrow> 's \<Rightarrow> 's" and inv :: "'s \<Rightarrow> bool" +
  fixes init :: 's
  assumes init_inv: "inv init"
begin

lemma always_inv: "inv (fold step cs init)"
  by (rule run_inv [OF init_inv]) simp

lemma kept_inv: "inv s \<Longrightarrow> inv (fold step cs s)"
  by (rule run_inv) simp_all

end

section \<open>Refinement of a specification\<close>

text \<open>
  A specification is a relation between its states for every operation. A component implements it
  when, read through \<open>view\<close>, every operation is a step of the specification; then so is every run.
\<close>

fun spec_run :: "('c \<Rightarrow> 'a \<Rightarrow> 'a \<Rightarrow> bool) \<Rightarrow> 'c list \<Rightarrow> 'a \<Rightarrow> 'a \<Rightarrow> bool" where
  "spec_run spec [] a b = (a = b)"
| "spec_run spec (c # cs) a b = (\<exists>m. spec c a m \<and> spec_run spec cs m b)"

lemma spec_run_inv:
  assumes "spec_run spec cs a b" and "ok a" and "\<And>c x y. spec c x y \<Longrightarrow> ok x \<Longrightarrow> ok y"
  shows "ok b"
  using assms(1,2) by (induction cs arbitrary: a) (auto dest: assms(3))

locale refinement = guarded_steps step "\<lambda>_. True" inv
  for step :: "'c \<Rightarrow> 's \<Rightarrow> 's" and inv :: "'s \<Rightarrow> bool" +
  fixes spec :: "'c \<Rightarrow> 'a \<Rightarrow> 'a \<Rightarrow> bool" and view :: "'s \<Rightarrow> 'a"
  assumes step_refines: "inv s \<Longrightarrow> spec c (view s) (view (step c s))"
begin

lemma run_refines: "inv s \<Longrightarrow> spec_run spec cs (view s) (view (fold step cs s))"
proof (induction cs arbitrary: s)
  case (Cons c cs)
  then have "spec_run spec cs (view (step c s)) (view (fold step cs (step c s)))" by (simp add: step_inv)
  with step_refines [OF Cons.prems, of c] show ?case by auto
qed simp

end

section \<open>Loops over row indices\<close>

text \<open>
  \<open>for (i = 0; i < n; ++i) if (P(i)) return i; return nullopt;\<close> The row tables of the
  program are all searched with this loop.
\<close>

definition scan :: "(nat \<Rightarrow> bool) \<Rightarrow> nat \<Rightarrow> nat option" where
  "scan P n = find P [0..<n]"

lemma scan_Some_iff:
  "scan P n = Some i \<longleftrightarrow> i < n \<and> P i \<and> (\<forall>j<i. \<not> P j)"
  by (auto simp: scan_def find_Some_iff)

lemma scan_SomeD [dest]: "scan P n = Some i \<Longrightarrow> i < n \<and> P i"
  by (simp add: scan_Some_iff)

lemma scan_None_iff: "scan P n = None \<longleftrightarrow> (\<forall>i<n. \<not> P i)"
  by (auto simp: scan_def find_None_iff)

lemma scan_0_Some: "0 < n \<Longrightarrow> P 0 \<Longrightarrow> scan P n = Some 0"
  by (simp add: scan_Some_iff)

lemma scan_cong [fundef_cong]:
  "n = m \<Longrightarrow> (\<And>i. i < m \<Longrightarrow> P i = Q i) \<Longrightarrow> scan P n = scan Q m"
  unfolding scan_def by (rule find_cong) auto

lemma scan_unique:
  assumes "i < n" and "P i" and "\<And>j. j < n \<Longrightarrow> P j \<Longrightarrow> j = i"
  shows "scan P n = Some i"
  unfolding scan_Some_iff
proof (intro conjI allI impI)
  fix j assume "j < i"
  then show "\<not> P j" using assms(1) assms(3) [of j] by auto
qed (rule assms(1), rule assms(2))

text \<open>
  The least-recently-used loop: walk the rows, skip those that are not candidates, keep the
  first row whose stamp is smaller than the best so far.
\<close>

fun lru_scan :: "(nat \<Rightarrow> bool) \<Rightarrow> (nat \<Rightarrow> u64) \<Rightarrow> nat list \<Rightarrow> nat option \<Rightarrow> nat option" where
  "lru_scan cand stamp [] victim = victim"
| "lru_scan cand stamp (i # is) victim =
     lru_scan cand stamp is
       (if \<not> cand i then victim
        else case victim of
          None \<Rightarrow> Some i
        | Some v \<Rightarrow> if stamp i < stamp v then Some i else Some v)"

lemma lru_scan_Some_acc:
  "\<exists>v'. lru_scan cand stamp is (Some v) = Some v'
     \<and> stamp v' \<le> stamp v
     \<and> (v' = v \<or> v' \<in> set is \<and> cand v')
     \<and> (\<forall>i \<in> set is. cand i \<longrightarrow> stamp v' \<le> stamp i)"
proof (induction "is" arbitrary: v)
  case Nil
  then show ?case by simp
next
  case (Cons i "is")
  show ?case
  proof (cases "cand i \<and> stamp i < stamp v")
    case True
    with Cons.IH [of i] show ?thesis by (auto intro: order.trans)
  next
    case False
    with Cons.IH [of v] show ?thesis
      by (auto simp: not_less intro: order.trans)
  qed
qed

lemma lru_scan_None: "lru_scan cand stamp is None = None \<longleftrightarrow> (\<forall>i \<in> set is. \<not> cand i)"
proof (induction "is")
  case Nil
  then show ?case by simp
next
  case (Cons i "is")
  then show ?case using lru_scan_Some_acc [of cand stamp "is" i] by auto
qed

lemma lru_scan_Some:
  "lru_scan cand stamp is None = Some v \<Longrightarrow>
     v \<in> set is \<and> cand v \<and> (\<forall>i \<in> set is. cand i \<longrightarrow> stamp v \<le> stamp i)"
proof (induction "is")
  case Nil
  then show ?case by simp
next
  case (Cons i "is")
  show ?case
  proof (cases "cand i")
    case True
    with Cons.prems lru_scan_Some_acc [of cand stamp "is" i] show ?thesis by auto
  next
    case False
    with Cons show ?thesis by auto
  qed
qed

definition lru :: "(nat \<Rightarrow> bool) \<Rightarrow> (nat \<Rightarrow> u64) \<Rightarrow> nat \<Rightarrow> nat option" where
  "lru cand stamp n = lru_scan cand stamp [0..<n] None"

lemma lru_None_iff: "lru cand stamp n = None \<longleftrightarrow> (\<forall>i<n. \<not> cand i)"
  by (auto simp: lru_def lru_scan_None)

lemma lru_SomeD:
  "lru cand stamp n = Some v \<Longrightarrow> v < n \<and> cand v \<and> (\<forall>i<n. cand i \<longrightarrow> stamp v \<le> stamp i)"
  by (auto simp: lru_def dest: lru_scan_Some)

lemma lru_cong:
  assumes "n = m" and c: "\<And>i. i < m \<Longrightarrow> cand i = cand' i" and s: "\<And>i. i < m \<Longrightarrow> stamp i = stamp' i"
  shows "lru cand stamp n = lru cand' stamp' m"
proof -
  have "lru_scan cand stamp is v = lru_scan cand' stamp' is v"
    if "set is \<subseteq> {..<m}" and "\<forall>w. v = Some w \<longrightarrow> w < m" for "is" v
    using that by (induction "is" arbitrary: v) (auto simp: c s split: option.split)
  then show ?thesis unfolding lru_def \<open>n = m\<close> by (auto simp: subset_iff)
qed

text \<open>Reading back a row after one was replaced, whichever row that was.\<close>

lemma nth_update:
  "j < length xs \<Longrightarrow> xs[i := x] ! j = (if i = j then x else xs ! j)"
  by (cases "i < length xs") (auto simp: nth_list_update)

text \<open>
  The live rows of a table carry pairwise different keys. Kept as a predicate of its own so
  that proofs use \<open>keys_uniqueD\<close> instead of rewriting with the quantified equation.
\<close>

definition keys_unique :: "('r \<Rightarrow> bool) \<Rightarrow> ('r \<Rightarrow> 'k) \<Rightarrow> 'r list \<Rightarrow> bool" where
  "keys_unique used key rows \<longleftrightarrow> (\<forall>i<length rows. \<forall>j<length rows.
     used (rows ! i) \<longrightarrow> used (rows ! j) \<longrightarrow> key (rows ! i) = key (rows ! j) \<longrightarrow> i = j)"

lemma keys_uniqueD:
  "keys_unique used key rows \<Longrightarrow> key (rows ! i) = key (rows ! j) \<Longrightarrow> used (rows ! i) \<Longrightarrow> used (rows ! j) \<Longrightarrow>
     i < length rows \<Longrightarrow> j < length rows \<Longrightarrow> i = j"
  unfolding keys_unique_def by blast

lemma keys_unique_update:
  assumes u: "keys_unique used key rows" and i: "i < length rows"
    and new: "\<And>j. j < length rows \<Longrightarrow> j \<noteq> i \<Longrightarrow> used r \<Longrightarrow> used (rows ! j) \<Longrightarrow> key (rows ! j) \<noteq> key r"
  shows "keys_unique used key (rows[i := r])"
  unfolding keys_unique_def
proof (intro allI impI)
  fix a b
  assume a: "a < length (rows[i := r])" and b: "b < length (rows[i := r])"
    and ua: "used (rows[i := r] ! a)" and ub: "used (rows[i := r] ! b)"
    and eq: "key (rows[i := r] ! a) = key (rows[i := r] ! b)"
  consider "a = i" "b = i" | "a = i" "b \<noteq> i" | "a \<noteq> i" "b = i" | "a \<noteq> i" "b \<noteq> i" by blast
  then show "a = b"
  proof cases
    case 2
    with new [of b] b ua ub eq i show ?thesis by simp
  next
    case 3
    with new [of a] a ua ub eq i show ?thesis by simp
  next
    case 4
    with keys_uniqueD [OF u, of a b] ua ub eq a b show ?thesis by simp
  qed simp
qed

lemma keys_unique_replicate: "\<not> used x \<Longrightarrow> keys_unique used key (replicate n x)"
  by (simp add: keys_unique_def)

lemma map_filter_cong:
  "(\<And>x. x \<in> set xs \<Longrightarrow> P x = Q x) \<Longrightarrow> (\<And>x. x \<in> set xs \<Longrightarrow> f x = g x) \<Longrightarrow>
     map f (filter P xs) = map g (filter Q xs)"
  by (induction xs) auto

section \<open>Counting rows\<close>

definition count_rows :: "('a \<Rightarrow> bool) \<Rightarrow> 'a list \<Rightarrow> nat" where
  "count_rows P xs = length (filter P xs)"

lemma count_rows_le: "count_rows P xs \<le> length xs"
  by (simp add: count_rows_def)

lemma count_rows_simps [simp]:
  "count_rows P [] = 0"
  "count_rows P (x # xs) = (if P x then Suc (count_rows P xs) else count_rows P xs)"
  by (simp_all add: count_rows_def)

lemma count_rows_replicate [simp]: "count_rows P (replicate n x) = (if P x then n else 0)"
  by (induction n) simp_all

lemma count_rows_update:
  "i < length xs \<Longrightarrow>
     count_rows P (xs[i := x]) + (if P (xs ! i) then 1 else 0)
       = count_rows P xs + (if P x then 1 else 0)"
proof (induction xs arbitrary: i)
  case Nil
  then show ?case by simp
next
  case (Cons y ys)
  then show ?case by (cases i) auto
qed

lemma count_rows_update_same [simp]:
  "i < length xs \<Longrightarrow> P x = P (xs ! i) \<Longrightarrow> count_rows P (xs[i := x]) = count_rows P xs"
  using count_rows_update [of i xs P x] by simp

lemma count_rows_set [simp]:
  "i < length xs \<Longrightarrow> \<not> P (xs ! i) \<Longrightarrow> P x \<Longrightarrow> count_rows P (xs[i := x]) = Suc (count_rows P xs)"
  using count_rows_update [of i xs P x] by simp

lemma count_rows_clear:
  "i < length xs \<Longrightarrow> P (xs ! i) \<Longrightarrow> \<not> P x \<Longrightarrow> Suc (count_rows P (xs[i := x])) = count_rows P xs"
  using count_rows_update [of i xs P x] by simp

lemma count_rows_pos: "i < length xs \<Longrightarrow> P (xs ! i) \<Longrightarrow> 0 < count_rows P xs"
  using count_rows_clear [of i xs P] nth_mem [of i xs]
  by (auto simp: count_rows_def filter_empty_conv)

lemma count_rows_full: "count_rows P xs = length xs \<longleftrightarrow> (\<forall>i<length xs. P (xs ! i))"
proof -
  have "count_rows P xs = length xs \<longleftrightarrow> (\<forall>x \<in> set xs. P x)"
  proof
    assume "count_rows P xs = length xs"
    then show "\<forall>x \<in> set xs. P x"
      using length_filter_less [of _ xs P] by (auto simp: count_rows_def)
  qed (simp add: count_rows_def)
  then show ?thesis by (simp add: all_set_conv_all_nth)
qed

lemma sum_list_map_update:
  "i < length xs \<Longrightarrow> sum_list (map f (xs[i := x])) + (f (xs ! i) :: nat) = sum_list (map f xs) + f x"
proof (induction xs arbitrary: i)
  case (Cons y ys)
  then show ?case by (cases i) auto
qed simp

section \<open>Characters and strings\<close>

text \<open>
  The C locale's classification of a byte, as \<open>std::isspace\<close>, \<open>std::isdigit\<close> and
  \<open>std::tolower\<close> see it: only ASCII letters fold. A byte of 128 or more is left as it is, which is
  what the C locale does; where the code passes a plain \<open>char\<close> that is negative
  (\<open>filename_wildcard_match\<close>) the standard leaves the call undefined.
\<close>

definition is_space :: "char \<Rightarrow> bool" where
  "is_space c = (let k = (of_char c :: nat) in k = 32 \<or> 9 \<le> k \<and> k \<le> 13)"

definition is_digit :: "char \<Rightarrow> bool" where
  "is_digit c = (let k = (of_char c :: nat) in 48 \<le> k \<and> k \<le> 57)"

definition is_upper :: "char \<Rightarrow> bool" where
  "is_upper c = (let k = (of_char c :: nat) in 65 \<le> k \<and> k \<le> 90)"

definition to_lower :: "char \<Rightarrow> char" where
  "to_lower c = (if is_upper c then char_of ((of_char c :: nat) + 32) else c)"

text \<open>The value of a decimal digit, \<open>digit - '0'\<close>.\<close>

definition digit_value :: "char \<Rightarrow> nat" where
  "digit_value c = (of_char c :: nat) - 48"

text \<open>\<open>find\<close> and \<open>rfind\<close> of a character, \<open>None\<close> for \<open>npos\<close>.\<close>

definition find_char :: "char \<Rightarrow> string \<Rightarrow> nat option" where
  "find_char c s = scan (\<lambda>i. s ! i = c) (length s)"

definition rfind_char :: "char \<Rightarrow> string \<Rightarrow> nat option" where
  "rfind_char c s = map_option (\<lambda>i. length s - 1 - i) (find_char c (rev s))"

lemma find_char_None [simp]: "find_char c s = None \<longleftrightarrow> c \<notin> set s"
  by (auto simp: find_char_def scan_None_iff in_set_conv_nth)

lemma find_char_append [simp]:
  "c \<notin> set xs \<Longrightarrow> find_char c (xs @ c # ys) = Some (length xs)"
  unfolding find_char_def by (auto simp: scan_Some_iff nth_append)

lemma rfind_char_None [simp]: "rfind_char c s = None \<longleftrightarrow> c \<notin> set s"
  by (simp add: rfind_char_def)

lemma rfind_char_append [simp]:
  "c \<notin> set ys \<Longrightarrow> rfind_char c (xs @ c # ys) = Some (length xs)"
  using find_char_append [of c "rev ys" "rev xs"] by (simp add: rfind_char_def)

lemma find_charE:
  assumes "find_char c s = Some i"
  obtains xs ys where "s = xs @ c # ys" and "c \<notin> set xs" and "i = length xs"
proof -
  from assms have i: "i < length s" "s ! i = c" "\<forall>j<i. s ! j \<noteq> c"
    by (auto simp: find_char_def scan_Some_iff)
  then have "s = take i s @ c # drop (Suc i) s" by (metis id_take_nth_drop)
  moreover have "c \<notin> set (take i s)" using i by (auto simp: in_set_conv_nth)
  ultimately show thesis using that i(1) by (metis length_take min.absorb4)
qed

lemma rfind_charE:
  assumes "rfind_char c s = Some i"
  obtains xs ys where "s = xs @ c # ys" and "c \<notin> set ys" and "i = length xs"
proof -
  from assms obtain k where k: "find_char c (rev s) = Some k" and i: "i = length s - 1 - k"
    by (auto simp: rfind_char_def)
  from k obtain xs ys where "rev s = xs @ c # ys" "c \<notin> set xs" "k = length xs"
    by (rule find_charE)
  then have "s = rev ys @ c # rev xs" by (metis rev_append rev_rev_ident rev.simps(2) append_assoc append_Cons append_Nil)
  with \<open>c \<notin> set xs\<close> \<open>k = length xs\<close> i show thesis by (intro that [of "rev ys" "rev xs"]) auto
qed

lemma takeWhile_neq_all [simp]: "c \<notin> set s \<Longrightarrow> takeWhile (\<lambda>x. x \<noteq> c) s = s"
  by (induction s) auto

lemma takeWhile_neq_append [simp]: "c \<notin> set xs \<Longrightarrow> takeWhile (\<lambda>x. x \<noteq> c) (xs @ c # ys) = xs"
  by (induction xs) auto

text \<open>\<open>s.substr(0, s.find(c))\<close> and \<open>s\<close> itself when there is no \<open>c\<close>.\<close>

lemma take_find_char:
  "(case find_char c s of None \<Rightarrow> s | Some i \<Rightarrow> take i s) = takeWhile (\<lambda>x. x \<noteq> c) s"
proof (cases "find_char c s")
  case None
  then have "c \<notin> set s" by simp
  then show ?thesis by (subst None) simp
next
  case (Some i)
  then show ?thesis by (elim find_charE) simp
qed

end
