(* ===== verification/Fakeip_Range.thy ===== *)
theory Fakeip_Range
  imports Prelude
begin

unbundle bit_operations_syntax

text \<open>
  The pure half of src/injectee/fakeip.hpp: the TEST-NET-2 range the fabricated addresses
  come from, the slot arithmetic, the address spellings, and the rules that say which names
  must never be fabricated.
\<close>

section \<open>The range\<close>

definition FAKEIP_RANGE :: octets where
  "FAKEIP_RANGE = (198, 51, 100, 0)"

definition FAKEIP_FIRST_HOST :: nat where
  "FAKEIP_FIRST_HOST = 1"

definition FAKEIP_CAPACITY :: nat where
  "FAKEIP_CAPACITY = 256 - FAKEIP_FIRST_HOST - 1"

definition FAKEIP_DEFAULT_QUARANTINE :: nat where
  "FAKEIP_DEFAULT_QUARANTINE = FAKEIP_CAPACITY div 2"

definition in_fake_range :: "octets \<Rightarrow> bool" where
  "in_fake_range v4 = (case (v4, FAKEIP_RANGE) of
     ((a, b, c, _), (ra, rb, rc, _)) \<Rightarrow> a = ra \<and> b = rb \<and> c = rc)"

definition fake_ip_at :: "nat \<Rightarrow> octets" where
  "fake_ip_at slot = (case FAKEIP_RANGE of
     (ra, rb, rc, _) \<Rightarrow> (ra, rb, rc, of_nat (slot + FAKEIP_FIRST_HOST)))"

definition fake_ip_slot_of :: "octets \<Rightarrow> nat option" where
  "fake_ip_slot_of v4 =
     (if \<not> in_fake_range v4 then None
      else let host = unat (snd (snd (snd v4))) in
        if host < FAKEIP_FIRST_HOST \<or> host \<ge> FAKEIP_FIRST_HOST + FAKEIP_CAPACITY then None
        else Some (host - FAKEIP_FIRST_HOST))"

definition fake_ip_v4_mapped :: "octets \<Rightarrow> u8 list" where
  "fake_ip_v4_mapped v4 = (case v4 of (a, b, c, d) \<Rightarrow>
     (replicate 16 0)[10 := 0xff, 11 := 0xff, 12 := a, 13 := b, 14 := c, 15 := d])"

definition fake_ip_to_u32 :: "octets \<Rightarrow> u32" where
  "fake_ip_to_u32 v4 = (case v4 of (a, b, c, d) \<Rightarrow>
     push_bit 24 (ucast a) OR push_bit 16 (ucast b) OR push_bit 8 (ucast c) OR ucast d)"

definition fake_ip_from_u32 :: "u32 \<Rightarrow> octets" where
  "fake_ip_from_u32 u =
     (ucast (drop_bit 24 u AND 0xff), ucast (drop_bit 16 u AND 0xff),
      ucast (drop_bit 8 u AND 0xff), ucast (u AND 0xff))"

lemmas fakeip_consts = FAKEIP_RANGE_def FAKEIP_FIRST_HOST_def FAKEIP_CAPACITY_def
  FAKEIP_DEFAULT_QUARANTINE_def

lemma FAKEIP_CAPACITY_val: "FAKEIP_CAPACITY = 254"
  by (simp add: fakeip_consts)

text \<open>The slot arithmetic is a bijection between the table's rows and its issuable addresses.\<close>

lemma slot_of_at [simp]:
  assumes "i < FAKEIP_CAPACITY"
  shows "fake_ip_slot_of (fake_ip_at i) = Some i"
proof -
  from assms have "i + 1 < 256" by (simp add: fakeip_consts)
  then have "unat (of_nat (i + 1) :: u8) = i + 1"
    by (subst unat_of_nat) simp
  with assms show ?thesis
    by (simp add: fake_ip_slot_of_def fake_ip_at_def in_fake_range_def fakeip_consts)
qed

lemma slot_guard:
  "(if \<not> r then None
    else if host < (1::nat) \<or> host \<ge> 1 + (256 - 1 - 1) then None else Some (host - 1)) = Some i \<longleftrightarrow>
   r \<and> 1 \<le> host \<and> host < 255 \<and> i = host - 1"
  by (auto split: if_splits)

lemma slot_of_iff:
  "fake_ip_slot_of v4 = Some i \<longleftrightarrow>
     in_fake_range v4 \<and> 1 \<le> unat (snd (snd (snd v4))) \<and> unat (snd (snd (snd v4))) < 255
     \<and> i = unat (snd (snd (snd v4))) - 1"
  unfolding fake_ip_slot_of_def FAKEIP_FIRST_HOST_def FAKEIP_CAPACITY_def Let_def
  by (rule slot_guard)

lemma at_slot_of:
  assumes "fake_ip_slot_of v4 = Some i"
  shows "fake_ip_at i = v4" and "i < FAKEIP_CAPACITY" and "in_fake_range v4"
proof -
  obtain a b c d where v4: "v4 = (a, b, c, d)" by (cases v4)
  note h = assms [unfolded slot_of_iff v4 snd_conv]
  show "in_fake_range v4" using h v4 by blast
  show "i < FAKEIP_CAPACITY" using h unfolding FAKEIP_CAPACITY_val by linarith
  have "i + FAKEIP_FIRST_HOST = unat d" using h unfolding FAKEIP_FIRST_HOST_def by linarith
  then have "(of_nat (i + FAKEIP_FIRST_HOST) :: u8) = of_nat (unat d)" by (rule arg_cong)
  also have "\<dots> = d" by simp
  finally have "(of_nat (i + FAKEIP_FIRST_HOST) :: u8) = d" .
  then show "fake_ip_at i = v4"
    using h unfolding fake_ip_at_def in_fake_range_def v4 FAKEIP_RANGE_def by simp
qed

lemma fake_ip_at_inj: "i < FAKEIP_CAPACITY \<Longrightarrow> j < FAKEIP_CAPACITY \<Longrightarrow>
    fake_ip_at i = fake_ip_at j \<Longrightarrow> i = j"
  by (metis slot_of_at option.inject)

lemma slot_of_inj: "fake_ip_slot_of a = Some i \<Longrightarrow> fake_ip_slot_of b = Some i \<Longrightarrow> a = b"
  using at_slot_of(1) by metis

lemma fake_ip_at_in_range [simp]: "in_fake_range (fake_ip_at i)"
  by (simp add: in_fake_range_def fake_ip_at_def fakeip_consts)

lemma slot_of_in_range: "fake_ip_slot_of v4 \<noteq> None \<Longrightarrow> in_fake_range v4"
  by (auto simp: fake_ip_slot_of_def split: if_splits)

text \<open>The 32-bit value and the octets carry the same information, both ways.\<close>

lemma mask8_u32: "(0xff :: u32) = mask 8"
  by (simp add: mask_eq_exp_minus_1)

lemma from_to_u32 [simp]: "fake_ip_from_u32 (fake_ip_to_u32 v4) = v4"
  unfolding fake_ip_from_u32_def fake_ip_to_u32_def mask8_u32
  by (cases v4) (auto intro!: bit_word_eqI simp: bit_simps dest: bit_imp_le_length)

lemma to_from_u32 [simp]: "fake_ip_to_u32 (fake_ip_from_u32 u) = u"
proof (rule bit_word_eqI)
  fix n assume "n < LENGTH(32)"
  then consider "n < 8" | k where "n = 8 + k" "k < 8" | k where "n = 16 + k" "k < 8"
    | k where "n = 24 + k" "k < 8"
    by (cases "n < 8"; cases "n < 16"; cases "n < 24") (auto dest!: le_Suc_ex simp: not_less)
  then show "bit (fake_ip_to_u32 (fake_ip_from_u32 u)) n = bit u n"
    unfolding fake_ip_from_u32_def fake_ip_to_u32_def mask8_u32
    by cases (auto simp: bit_simps)
qed

section \<open>Names that must not be fabricated\<close>

definition fakeip_lower :: "char \<Rightarrow> char" where
  "fakeip_lower c = (if is_upper c then char_of ((of_char c :: nat) + 32) else c)"

definition fakeip_ends_with :: "string \<Rightarrow> string \<Rightarrow> bool" where
  "fakeip_ends_with name suffix =
     (if length name < length suffix then False
      else let at = length name - length suffix in
        list_all (\<lambda>i. fakeip_lower (name ! (at + i)) = suffix ! i) [0..<length suffix])"

definition fakeip_lower_case_equal :: "string \<Rightarrow> string \<Rightarrow> bool" where
  "fakeip_lower_case_equal a b =
     (if length a \<noteq> length b then False
      else list_all (\<lambda>i. fakeip_lower (a ! i) = fakeip_lower (b ! i)) [0..<length a])"

definition fakeip_first_label_is :: "string \<Rightarrow> string \<Rightarrow> bool" where
  "fakeip_first_label_is name label =
     (let first = (case find_char (CHR ''.'') name of None \<Rightarrow> name | Some dot \<Rightarrow> take dot name)
      in fakeip_lower_case_equal first label)"

definition fakeip_contains :: "string \<Rightarrow> string \<Rightarrow> bool" where
  "fakeip_contains name needle =
     list_ex (\<lambda>i. list_all (\<lambda>j. fakeip_lower (name ! (i + j)) = needle ! j) [0..<length needle])
       [0..<Suc (length name) - length needle]"

definition strip_root_dot :: "string \<Rightarrow> string" where
  "strip_root_dot name =
     (if name \<noteq> [] \<and> last name = CHR ''.'' then butlast name else name)"

definition no_fake_name :: "string \<Rightarrow> bool" where
  "no_fake_name name0 =
     (let name = strip_root_dot name0 in
      if name = [] then True
      else if find_char (CHR ''.'') name = None then True
      else if fakeip_ends_with name ''.local'' then True
      else if fakeip_ends_with name ''.arpa'' then True
      else if fakeip_contains name ''_msdcs'' \<or> fakeip_ends_with name ''.msdcs'' then True
      else if fakeip_first_label_is name ''wpad'' then True
      else if fakeip_contains name ''dc='' then True
      else False)"

definition no_fake_name_ad :: "string \<Rightarrow> string \<Rightarrow> bool" where
  "no_fake_name_ad name ad_suffix =
     (if no_fake_name name then True
      else if ad_suffix = [] then False
      else if fakeip_lower_case_equal name ad_suffix then True
      else if length name > length ad_suffix \<and> fakeip_ends_with name ad_suffix then
        let at = length name - length ad_suffix - 1 in name ! at = CHR ''.''
      else False)"

text \<open>The loops, as statements about the folded strings.\<close>

lemma fakeip_ends_with_iff:
  "fakeip_ends_with name suffix \<longleftrightarrow> (\<exists>pre. map fakeip_lower name = pre @ suffix)"
proof
  assume h: "fakeip_ends_with name suffix"
  then have le: "length suffix \<le> length name" by (auto simp: fakeip_ends_with_def split: if_splits)
  let ?at = "length name - length suffix"
  from h have "\<forall>i<length suffix. fakeip_lower (name ! (?at + i)) = suffix ! i"
    by (auto simp: fakeip_ends_with_def Let_def list_all_iff split: if_splits)
  with le have "drop ?at (map fakeip_lower name) = suffix"
    by (intro nth_equalityI) auto
  then show "\<exists>pre. map fakeip_lower name = pre @ suffix" by (metis append_take_drop_id)
next
  assume "\<exists>pre. map fakeip_lower name = pre @ suffix"
  then obtain pre where e: "map fakeip_lower name = pre @ suffix" by blast
  have l: "length name = length pre + length suffix" using arg_cong [OF e, of length] by simp
  have "fakeip_lower (name ! (length pre + i)) = suffix ! i" if "i < length suffix" for i
    using that l arg_cong [OF e, of "\<lambda>xs. xs ! (length pre + i)"] by (simp add: nth_append)
  moreover have "length name - length suffix = length pre" using l by simp
  ultimately show "fakeip_ends_with name suffix"
    using l by (simp add: fakeip_ends_with_def Let_def list_all_iff)
qed

lemma fakeip_lower_case_equal_iff:
  "fakeip_lower_case_equal a b \<longleftrightarrow> map fakeip_lower a = map fakeip_lower b"
  unfolding fakeip_lower_case_equal_def list_all_iff
    list_eq_iff_nth_eq [of "map fakeip_lower a" "map fakeip_lower b"]
  by (simp add: atLeast0LessThan Ball_def)

lemma fakeip_contains_iff:
  "fakeip_contains name needle \<longleftrightarrow> (\<exists>pre post. map fakeip_lower name = pre @ needle @ post)"
proof
  assume "fakeip_contains name needle"
  then obtain i where i: "i < Suc (length name) - length needle"
    and all: "\<forall>j<length needle. fakeip_lower (name ! (i + j)) = needle ! j"
    by (auto simp: fakeip_contains_def list_ex_iff list_all_iff)
  let ?m = "map fakeip_lower name"
  have "take (length needle) (drop i ?m) = needle"
    using i all by (intro nth_equalityI) auto
  then have "?m = take i ?m @ needle @ drop (length needle) (drop i ?m)"
    by (metis append_take_drop_id)
  then show "\<exists>pre post. ?m = pre @ needle @ post" by blast
next
  assume "\<exists>pre post. map fakeip_lower name = pre @ needle @ post"
  then obtain pre post where e: "map fakeip_lower name = pre @ needle @ post" by blast
  have l: "length name = length pre + length needle + length post"
    using arg_cong [OF e, of length] by simp
  have "fakeip_lower (name ! (length pre + j)) = needle ! j" if "j < length needle" for j
    using that l arg_cong [OF e, of "\<lambda>xs. xs ! (length pre + j)"] by (simp add: nth_append)
  with l show "fakeip_contains name needle"
    unfolding fakeip_contains_def list_ex_iff list_all_iff
    by (intro bexI [of _ "length pre"]) auto
qed

lemma fakeip_lower_idem [simp]: "fakeip_lower (fakeip_lower c) = fakeip_lower c"
  by (auto simp: fakeip_lower_def is_upper_def Let_def take_bit_eq_mod)

lemma fakeip_lower_dot [simp]: "fakeip_lower c = CHR ''.'' \<longleftrightarrow> c = CHR ''.''"
proof
  assume h: "fakeip_lower c = CHR ''.''"
  then have "of_char (fakeip_lower c) = (46 :: nat)" by simp
  then have "\<not> is_upper c"
    by (auto simp: fakeip_lower_def is_upper_def Let_def take_bit_eq_mod)
  with h show "c = CHR ''.''" by (simp add: fakeip_lower_def)
qed (simp add: fakeip_lower_def is_upper_def)

lemma map_fakeip_lower_idem [simp]:
  "map fakeip_lower (map fakeip_lower s) = map fakeip_lower s"
  by simp

lemma dot_in_folded [simp]: "CHR ''.'' \<in> set (map fakeip_lower s) \<longleftrightarrow> CHR ''.'' \<in> set s"
proof -
  have "CHR ''.'' = fakeip_lower c \<longleftrightarrow> c = CHR ''.''" for c
    using fakeip_lower_dot [of c] by (simp add: eq_commute)
  then show ?thesis by (auto simp: image_iff)
qed

lemma strip_root_dot_folded:
  "strip_root_dot (map fakeip_lower name) = map fakeip_lower (strip_root_dot name)"
  by (auto simp: strip_root_dot_def last_map map_butlast)

lemma folded_first_label:
  "takeWhile (\<lambda>c. c \<noteq> CHR ''.'') (map fakeip_lower name)
     = map fakeip_lower (takeWhile (\<lambda>c. c \<noteq> CHR ''.'') name)"
  by (simp add: takeWhile_map comp_def)

lemmas name_rule_iffs = fakeip_ends_with_iff fakeip_contains_iff fakeip_first_label_is_def
  fakeip_lower_case_equal_iff take_find_char Let_def

text \<open>DNS names are case-insensitive: folding a name never changes the verdict on it.\<close>

theorem no_fake_name_case_insensitive:
  "no_fake_name (map fakeip_lower name) = no_fake_name name"
  unfolding no_fake_name_def name_rule_iffs strip_root_dot_folded map_fakeip_lower_idem
    find_char_None folded_first_label dot_in_folded map_is_Nil_conv ..

text \<open>The Active Directory overload refuses exactly the base rules' names, the domain itself
  in any case, and the names that end in a dot and the suffix as it was passed in.\<close>

theorem no_fake_name_ad_iff:
  "no_fake_name_ad name ad_suffix \<longleftrightarrow>
     no_fake_name name \<or>
     ad_suffix \<noteq> [] \<and>
       (map fakeip_lower name = map fakeip_lower ad_suffix
        \<or> (\<exists>pre. map fakeip_lower name = pre @ CHR ''.'' # ad_suffix))"
proof -
  have "length name > length s \<and> fakeip_ends_with name s \<and>
      name ! (length name - length s - 1) = CHR ''.''
    \<longleftrightarrow> (\<exists>pre. map fakeip_lower name = pre @ CHR ''.'' # s)" (is "?l = ?r") for s
  proof
    assume l: ?l
    then obtain pre where pre: "map fakeip_lower name = pre @ s"
      by (auto simp: fakeip_ends_with_iff)
    have len: "length name = length pre + length s" using arg_cong [OF pre, of length] by simp
    with l have ne: "pre \<noteq> []" and dot: "name ! (length pre - 1) = CHR ''.''" by auto
    from ne len have "length pre - 1 < length name" by (cases pre) auto
    with dot have "map fakeip_lower name ! (length pre - 1) = CHR ''.''" by simp
    with pre ne have "pre = butlast pre @ [CHR ''.'']"
      by (metis append_butlast_last_id last_conv_nth nth_append diff_less length_greater_0_conv zero_less_one)
    with pre have "map fakeip_lower name = butlast pre @ CHR ''.'' # s"
      by (metis append.assoc append_Cons append_Nil)
    then show ?r ..
  next
    assume ?r
    then obtain pre where pre: "map fakeip_lower name = pre @ CHR ''.'' # s" by blast
    have len: "length name = length pre + 1 + length s"
      using arg_cong [OF pre, of length] by simp
    have "map fakeip_lower name ! length pre = CHR ''.''" using pre by simp
    then have "name ! length pre = CHR ''.''" using len by simp
    moreover have "fakeip_ends_with name s"
      using pre unfolding fakeip_ends_with_iff by (metis append.assoc append_Cons append_Nil)
    ultimately show ?l using len by simp
  qed
  then show ?thesis
    unfolding no_fake_name_ad_def fakeip_lower_case_equal_iff Let_def by auto
qed

text \<open>
  The overload compares the name as it came: unlike the base rules it does not drop the root
  dot first, and it folds the name but not the suffix.
\<close>

lemma no_fake_name_ad_misses_root_dot:
  "no_fake_name_ad ''dc1.corp.example.com'' ''corp.example.com''"
  "\<not> no_fake_name_ad ''dc1.corp.example.com.'' ''corp.example.com''"
  by code_simp+

lemma no_fake_name_ad_misses_folded_suffix:
  "no_fake_name_ad ''CORP.example.com'' ''CORP.EXAMPLE.COM''"
  "\<not> no_fake_name_ad ''dc1.corp.example.com'' ''CORP.EXAMPLE.COM''"
  by code_simp+

end
