(* ===== verification/Fakeip_Table.thy ===== *)
theory Fakeip_Table
  imports Fakeip_Range
begin

text \<open>
  The class \<open>fake_ip_table\<close> of src/injectee/fakeip.hpp: 254 rows of names, the LRU clock
  \<open>touch_\<close>, the quarantine clock \<open>allocations_\<close>, and the exclusion marks. Both clocks are
  64-bit words and wrap as the code's do; \<open>inflight\<close>, \<open>exclusions_\<close> and the configured
  quarantine are counts (\<open>std::size_t\<close>).
\<close>

section \<open>State\<close>

record fake_ip_slot =
  sl_name :: string
  sl_inflight :: nat
  sl_last_use :: u64
  sl_reusable_at :: u64
  sl_used_once :: bool

definition fake_ip_slot_init :: fake_ip_slot where
  "fake_ip_slot_init = \<lparr>sl_name = [], sl_inflight = 0, sl_last_use = 0, sl_reusable_at = 0,
     sl_used_once = False\<rparr>"

record fake_ip_table =
  ft_slots :: "fake_ip_slot list"
  ft_quarantine :: nat
  ft_excluded :: "bool list"
  ft_exclusions :: nat
  ft_touch :: u64
  ft_allocations :: u64

abbreviation slot_at :: "fake_ip_table \<Rightarrow> nat \<Rightarrow> fake_ip_slot" where
  "slot_at t i \<equiv> ft_slots t ! i"

section \<open>Row operations\<close>

definition claimable :: "fake_ip_table \<Rightarrow> nat \<Rightarrow> bool" where
  "claimable t i =
     (if ft_excluded t ! i then False
      else let row = slot_at t i in
        if \<not> sl_used_once row then True
        else sl_reusable_at row \<le> ft_allocations t)"

definition find_name :: "fake_ip_table \<Rightarrow> string \<Rightarrow> nat option" where
  "find_name t name = scan (\<lambda>i. sl_name (slot_at t i) = name) (length (ft_slots t))"

definition find_free :: "fake_ip_table \<Rightarrow> nat option" where
  "find_free t = scan (\<lambda>i. sl_name (slot_at t i) = [] \<and> claimable t i) (length (ft_slots t))"

definition find_lru :: "fake_ip_table \<Rightarrow> nat option" where
  "find_lru t =
     lru (\<lambda>i. \<not> (sl_name (slot_at t i) = [] \<or> sl_inflight (slot_at t i) \<noteq> 0))
       (\<lambda>i. sl_last_use (slot_at t i)) (length (ft_slots t))"

definition claim :: "nat \<Rightarrow> string \<Rightarrow> fake_ip_table \<Rightarrow> fake_ip_table" where
  "claim i name t = t\<lparr>ft_slots := (ft_slots t)[i :=
     (slot_at t i)\<lparr>sl_name := name, sl_inflight := 0, sl_last_use := ft_touch t,
       sl_reusable_at := 0, sl_used_once := True\<rparr>]\<rparr>"

definition retire :: "nat \<Rightarrow> fake_ip_table \<Rightarrow> fake_ip_table" where
  "retire i t = t\<lparr>ft_slots := (ft_slots t)[i :=
     (slot_at t i)\<lparr>sl_name := [], sl_inflight := 0, sl_used_once := True,
       sl_reusable_at := ft_allocations t + of_nat (ft_quarantine t)\<rparr>]\<rparr>"

section \<open>Public operations\<close>

definition exclude :: "octets \<Rightarrow> fake_ip_table \<Rightarrow> fake_ip_table" where
  "exclude addr t =
     (case fake_ip_slot_of addr of
        None \<Rightarrow> t
      | Some i \<Rightarrow>
          if ft_excluded t ! i then t
          else let t1 = t\<lparr>ft_excluded := (ft_excluded t)[i := True],
                          ft_exclusions := ft_exclusions t + 1\<rparr>
            in if sl_name (slot_at t1 i) \<noteq> [] then retire i t1 else t1)"

definition fake_ip_table_new :: "octets \<Rightarrow> nat \<Rightarrow> fake_ip_table" where
  "fake_ip_table_new addr quarantine = exclude addr
     \<lparr>ft_slots = replicate FAKEIP_CAPACITY fake_ip_slot_init, ft_quarantine = quarantine,
      ft_excluded = replicate FAKEIP_CAPACITY False, ft_exclusions = 0,
      ft_touch = 0, ft_allocations = 0\<rparr>"

definition excluded :: "fake_ip_table \<Rightarrow> octets \<Rightarrow> bool" where
  "excluded t addr =
     (case fake_ip_slot_of addr of None \<Rightarrow> False | Some i \<Rightarrow> ft_excluded t ! i)"

definition alloc :: "string \<Rightarrow> fake_ip_table \<Rightarrow> octets option \<times> fake_ip_table" where
  "alloc name t =
     (if name = [] then (None, t)
      else let t1 = t\<lparr>ft_touch := ft_touch t + 1\<rparr> in
        case find_name t1 name of
          Some seen \<Rightarrow>
            (Some (fake_ip_at seen),
             t1\<lparr>ft_slots := (ft_slots t1)[seen := (slot_at t1 seen)\<lparr>sl_last_use := ft_touch t1\<rparr>]\<rparr>)
        | None \<Rightarrow>
            let t2 = t1\<lparr>ft_allocations := ft_allocations t1 + 1\<rparr> in
            case find_free t2 of
              Some free_slot \<Rightarrow> (Some (fake_ip_at free_slot), claim free_slot name t2)
            | None \<Rightarrow>
                let t3 = (case find_lru t2 of None \<Rightarrow> t2 | Some victim \<Rightarrow> retire victim t2) in
                case find_free t3 of
                  Some aged \<Rightarrow> (Some (fake_ip_at aged), claim aged name t3)
                | None \<Rightarrow> (None, t3))"

definition lookup :: "fake_ip_table \<Rightarrow> octets \<Rightarrow> string option" where
  "lookup t fake =
     (case fake_ip_slot_of fake of
        None \<Rightarrow> None
      | Some i \<Rightarrow> if sl_name (slot_at t i) = [] then None else Some (sl_name (slot_at t i)))"

definition owned_slot :: "fake_ip_table \<Rightarrow> octets \<Rightarrow> nat option" where
  "owned_slot t fake =
     (case fake_ip_slot_of fake of
        None \<Rightarrow> None
      | Some i \<Rightarrow> if sl_name (slot_at t i) = [] then None else Some i)"

definition pin :: "octets \<Rightarrow> fake_ip_table \<Rightarrow> bool \<times> fake_ip_table" where
  "pin fake t =
     (case owned_slot t fake of
        None \<Rightarrow> (False, t)
      | Some i \<Rightarrow> (True, t\<lparr>ft_slots := (ft_slots t)[i :=
          (slot_at t i)\<lparr>sl_inflight := sl_inflight (slot_at t i) + 1\<rparr>]\<rparr>))"

definition unpin :: "octets \<Rightarrow> fake_ip_table \<Rightarrow> bool \<times> fake_ip_table" where
  "unpin fake t =
     (case owned_slot t fake of
        None \<Rightarrow> (False, t)
      | Some i \<Rightarrow>
          if sl_inflight (slot_at t i) = 0 then (False, t)
          else (True, t\<lparr>ft_slots := (ft_slots t)[i :=
            (slot_at t i)\<lparr>sl_inflight := sl_inflight (slot_at t i) - 1\<rparr>]\<rparr>))"

definition pins :: "fake_ip_table \<Rightarrow> octets \<Rightarrow> nat" where
  "pins t fake = (case owned_slot t fake of None \<Rightarrow> 0 | Some i \<Rightarrow> sl_inflight (slot_at t i))"

definition live_names :: "fake_ip_table \<Rightarrow> nat" where
  "live_names t = count_rows (\<lambda>row. sl_name row \<noteq> []) (ft_slots t)"

definition quarantined :: "fake_ip_table \<Rightarrow> nat" where
  "quarantined t = length (filter (\<lambda>i. sl_name (slot_at t i) = [] \<and> \<not> claimable t i)
     [0..<length (ft_slots t)])"

definition capacity :: "fake_ip_table \<Rightarrow> nat" where
  "capacity t = FAKEIP_CAPACITY - ft_exclusions t"

definition note_touched :: "octets \<Rightarrow> fake_ip_table \<Rightarrow> bool \<times> fake_ip_table" where
  "note_touched fake t =
     (case owned_slot t fake of
        None \<Rightarrow> (False, t)
      | Some i \<Rightarrow>
          let t1 = t\<lparr>ft_touch := ft_touch t + 1\<rparr> in
          (True, t1\<lparr>ft_slots := (ft_slots t1)[i := (slot_at t1 i)\<lparr>sl_last_use := ft_touch t1\<rparr>]\<rparr>))"

definition note_progress :: "u64 \<Rightarrow> fake_ip_table \<Rightarrow> u64 \<times> fake_ip_table" where
  "note_progress ticks t =
     (let t1 = t\<lparr>ft_allocations := ft_allocations t + ticks\<rparr> in (ft_allocations t1, t1))"

section \<open>Runs of operations\<close>

datatype fake_op =
    Alloc string
  | Exclude octets
  | Pin octets
  | Unpin octets
  | Touched octets
  | Progress u64

fun fake_step :: "fake_op \<Rightarrow> fake_ip_table \<Rightarrow> fake_ip_table" where
  "fake_step (Alloc name) t = snd (alloc name t)"
| "fake_step (Exclude a) t = exclude a t"
| "fake_step (Pin a) t = snd (pin a t)"
| "fake_step (Unpin a) t = snd (unpin a t)"
| "fake_step (Touched a) t = snd (note_touched a t)"
| "fake_step (Progress k) t = snd (note_progress k t)"

definition fake_run :: "fake_op list \<Rightarrow> fake_ip_table \<Rightarrow> fake_ip_table" where
  "fake_run ops t = fold fake_step ops t"

text \<open>How far an operation can advance the quarantine clock.\<close>

fun fake_cost :: "fake_op \<Rightarrow> nat" where
  "fake_cost (Alloc name) = 1"
| "fake_cost (Progress k) = unat k"
| "fake_cost _ = 0"

lemma fake_run_simps [simp]:
  "fake_run [] t = t" "fake_run (x # xs) t = fake_run xs (fake_step x t)"
  by (simp_all add: fake_run_def)

section \<open>Well-formedness\<close>

abbreviation names_unique :: "fake_ip_slot list \<Rightarrow> bool" where
  "names_unique \<equiv> keys_unique (\<lambda>r. sl_name r \<noteq> []) sl_name"

definition table_wf :: "fake_ip_table \<Rightarrow> bool" where
  "table_wf t \<longleftrightarrow>
     length (ft_slots t) = FAKEIP_CAPACITY \<and>
     length (ft_excluded t) = FAKEIP_CAPACITY \<and>
     ft_exclusions t = count_rows id (ft_excluded t) \<and>
     (\<forall>i<FAKEIP_CAPACITY. ft_excluded t ! i \<longrightarrow> sl_name (slot_at t i) = []) \<and>
     (\<forall>i<FAKEIP_CAPACITY. sl_name (slot_at t i) = [] \<longrightarrow> sl_inflight (slot_at t i) = 0) \<and>
     (\<forall>i<FAKEIP_CAPACITY. sl_name (slot_at t i) \<noteq> [] \<longrightarrow> sl_used_once (slot_at t i)) \<and>
     names_unique (ft_slots t)"

lemma wf_lengths [simp]:
  "table_wf t \<Longrightarrow> length (ft_slots t) = FAKEIP_CAPACITY"
  "table_wf t \<Longrightarrow> length (ft_excluded t) = FAKEIP_CAPACITY"
  by (simp_all add: table_wf_def)

lemma wf_excluded_free: "table_wf t \<Longrightarrow> i < FAKEIP_CAPACITY \<Longrightarrow> ft_excluded t ! i \<Longrightarrow> sl_name (slot_at t i) = []"
  unfolding table_wf_def by simp

lemma wf_used: "table_wf t \<Longrightarrow> i < FAKEIP_CAPACITY \<Longrightarrow> sl_name (slot_at t i) \<noteq> [] \<Longrightarrow> sl_used_once (slot_at t i)"
  unfolding table_wf_def by simp

lemma wf_distinct: "table_wf t \<Longrightarrow> i < FAKEIP_CAPACITY \<Longrightarrow> j < FAKEIP_CAPACITY \<Longrightarrow>
    sl_name (slot_at t i) \<noteq> [] \<Longrightarrow> sl_name (slot_at t i) = sl_name (slot_at t j) \<Longrightarrow> i = j"
  unfolding table_wf_def using keys_uniqueD [of "\<lambda>r. sl_name r \<noteq> []" sl_name "ft_slots t" i j] by simp

text \<open>The clocks are no part of well-formedness, and neither is a row's LRU stamp.\<close>

lemma wf_touch [simp]: "table_wf (t\<lparr>ft_touch := x\<rparr>) = table_wf t"
  unfolding table_wf_def by simp

lemma wf_allocations [simp]: "table_wf (t\<lparr>ft_allocations := x\<rparr>) = table_wf t"
  unfolding table_wf_def by simp

text \<open>Replacing one row: the name uniqueness is the only part that looks at other rows.\<close>

lemma wf_update_row:
  assumes wf: "table_wf t" and i: "i < FAKEIP_CAPACITY"
    and "ft_excluded t ! i \<Longrightarrow> sl_name r = []"
    and "sl_name r = [] \<Longrightarrow> sl_inflight r = 0"
    and "sl_name r \<noteq> [] \<Longrightarrow> sl_used_once r"
    and "\<And>j. j < FAKEIP_CAPACITY \<Longrightarrow> j \<noteq> i \<Longrightarrow> sl_name r \<noteq> [] \<Longrightarrow> sl_name (slot_at t j) \<noteq> sl_name r"
  shows "table_wf (t\<lparr>ft_slots := (ft_slots t)[i := r]\<rparr>)"
proof -
  from wf i assms(6) have "names_unique ((ft_slots t)[i := r])"
    unfolding table_wf_def by (intro keys_unique_update) auto
  with assms show ?thesis unfolding table_wf_def by (auto simp: nth_list_update)
qed

lemma wf_same_name:
  assumes "table_wf t" "i < FAKEIP_CAPACITY" "sl_name r = sl_name (slot_at t i)"
    and "sl_used_once r = sl_used_once (slot_at t i)"
    and "sl_name r = [] \<Longrightarrow> sl_inflight r = 0"
  shows "table_wf (t\<lparr>ft_slots := (ft_slots t)[i := r]\<rparr>)"
proof (rule wf_update_row)
  fix j assume "j < FAKEIP_CAPACITY" "j \<noteq> i" "sl_name r \<noteq> []"
  then show "sl_name (slot_at t j) \<noteq> sl_name r"
    using assms(3) wf_distinct [OF assms(1) _ assms(2), of j] by metis
qed (use assms wf_excluded_free wf_used in auto)

lemma wf_retire: "table_wf t \<Longrightarrow> i < FAKEIP_CAPACITY \<Longrightarrow> table_wf (retire i t)"
  unfolding retire_def by (rule wf_update_row) simp_all

lemma wf_claim:
  assumes "table_wf t" "i < FAKEIP_CAPACITY" "\<not> ft_excluded t ! i"
    and "\<And>j. j < FAKEIP_CAPACITY \<Longrightarrow> sl_name (slot_at t j) \<noteq> name"
  shows "table_wf (claim i name t)"
  unfolding claim_def using assms by (intro wf_update_row) simp_all

lemma retire_simps [simp]:
  "ft_excluded (retire i t) = ft_excluded t" "ft_quarantine (retire i t) = ft_quarantine t"
  "ft_touch (retire i t) = ft_touch t" "ft_allocations (retire i t) = ft_allocations t"
  "length (ft_slots (retire i t)) = length (ft_slots t)" "ft_exclusions (retire i t) = ft_exclusions t"
  by (simp_all add: retire_def)

lemma claim_simps [simp]:
  "ft_excluded (claim i n t) = ft_excluded t" "ft_quarantine (claim i n t) = ft_quarantine t"
  "ft_touch (claim i n t) = ft_touch t" "ft_allocations (claim i n t) = ft_allocations t"
  "length (ft_slots (claim i n t)) = length (ft_slots t)" "ft_exclusions (claim i n t) = ft_exclusions t"
  by (simp_all add: claim_def)

lemma slot_at_retire: "j < length (ft_slots t) \<Longrightarrow>
    slot_at (retire i t) j = (if i = j then (slot_at t i)\<lparr>sl_name := [], sl_inflight := 0,
       sl_used_once := True, sl_reusable_at := ft_allocations t + of_nat (ft_quarantine t)\<rparr>
     else slot_at t j)"
  by (simp add: retire_def nth_list_update)

lemma slot_at_claim: "j < length (ft_slots t) \<Longrightarrow>
    slot_at (claim i n t) j = (if i = j then (slot_at t i)\<lparr>sl_name := n, sl_inflight := 0,
       sl_last_use := ft_touch t, sl_reusable_at := 0, sl_used_once := True\<rparr>
     else slot_at t j)"
  by (simp add: claim_def nth_list_update)

text \<open>What the searches find.\<close>

lemma find_name_Some: "table_wf t \<Longrightarrow> find_name t name = Some i \<Longrightarrow>
    i < FAKEIP_CAPACITY \<and> sl_name (slot_at t i) = name"
  by (auto simp: find_name_def scan_Some_iff)

lemma find_name_None: "table_wf t \<Longrightarrow> find_name t name = None \<longleftrightarrow>
    (\<forall>i<FAKEIP_CAPACITY. sl_name (slot_at t i) \<noteq> name)"
  by (simp add: find_name_def scan_None_iff)

lemma find_free_Some: "table_wf t \<Longrightarrow> find_free t = Some i \<Longrightarrow>
    i < FAKEIP_CAPACITY \<and> sl_name (slot_at t i) = [] \<and> claimable t i"
  by (auto simp: find_free_def scan_Some_iff)

lemma find_free_None: "table_wf t \<Longrightarrow> find_free t = None \<longleftrightarrow>
    (\<forall>i<FAKEIP_CAPACITY. sl_name (slot_at t i) = [] \<longrightarrow> \<not> claimable t i)"
  by (simp add: find_free_def scan_None_iff)

lemma find_lru_Some: "table_wf t \<Longrightarrow> find_lru t = Some i \<Longrightarrow>
    i < FAKEIP_CAPACITY \<and> sl_name (slot_at t i) \<noteq> [] \<and> sl_inflight (slot_at t i) = 0"
  by (auto simp: find_lru_def dest!: lru_SomeD)

lemma find_lru_None: "table_wf t \<Longrightarrow> find_lru t = None \<longleftrightarrow>
    (\<forall>i<FAKEIP_CAPACITY. sl_name (slot_at t i) \<noteq> [] \<longrightarrow> sl_inflight (slot_at t i) \<noteq> 0)"
  by (auto simp: find_lru_def lru_None_iff)

lemma claimable_not_excluded: "claimable t i \<Longrightarrow> \<not> ft_excluded t ! i"
  by (simp add: claimable_def split: if_splits)

section \<open>The outcomes of an allocation\<close>

text \<open>
  \<open>ticked\<close> is the table after both clocks moved, \<open>evicted\<close> the table after the LRU victim, if
  there is one, was retired: the two intermediate states of \<open>alloc\<close>.
\<close>

definition ticked :: "fake_ip_table \<Rightarrow> fake_ip_table" where
  "ticked t = t\<lparr>ft_touch := ft_touch t + 1, ft_allocations := ft_allocations t + 1\<rparr>"

definition evicted :: "fake_ip_table \<Rightarrow> fake_ip_table" where
  "evicted t = (case find_lru t of None \<Rightarrow> t | Some v \<Rightarrow> retire v t)"

lemma ticked_simps [simp]:
  "ft_slots (ticked t) = ft_slots t" "ft_excluded (ticked t) = ft_excluded t"
  "ft_quarantine (ticked t) = ft_quarantine t" "ft_allocations (ticked t) = ft_allocations t + 1"
  "ft_touch (ticked t) = ft_touch t + 1" "ft_exclusions (ticked t) = ft_exclusions t"
  "table_wf (ticked t) = table_wf t"
  by (simp_all add: ticked_def)

lemma evicted_simps [simp]:
  "ft_excluded (evicted t) = ft_excluded t" "ft_quarantine (evicted t) = ft_quarantine t"
  "ft_allocations (evicted t) = ft_allocations t" "length (ft_slots (evicted t)) = length (ft_slots t)"
  "ft_exclusions (evicted t) = ft_exclusions t"
  by (simp_all add: evicted_def split: option.split)

lemma wf_evicted:
  assumes "table_wf t"
  shows "table_wf (evicted t)"
proof (cases "find_lru t")
  case None
  with assms show ?thesis by (simp add: evicted_def)
next
  case (Some v)
  have "table_wf (retire v t)"
    using find_lru_Some [OF assms Some] assms by (intro wf_retire) blast+
  with Some show ?thesis by (simp add: evicted_def)
qed

lemma slot_at_evicted:
  assumes "table_wf t" "j < FAKEIP_CAPACITY"
  shows "slot_at (evicted t) j = slot_at t j \<or>
    find_lru t = Some j \<and> sl_name (slot_at t j) \<noteq> [] \<and> sl_inflight (slot_at t j) = 0 \<and>
    slot_at (evicted t) j = (slot_at t j)\<lparr>sl_name := [], sl_inflight := 0, sl_used_once := True,
       sl_reusable_at := ft_allocations t + of_nat (ft_quarantine t)\<rparr>"
proof (cases "find_lru t")
  case None
  then show ?thesis by (simp add: evicted_def)
next
  case (Some v)
  with assms find_lru_Some [OF assms(1) Some] show ?thesis
    by (cases "v = j") (simp_all add: evicted_def slot_at_retire)
qed

lemma find_name_touch [simp]: "find_name (t\<lparr>ft_touch := x\<rparr>) name = find_name t name"
  by (simp add: find_name_def)

lemma alloc_held:
  "name \<noteq> [] \<Longrightarrow> find_name t name = Some i \<Longrightarrow>
     alloc name t = (Some (fake_ip_at i),
       t\<lparr>ft_touch := ft_touch t + 1,
         ft_slots := (ft_slots t)[i := (slot_at t i)\<lparr>sl_last_use := ft_touch t + 1\<rparr>]\<rparr>)"
  by (simp add: alloc_def Let_def)

lemma alloc_new:
  assumes "name \<noteq> []" "find_name t name = None"
  shows "alloc name t =
       (case find_free (ticked t) of
          Some i \<Rightarrow> (Some (fake_ip_at i), claim i name (ticked t))
        | None \<Rightarrow>
            (case find_free (evicted (ticked t)) of
               Some i \<Rightarrow> (Some (fake_ip_at i), claim i name (evicted (ticked t)))
             | None \<Rightarrow> (None, evicted (ticked t))))"
proof -
  have tk: "t\<lparr>ft_touch := ft_touch t + 1\<rparr>\<lparr>ft_allocations := ft_allocations (t\<lparr>ft_touch := ft_touch t + 1\<rparr>) + 1\<rparr>
      = ticked t"
    by (simp add: ticked_def)
  show ?thesis
    unfolding alloc_def Let_def tk evicted_def using assms by simp
qed

text \<open>
  Every call on a non-empty name either finds the row it has, or claims a free row \<open>i\<close> of an
  intermediate table \<open>u\<close>, or leaves that table as it is.
\<close>

lemma alloc_cases [consumes 2, case_names held claimed refused]:
  assumes wf: "table_wf t" and ne: "name \<noteq> []"
  obtains
    (held) i where "find_name t name = Some i" "i < FAKEIP_CAPACITY" "sl_name (slot_at t i) = name"
      "alloc name t = (Some (fake_ip_at i),
         t\<lparr>ft_touch := ft_touch t + 1,
           ft_slots := (ft_slots t)[i := (slot_at t i)\<lparr>sl_last_use := ft_touch t + 1\<rparr>]\<rparr>)"
  | (claimed) u i where "find_name t name = None" "u = ticked t \<or> u = evicted (ticked t)"
      "table_wf u" "find_free u = Some i" "i < FAKEIP_CAPACITY"
      "alloc name t = (Some (fake_ip_at i), claim i name u)"
  | (refused) "find_name t name = None" "find_free (ticked t) = None"
      "find_free (evicted (ticked t)) = None" "alloc name t = (None, evicted (ticked t))"
proof (cases "find_name t name")
  case (Some i)
  with find_name_Some [OF wf Some] alloc_held [OF ne Some] show thesis by (intro held) auto
next
  case None
  have wu: "table_wf (ticked t)" "table_wf (evicted (ticked t))"
    using wf wf_evicted by auto
  show thesis
  proof (cases "find_free (ticked t)")
    case (Some i)
    with find_free_Some [OF wu(1) Some] alloc_new [OF ne None] show thesis
      using None wu by (intro claimed) auto
  next
    case n1: None
    show thesis
    proof (cases "find_free (evicted (ticked t))")
      case (Some i)
      with n1 find_free_Some [OF wu(2) Some] alloc_new [OF ne None] show thesis
        using None wu by (intro claimed) auto
    next
      case n2: None
      with n1 None alloc_new [OF ne None] show thesis by (intro refused) auto
    qed
  qed
qed

lemma intermediate_not_held:
  assumes "table_wf t" "find_name t name = None" "name \<noteq> []" "u = ticked t \<or> u = evicted (ticked t)"
    and "j < FAKEIP_CAPACITY"
  shows "sl_name (slot_at u j) \<noteq> name"
  using assms slot_at_evicted [of "ticked t" j] by (auto simp: find_name_None)

section \<open>Every operation keeps the table well formed\<close>

lemma wf_alloc: "table_wf t \<Longrightarrow> table_wf (snd (alloc name t))"
proof (cases "name = []")
  case True
  then show "table_wf t \<Longrightarrow> ?thesis" by (simp add: alloc_def)
next
  case False
  assume wf: "table_wf t"
  from wf False show ?thesis
  proof (cases rule: alloc_cases)
    case (held i)
    have "table_wf (t\<lparr>ft_touch := ft_touch t + 1\<rparr>)" using wf by simp
    from wf_same_name [OF this, of i "(slot_at t i)\<lparr>sl_last_use := ft_touch t + 1\<rparr>"] held False
    show ?thesis by simp
  next
    case (claimed u i)
    with wf_claim [of u i name] intermediate_not_held [OF wf] find_free_Some claimable_not_excluded False
    show ?thesis by simp
  next
    case refused
    with wf show ?thesis by (simp add: wf_evicted)
  qed
qed

lemma owned_slot_Some:
  "owned_slot t a = Some i \<longleftrightarrow> fake_ip_slot_of a = Some i \<and> sl_name (slot_at t i) \<noteq> []"
  by (auto simp: owned_slot_def split: option.splits)

lemma wf_pin: "table_wf t \<Longrightarrow> table_wf (snd (pin a t))"
  by (auto simp: pin_def owned_slot_Some dest: at_slot_of(2) intro!: wf_same_name split: option.split)

lemma wf_unpin: "table_wf t \<Longrightarrow> table_wf (snd (unpin a t))"
  by (auto simp: unpin_def owned_slot_Some dest: at_slot_of(2) intro!: wf_same_name split: option.split)

lemma wf_note_touched:
  assumes wf: "table_wf t"
  shows "table_wf (snd (note_touched a t))"
proof (cases "owned_slot t a")
  case (Some i)
  from wf have wf1: "table_wf (t\<lparr>ft_touch := ft_touch t + 1\<rparr>)" by simp
  have "i < FAKEIP_CAPACITY" "sl_name (slot_at t i) \<noteq> []"
    using Some at_slot_of(2) unfolding owned_slot_Some by blast+
  with wf_same_name [OF wf1, of i "(slot_at t i)\<lparr>sl_last_use := ft_touch t + 1\<rparr>"]
  show ?thesis by (simp add: note_touched_def Some)
qed (simp add: note_touched_def wf)

lemma wf_note_progress: "table_wf t \<Longrightarrow> table_wf (snd (note_progress k t))"
  by (simp add: note_progress_def Let_def)

lemma wf_mark:
  assumes "table_wf t" "i < FAKEIP_CAPACITY" "\<not> ft_excluded t ! i" "sl_name (slot_at t i) = []"
  shows "table_wf (t\<lparr>ft_excluded := (ft_excluded t)[i := True], ft_exclusions := ft_exclusions t + 1\<rparr>)"
  using assms unfolding table_wf_def by (auto simp: nth_list_update id_def)

lemma retire_mark:
  "retire i (t\<lparr>ft_excluded := e, ft_exclusions := k\<rparr>) = (retire i t)\<lparr>ft_excluded := e, ft_exclusions := k\<rparr>"
  by (simp add: retire_def)

lemma wf_exclude:
  assumes wf: "table_wf t"
  shows "table_wf (exclude a t)"
proof (cases "fake_ip_slot_of a")
  case None
  with wf show ?thesis by (simp add: exclude_def)
next
  case (Some i)
  then have i: "i < FAKEIP_CAPACITY" by (rule at_slot_of)
  show ?thesis
  proof (cases "ft_excluded t ! i")
    case True
    with Some wf show ?thesis by (simp add: exclude_def)
  next
    case False
    have "table_wf ((retire i t)\<lparr>ft_excluded := (ft_excluded t)[i := True], ft_exclusions := ft_exclusions t + 1\<rparr>)"
      using wf_mark [OF wf_retire [OF wf i], of i] False i wf by (simp add: slot_at_retire)
    with Some False wf_mark [OF wf i False] show ?thesis
      by (simp add: exclude_def Let_def retire_mark)
  qed
qed

lemmas wf_ops [wf_simps] = wf_alloc wf_pin wf_unpin wf_note_touched wf_note_progress wf_exclude

lemma wf_step [wf_simps]: "table_wf t \<Longrightarrow> table_wf (fake_step x t)"
  by (cases x) (simp_all add: wf_simps)

lemma wf_new: "table_wf (fake_ip_table_new a q)"
  unfolding fake_ip_table_new_def
  by (rule wf_exclude) (simp add: table_wf_def keys_unique_replicate fake_ip_slot_init_def)

interpretation fake_steps: invariant_steps fake_step table_wf "fake_ip_table_new a q" for a q
  by unfold_locales (simp_all add: wf_step wf_new)

lemma wf_run: "table_wf t \<Longrightarrow> table_wf (fake_run ops t)"
  unfolding fake_run_def by (rule fake_steps.kept_inv)

section \<open>What one operation does to one row\<close>

definition row_kept :: "fake_ip_table \<Rightarrow> nat \<Rightarrow> fake_ip_table \<Rightarrow> bool" where
  "row_kept t j t' \<longleftrightarrow> sl_name (slot_at t' j) = sl_name (slot_at t j) \<and>
     sl_used_once (slot_at t' j) = sl_used_once (slot_at t j) \<and>
     sl_reusable_at (slot_at t' j) = sl_reusable_at (slot_at t j)"

definition row_retired :: "fake_ip_table \<Rightarrow> nat \<Rightarrow> fake_ip_table \<Rightarrow> bool" where
  "row_retired t j t' \<longleftrightarrow> sl_name (slot_at t j) \<noteq> [] \<and> sl_name (slot_at t' j) = [] \<and>
     sl_used_once (slot_at t' j) \<and>
     sl_reusable_at (slot_at t' j) = ft_allocations t' + of_nat (ft_quarantine t)"

text \<open>
  A claimed row was free and past its quarantine, or it was the victim this very call retired
  and its quarantine was over at once (a quarantine of zero, or one that wraps the clock).
\<close>

definition row_claimed :: "fake_ip_table \<Rightarrow> nat \<Rightarrow> fake_ip_table \<Rightarrow> bool" where
  "row_claimed t j t' \<longleftrightarrow> \<not> ft_excluded t ! j \<and> sl_name (slot_at t' j) \<noteq> [] \<and>
     (if sl_name (slot_at t j) = []
      then \<not> sl_used_once (slot_at t j) \<or> sl_reusable_at (slot_at t j) \<le> ft_allocations t'
      else ft_allocations t' + of_nat (ft_quarantine t) \<le> ft_allocations t')"

lemma evicted_row:
  assumes "table_wf t" "j < FAKEIP_CAPACITY"
  shows "row_kept t j (evicted (ticked t)) \<or>
    sl_inflight (slot_at t j) = 0 \<and> row_retired t j (evicted (ticked t))"
  using slot_at_evicted [of "ticked t" j] assms unfolding row_kept_def row_retired_def by auto

lemma alloc_row:
  assumes wf: "table_wf t" and j: "j < FAKEIP_CAPACITY"
  shows "row_kept t j (snd (alloc name t)) \<or>
    sl_inflight (slot_at t j) = 0 \<and> row_retired t j (snd (alloc name t)) \<or>
    sl_inflight (slot_at t j) = 0 \<and> row_claimed t j (snd (alloc name t)) \<and>
      fst (alloc name t) = Some (fake_ip_at j)"
proof (cases "name = []")
  case True
  then show ?thesis by (simp add: alloc_def row_kept_def)
next
  case False
  from wf False show ?thesis
  proof (cases rule: alloc_cases)
    case (held i)
    with j wf show ?thesis by (simp add: row_kept_def nth_list_update)
  next
    case refused
    with evicted_row [OF wf j] show ?thesis by simp
  next
    case (claimed u i)
    have u: "row_kept t j u \<or> sl_inflight (slot_at t j) = 0 \<and> row_retired t j u"
      using claimed(2) evicted_row [OF wf j] by (auto simp: row_kept_def)
    show ?thesis
    proof (cases "i = j")
      case False
      then have "slot_at (claim i name u) j = slot_at u j"
        using claimed(3) j by (simp add: slot_at_claim)
      then show ?thesis using u claimed(6) by (auto simp: row_kept_def row_retired_def)
    next
      case True
      have cl: "claimable u j" "sl_name (slot_at u j) = []"
        using find_free_Some [OF claimed(3,4)] True by simp_all
      have ex: "ft_excluded u = ft_excluded t" using claimed(2) by auto
      have inflight: "sl_inflight (slot_at t j) = 0"
        using u cl(2) wf j unfolding row_kept_def table_wf_def by auto
      have "row_claimed t j (claim j name u)"
        using u cl ex claimed(3) j \<open>name \<noteq> []\<close> wf_used [OF wf j]
        unfolding row_claimed_def row_kept_def row_retired_def
        by (auto simp: slot_at_claim claimable_def split: if_splits)
      with inflight True claimed(6) show ?thesis by simp
    qed
  qed
qed

lemma exclude_row:
  assumes "table_wf t" "j < FAKEIP_CAPACITY"
  shows "row_kept t j (exclude a t) \<or> row_retired t j (exclude a t)"
proof (cases "fake_ip_slot_of a")
  case (Some i)
  then have "i < FAKEIP_CAPACITY" by (rule at_slot_of)
  with Some assms show ?thesis
    by (cases "i = j") (simp_all add: exclude_def Let_def row_kept_def row_retired_def slot_at_retire)
qed (simp add: exclude_def row_kept_def)

lemma pin_row: "table_wf t \<Longrightarrow> j < FAKEIP_CAPACITY \<Longrightarrow> row_kept t j (snd (pin a t))"
  by (auto simp: pin_def row_kept_def nth_update split: option.split)

lemma unpin_row: "table_wf t \<Longrightarrow> j < FAKEIP_CAPACITY \<Longrightarrow> row_kept t j (snd (unpin a t))"
  by (auto simp: unpin_def row_kept_def nth_update split: option.split)

lemma touched_row: "table_wf t \<Longrightarrow> j < FAKEIP_CAPACITY \<Longrightarrow> row_kept t j (snd (note_touched a t))"
  by (auto simp: note_touched_def Let_def row_kept_def nth_update split: option.split)

lemma step_row:
  assumes "table_wf t" "j < FAKEIP_CAPACITY"
  shows "row_kept t j (fake_step x t) \<or> row_retired t j (fake_step x t) \<or> row_claimed t j (fake_step x t)"
proof (cases x)
  case (Alloc name)
  with alloc_row [OF assms, of name] show ?thesis by auto
next
  case (Exclude a)
  with exclude_row [OF assms, of a] show ?thesis by auto
next
  case (Progress k)
  then show ?thesis by (simp add: note_progress_def Let_def row_kept_def)
qed (simp_all add: assms pin_row unpin_row touched_row)

text \<open>The clock and the marks under one operation.\<close>

lemma alloc_clock:
  assumes "table_wf t"
  shows "ft_allocations (snd (alloc name t)) \<in> {ft_allocations t, ft_allocations t + 1}"
    and "ft_quarantine (snd (alloc name t)) = ft_quarantine t"
    and "ft_excluded (snd (alloc name t)) = ft_excluded t"
    and "ft_exclusions (snd (alloc name t)) = ft_exclusions t"
proof -
  have "ft_allocations (snd (alloc name t)) \<in> {ft_allocations t, ft_allocations t + 1} \<and>
    ft_quarantine (snd (alloc name t)) = ft_quarantine t \<and>
    ft_excluded (snd (alloc name t)) = ft_excluded t \<and> ft_exclusions (snd (alloc name t)) = ft_exclusions t"
  proof (cases "name = []")
    case True
    then show ?thesis by (simp add: alloc_def)
  next
    case False
    with assms show ?thesis by (cases rule: alloc_cases) auto
  qed
  then show "ft_allocations (snd (alloc name t)) \<in> {ft_allocations t, ft_allocations t + 1}"
    "ft_quarantine (snd (alloc name t)) = ft_quarantine t"
    "ft_excluded (snd (alloc name t)) = ft_excluded t"
    "ft_exclusions (snd (alloc name t)) = ft_exclusions t" by blast+
qed

lemma step_quarantine [simp]: "table_wf t \<Longrightarrow> ft_quarantine (fake_step x t) = ft_quarantine t"
  by (cases x) (auto simp: alloc_clock exclude_def pin_def unpin_def note_touched_def note_progress_def
      Let_def split: option.split)

lemma step_excluded: "table_wf t \<Longrightarrow> j < FAKEIP_CAPACITY \<Longrightarrow> ft_excluded t ! j \<Longrightarrow>
    ft_excluded (fake_step x t) ! j"
  by (cases x) (auto simp: alloc_clock exclude_def pin_def unpin_def note_touched_def note_progress_def
      Let_def nth_update split: option.split)

lemma step_clock:
  assumes wf: "table_wf t" and lt: "unat (ft_allocations t) + fake_cost x < 2 ^ 64"
  shows "unat (ft_allocations t) \<le> unat (ft_allocations (fake_step x t)) \<and>
    unat (ft_allocations (fake_step x t)) \<le> unat (ft_allocations t) + fake_cost x"
proof (cases x)
  case (Alloc name)
  have "unat (ft_allocations t + 1) = unat (ft_allocations t) + 1"
    using lt Alloc by (subst unat_word_ariths) simp
  with Alloc alloc_clock(1) [OF wf, of name] show ?thesis by auto
next
  case (Progress k)
  have "unat (ft_allocations t + k) = unat (ft_allocations t) + unat k"
    using lt Progress by (subst unat_word_ariths) simp
  with Progress show ?thesis by (simp add: note_progress_def Let_def)
qed (auto simp: exclude_def pin_def unpin_def note_touched_def Let_def split: option.split)

section \<open>Quarantine, exclusion and pins over a run\<close>

text \<open>
  \<open>no_misroute t j n q limit\<close>: row \<open>j\<close> still carries \<open>n\<close>, or it is free and cannot be
  claimed before the clock reaches \<open>limit\<close>.
\<close>

definition no_misroute :: "fake_ip_table \<Rightarrow> nat \<Rightarrow> string \<Rightarrow> nat \<Rightarrow> bool" where
  "no_misroute t j n limit \<longleftrightarrow>
     sl_name (slot_at t j) = n \<or>
     sl_name (slot_at t j) = [] \<and> sl_used_once (slot_at t j) \<and>
       limit \<le> unat (sl_reusable_at (slot_at t j))"

lemma no_misroute_step:
  assumes wf: "table_wf t" and j: "j < FAKEIP_CAPACITY" and ne: "n \<noteq> []"
    and safe: "no_misroute t j n limit"
    and low: "limit \<le> unat (ft_allocations t) + ft_quarantine t"
    and cost: "unat (ft_allocations t) + fake_cost x < limit"
    and fits: "limit + ft_quarantine t < 2 ^ 64"
  shows "no_misroute (fake_step x t) j n limit"
proof -
  let ?t' = "fake_step x t"
  have clock: "unat (ft_allocations t) \<le> unat (ft_allocations ?t')" "unat (ft_allocations ?t') < limit"
    using step_clock [OF wf, of x] cost fits by auto
  have q: "unat (ft_allocations ?t' + of_nat (ft_quarantine t))
      = unat (ft_allocations ?t') + ft_quarantine t"
    using clock fits by (subst unat_word_ariths) (simp add: unat_of_nat)
  show ?thesis using step_row [OF wf j, of x]
  proof (elim disjE)
    assume "row_kept t j ?t'"
    then show ?thesis using safe unfolding no_misroute_def row_kept_def by auto
  next
    assume "row_retired t j ?t'"
    then show ?thesis using q clock low unfolding no_misroute_def row_retired_def by auto
  next
    assume c: "row_claimed t j ?t'"
    show ?thesis
    proof (cases "sl_name (slot_at t j) = []")
      case True
      then have "limit \<le> unat (sl_reusable_at (slot_at t j))" "sl_used_once (slot_at t j)"
        using safe ne unfolding no_misroute_def by auto
      then show ?thesis
        using c True clock unfolding row_claimed_def by (simp add: word_le_nat_alt)
    next
      case False
      then have "unat (ft_allocations ?t') + ft_quarantine t \<le> unat (ft_allocations ?t')"
        using c q unfolding row_claimed_def by (simp add: word_le_nat_alt)
      then show ?thesis using clock low by simp
    qed
  qed
qed

lemma no_misroute_run:
  assumes "table_wf t" "j < FAKEIP_CAPACITY" "n \<noteq> []" "no_misroute t j n limit"
    and "limit \<le> unat (ft_allocations t) + ft_quarantine t"
    and "unat (ft_allocations t) + sum_list (map fake_cost ops) < limit"
    and "limit + ft_quarantine t < 2 ^ 64"
  shows "no_misroute (fake_run ops t) j n limit"
  using assms
proof (induction ops arbitrary: t)
  case (Cons x ops)
  have clock: "unat (ft_allocations t) \<le> unat (ft_allocations (fake_step x t)) \<and>
      unat (ft_allocations (fake_step x t)) \<le> unat (ft_allocations t) + fake_cost x"
    using Cons.prems by (intro step_clock) auto
  have safe: "no_misroute (fake_step x t) j n limit"
    using Cons.prems by (intro no_misroute_step) auto
  have "no_misroute (fake_run ops (fake_step x t)) j n limit"
    by (rule Cons.IH) (use Cons.prems clock safe wf_step in auto)
  then show ?case by simp
qed simp

lemma lookup_Some_iff: "lookup t a = Some n \<longleftrightarrow>
    (\<exists>i. fake_ip_slot_of a = Some i \<and> sl_name (slot_at t i) = n \<and> n \<noteq> [])"
  by (auto simp: lookup_def split: option.splits)

lemma lookup_at: "i < FAKEIP_CAPACITY \<Longrightarrow>
    lookup t (fake_ip_at i) = (if sl_name (slot_at t i) = [] then None else Some (sl_name (slot_at t i)))"
  by (simp add: lookup_def)

lemma alloc_issued:
  assumes wf: "table_wf t" and r: "alloc name t = (Some a, t')"
  obtains i where "fake_ip_slot_of a = Some i" "i < FAKEIP_CAPACITY" "a = fake_ip_at i"
    "sl_name (slot_at t' i) = name" "name \<noteq> []" "\<not> ft_excluded t' ! i"
proof -
  have ne: "name \<noteq> []" using r by (auto simp: alloc_def)
  from wf ne show thesis
  proof (cases rule: alloc_cases)
    case (held i)
    then have "\<not> ft_excluded t ! i" using wf_excluded_free [OF wf] ne by auto
    then show thesis using that [of i] held r ne wf by auto
  next
    case (claimed u i)
    then have "\<not> ft_excluded u ! i" using find_free_Some claimable_not_excluded by blast
    then show thesis using that [of i] claimed r ne by (auto simp: slot_at_claim)
  next
    case refused
    with r show thesis by simp
  qed
qed

lemma find_name_unique:
  assumes wf: "table_wf t" and i: "i < FAKEIP_CAPACITY" "sl_name (slot_at t i) = name" and ne: "name \<noteq> []"
  shows "find_name t name = Some i"
proof (cases "find_name t name")
  case None
  with find_name_None [OF wf] i show ?thesis by blast
next
  case (Some k)
  then have k: "k < FAKEIP_CAPACITY" "sl_name (slot_at t k) = name"
    using find_name_Some [OF wf] by blast+
  have "k = i" by (rule wf_distinct [OF wf k(1) i(1)]) (use i k ne in simp_all)
  with Some show ?thesis by simp
qed

lemma run_excluded:
  "table_wf t \<Longrightarrow> j < FAKEIP_CAPACITY \<Longrightarrow> ft_excluded t ! j \<Longrightarrow> ft_excluded (fake_run ops t) ! j"
  by (induction ops arbitrary: t) (simp_all add: wf_step step_excluded)

lemma exclude_marks:
  assumes "table_wf t" "fake_ip_slot_of a = Some i"
  shows "ft_excluded (exclude a t) ! i"
  using assms at_slot_of(2) [OF assms(2)] by (auto simp: exclude_def Let_def)

section \<open>Pinned rows\<close>

lemma wf_free_unpinned: "table_wf t \<Longrightarrow> i < FAKEIP_CAPACITY \<Longrightarrow> sl_name (slot_at t i) = [] \<Longrightarrow>
    sl_inflight (slot_at t i) = 0"
  unfolding table_wf_def by simp

lemma alloc_pinned_row:
  assumes wf: "table_wf t" and j: "j < FAKEIP_CAPACITY" and pinned: "sl_inflight (slot_at t j) \<noteq> 0"
  shows "sl_name (slot_at (snd (alloc name t)) j) = sl_name (slot_at t j) \<and>
    sl_inflight (slot_at (snd (alloc name t)) j) = sl_inflight (slot_at t j)"
proof (cases "name = []")
  case True
  then show ?thesis by (simp add: alloc_def)
next
  case False
  have live: "sl_name (slot_at t j) \<noteq> []" using wf_free_unpinned [OF wf j] pinned by auto
  have ev: "slot_at (evicted (ticked t)) j = slot_at t j"
    using slot_at_evicted [of "ticked t" j] wf j pinned by simp
  from wf False show ?thesis
  proof (cases rule: alloc_cases)
    case (held i)
    with wf j show ?thesis by (simp add: nth_update)
  next
    case (claimed u i)
    have "slot_at u j = slot_at t j" using claimed(2) ev by auto
    moreover have "i \<noteq> j" using find_free_Some [OF claimed(3,4)] calculation live by auto
    ultimately show ?thesis using claimed(3,6) j by (simp add: slot_at_claim)
  next
    case refused
    with ev show ?thesis by simp
  qed
qed

fun unpins_of :: "octets \<Rightarrow> fake_op list \<Rightarrow> nat" where
  "unpins_of a [] = 0"
| "unpins_of a (Unpin b # ops) = (if a = b then Suc (unpins_of a ops) else unpins_of a ops)"
| "unpins_of a (_ # ops) = unpins_of a ops"

lemma pinned_step:
  assumes wf: "table_wf t" and a: "fake_ip_slot_of a = Some j"
    and name: "sl_name (slot_at t j) = n" "n \<noteq> []"
    and pinned: "unpins_of a (x # ops) < sl_inflight (slot_at t j)"
    and x: "x \<noteq> Exclude a"
  shows "sl_name (slot_at (fake_step x t) j) = n \<and>
    unpins_of a ops < sl_inflight (slot_at (fake_step x t) j)"
proof -
  have j: "j < FAKEIP_CAPACITY" using a by (rule at_slot_of)
  have other: "i = j \<longleftrightarrow> b = a" if b: "fake_ip_slot_of b = Some i" for b i
    using slot_of_inj [OF b, of a] a b by auto
  show ?thesis
  proof (cases x)
    case (Alloc m)
    with alloc_pinned_row [OF wf j, of m] pinned name show ?thesis by simp
  next
    case (Exclude b)
    with x have "fake_ip_slot_of b \<noteq> Some j" using other by blast
    then show ?thesis using Exclude wf j name pinned
      by (auto simp: exclude_def Let_def slot_at_retire split: option.split)
  next
    case (Pin b)
    with wf j name pinned show ?thesis
      by (auto simp: pin_def nth_update split: option.split)
  next
    case (Unpin b)
    show ?thesis
    proof (cases "a = b")
      case True
      then have "owned_slot t b = Some j" using a name by (simp add: owned_slot_Some)
      with Unpin True wf j name pinned show ?thesis by (auto simp: unpin_def nth_update)
    next
      case False
      then have "owned_slot t b \<noteq> Some j" using other [of b j] by (auto simp: owned_slot_Some)
      with Unpin False wf j name pinned show ?thesis
        by (auto simp: unpin_def nth_update split: option.split)
    qed
  next
    case (Touched b)
    with wf j name pinned show ?thesis
      by (auto simp: note_touched_def Let_def nth_update split: option.split)
  next
    case (Progress k)
    with name pinned show ?thesis by (simp add: note_progress_def Let_def)
  qed
qed

lemma pinned_run:
  assumes "table_wf t" "fake_ip_slot_of a = Some j" "sl_name (slot_at t j) = n" "n \<noteq> []"
    and "unpins_of a ops < sl_inflight (slot_at t j)" "Exclude a \<notin> set ops"
  shows "sl_name (slot_at (fake_run ops t) j) = n"
  using assms
proof (induction ops arbitrary: t)
  case (Cons x ops)
  have "sl_name (slot_at (fake_step x t) j) = n \<and>
    unpins_of a ops < sl_inflight (slot_at (fake_step x t) j)"
    using Cons.prems by (intro pinned_step) auto
  with Cons.IH [of "fake_step x t"] Cons.prems show ?case by (simp add: wf_step)
qed simp

section \<open>When an allocation is refused\<close>

lemma evicted_find_free:
  assumes wf: "table_wf t" and q: "0 < ft_quarantine t"
    and fits: "unat (ft_allocations t) + ft_quarantine t < 2 ^ 64"
    and none: "find_free t = None"
  shows "find_free (evicted t) = None"
  unfolding find_free_None [OF wf_evicted [OF wf]]
proof (intro allI impI notI)
  fix i assume i: "i < FAKEIP_CAPACITY" and free: "sl_name (slot_at (evicted t) i) = []"
    and c: "claimable (evicted t) i"
  have "unat (ft_allocations t + of_nat (ft_quarantine t)) = unat (ft_allocations t) + ft_quarantine t"
    using fits by (subst unat_word_ariths) (simp add: unat_of_nat)
  then have "\<not> ft_allocations t + of_nat (ft_quarantine t) \<le> ft_allocations t"
    using q by (simp add: word_le_nat_alt)
  moreover have "\<not> claimable t i" if "sl_name (slot_at t i) = []"
    using none that i find_free_None [OF wf] by blast
  ultimately show False
    using slot_at_evicted [OF wf i] free c by (auto simp: claimable_def split: if_splits)
qed

lemma alloc_refused:
  assumes wf: "table_wf t" and ne: "name \<noteq> []"
  shows "fst (alloc name t) = None \<longleftrightarrow>
    find_name t name = None \<and> find_free (ticked t) = None \<and> find_free (evicted (ticked t)) = None"
proof (cases "find_name t name")
  case None
  then show ?thesis using alloc_new [OF ne None] by (auto split: option.split)
next
  case (Some i)
  then show ?thesis using alloc_held [OF ne Some] by simp
qed

abbreviation retry :: "string \<Rightarrow> fake_ip_table \<Rightarrow> fake_ip_table" where
  "retry name t \<equiv> snd (alloc name t)"

lemma retry_waits:
  assumes "table_wf t" "name \<noteq> []" "i < FAKEIP_CAPACITY" "sl_name (slot_at t i) = []"
    and "\<not> ft_excluded t ! i"
    and "unat (sl_reusable_at (slot_at t i)) \<le> unat (ft_allocations t) + 1 + m"
    and "unat (ft_allocations t) + 1 + m < 2 ^ 64"
  shows "\<exists>k\<le>m. fst (alloc name ((retry name ^^ k) t)) \<noteq> None"
  using assms
proof (induction m arbitrary: t)
  case 0
  have "unat (ft_allocations t + 1) = unat (ft_allocations t) + 1"
    using 0 by (subst unat_word_ariths) simp
  then have "claimable (ticked t) i" using 0 by (simp add: claimable_def word_le_nat_alt)
  then have "find_free (ticked t) \<noteq> None" using 0 find_free_None [of "ticked t"] by auto
  then have "fst (alloc name t) \<noteq> None" using alloc_refused [OF 0(1,2)] by simp
  then show ?case by (intro exI [of _ 0]) simp
next
  case (Suc m)
  show ?case
  proof (cases "fst (alloc name t) = None")
    case False
    then show ?thesis by (intro exI [of _ 0]) simp
  next
    case True
    then have r: "snd (alloc name t) = evicted (ticked t)"
      using alloc_refused [OF Suc.prems(1,2)] alloc_new [OF Suc.prems(2)] by simp
    have row: "slot_at (evicted (ticked t)) i = slot_at t i"
      using slot_at_evicted [of "ticked t" i] Suc.prems by simp
    have clock: "unat (ft_allocations t + 1) = unat (ft_allocations t) + 1"
      using Suc.prems by (subst unat_word_ariths) simp
    have "\<exists>k\<le>m. fst (alloc name ((retry name ^^ k) (evicted (ticked t)))) \<noteq> None"
      by (rule Suc.IH) (use Suc.prems row clock wf_evicted [of "ticked t"] in simp_all)
    then obtain k where "k \<le> m" "fst (alloc name ((retry name ^^ k) (evicted (ticked t)))) \<noteq> None"
      by blast
    then show ?thesis
      by (intro exI [of _ "Suc k"]) (simp add: funpow_Suc_right r del: funpow.simps)
  qed
qed

section \<open>The table's contract with its clients\<close>

text \<open>
  What the detours rely on, as an interface: a table that answers \<open>tlookup\<close>, hands out
  addresses with \<open>talloc\<close>, and never gives a marked address to anyone.
\<close>

locale name_table =
  fixes ok :: "'t \<Rightarrow> bool"
    and tlookup :: "'t \<Rightarrow> octets \<Rightarrow> string option"
    and talloc :: "string \<Rightarrow> 't \<Rightarrow> octets option \<times> 't"
    and tmark :: "octets \<Rightarrow> 't \<Rightarrow> 't"
    and marked :: "'t \<Rightarrow> octets \<Rightarrow> bool"
  assumes ok_alloc: "ok t \<Longrightarrow> ok (snd (talloc n t))"
    and ok_mark: "ok t \<Longrightarrow> ok (tmark a t)"
    and alloc_lookup: "ok t \<Longrightarrow> fst (talloc n t) = Some a \<Longrightarrow> tlookup (snd (talloc n t)) a = Some n"
    and lookup_range: "ok t \<Longrightarrow> tlookup t a = Some n \<Longrightarrow> in_fake_range a \<and> n \<noteq> [] \<and> \<not> marked t a"
    and lookup_inj: "ok t \<Longrightarrow> tlookup t a = Some n \<Longrightarrow> tlookup t b = Some n \<Longrightarrow> a = b"
    and alloc_again: "ok t \<Longrightarrow> tlookup t a = Some n \<Longrightarrow> fst (talloc n t) = Some a"
    and marked_alloc: "ok t \<Longrightarrow> marked (snd (talloc n t)) a = marked t a"
    and mark_marks: "ok t \<Longrightarrow> tlookup (tmark a t) a = None"
begin

lemma alloc_range: "ok t \<Longrightarrow> fst (talloc n t) = Some a \<Longrightarrow> in_fake_range a"
  using alloc_lookup lookup_range ok_alloc by blast

lemma alloc_unmarked: "ok t \<Longrightarrow> fst (talloc n t) = Some a \<Longrightarrow> \<not> marked t a"
  using alloc_lookup lookup_range ok_alloc marked_alloc by blast

lemma alloc_stable:
  "ok t \<Longrightarrow> fst (talloc n t) = Some a \<Longrightarrow> fst (talloc n (snd (talloc n t))) = Some a"
  using alloc_again alloc_lookup ok_alloc by blast

lemma alloc_not_shared:
  "ok t \<Longrightarrow> fst (talloc n t) = Some a \<Longrightarrow> tlookup (snd (talloc n t)) a = Some m \<Longrightarrow> m = n"
  using alloc_lookup by fastforce

end

lemma lookup_alloc_self:
  assumes wf: "table_wf t" and r: "fst (alloc name t) = Some a"
  shows "lookup (snd (alloc name t)) a = Some name"
proof -
  have "alloc name t = (Some a, snd (alloc name t))" using r by (simp add: prod_eq_iff)
  from alloc_issued [OF wf this] show ?thesis by (metis lookup_at)
qed

lemma lookup_row:
  assumes "lookup t a = Some n"
  obtains i where "fake_ip_slot_of a = Some i" "i < FAKEIP_CAPACITY" "a = fake_ip_at i"
    "sl_name (slot_at t i) = n" "n \<noteq> []"
  using assms at_slot_of unfolding lookup_Some_iff by metis

lemma lookup_not_excluded: "table_wf t \<Longrightarrow> lookup t a = Some n \<Longrightarrow> \<not> excluded t a"
  using wf_excluded_free by (auto elim!: lookup_row simp: excluded_def)

lemma alloc_of_held:
  assumes wf: "table_wf t" and l: "lookup t a = Some n"
  shows "fst (alloc n t) = Some a"
  using l
proof (rule lookup_row)
  fix i assume i: "i < FAKEIP_CAPACITY" "a = fake_ip_at i" "sl_name (slot_at t i) = n" "n \<noteq> []"
  from find_name_unique [OF wf i(1,3,4)] i show ?thesis by (simp add: alloc_held)
qed

lemma lookup_injective:
  assumes wf: "table_wf t" and a: "lookup t a = Some n" and b: "lookup t b = Some n"
  shows "a = b"
  using alloc_of_held [OF wf a] alloc_of_held [OF wf b] by simp

lemma lookup_facts:
  assumes "table_wf t" "lookup t a = Some n"
  shows "in_fake_range a \<and> n \<noteq> [] \<and> \<not> excluded t a"
  using lookup_not_excluded [OF assms] lookup_row [OF assms(2)] at_slot_of(3) by metis

interpretation fakes: name_table table_wf lookup alloc exclude excluded
proof
  fix t n a
  assume wf: "table_wf t"
  then show "excluded (snd (alloc n t)) a = excluded t a"
    by (simp add: excluded_def alloc_clock split: option.split)
  show "lookup (exclude a t) a = None"
  proof (cases "lookup (exclude a t) a")
    case (Some m)
    then obtain i where "fake_ip_slot_of a = Some i" "i < FAKEIP_CAPACITY" by (rule lookup_row)
    then show ?thesis
      using lookup_not_excluded [OF wf_exclude [OF wf] Some] exclude_marks [OF wf]
      by (simp add: excluded_def)
  qed
qed (erule wf_alloc wf_exclude | erule (1) lookup_alloc_self lookup_facts alloc_of_held
    | erule (2) lookup_injective)+

section \<open>Properties\<close>

text \<open>C28: Whatever sequence of operations runs, the table stays well formed: no two rows hold
  one name, an excluded row holds none, a free row carries no pins, and the exclusion counter
  is the number of marks.\<close>

theorem fake_table_invariant: "table_wf (fake_run ops (fake_ip_table_new addr q))"
  unfolding fake_run_def by (rule fake_steps.always_inv)

text \<open>An address that \<open>alloc\<close> hands out is inside the range, is not excluded, answers
  \<open>lookup\<close> with the name it was allocated for, and the same name gets the same address
  again.\<close>

theorem alloc_answers_lookup:
  assumes "table_wf t" and "alloc name t = (Some a, t')"
  shows "lookup t' a = Some name \<and> in_fake_range a \<and> \<not> excluded t' a \<and> fst (alloc name t') = Some a"
proof -
  have f: "fst (alloc name t) = Some a" and s: "t' = snd (alloc name t)" using assms(2) by simp_all
  show ?thesis
    unfolding s using fakes.alloc_lookup [OF assms(1) f] fakes.alloc_range [OF assms(1) f]
      fakes.alloc_stable [OF assms(1) f] fakes.alloc_unmarked [OF assms(1) f]
      fakes.marked_alloc [OF assms(1)] by blast
qed

text \<open>The witnesses' table: quarantine 2, nothing excluded, one name held.\<close>

definition fake_table_1 :: fake_ip_table where
  "fake_table_1 = snd (alloc ''a.example'' (fake_ip_table_new (0, 0, 0, 0) 2))"

lemma new_unexcluded: "fake_ip_table_new (0, 0, 0, 0) q =
    \<lparr>ft_slots = replicate FAKEIP_CAPACITY fake_ip_slot_init, ft_quarantine = q,
     ft_excluded = replicate FAKEIP_CAPACITY False, ft_exclusions = 0, ft_touch = 0, ft_allocations = 0\<rparr>"
  by (simp add: fake_ip_table_new_def exclude_def fake_ip_slot_of_def in_fake_range_def FAKEIP_RANGE_def)

lemma alloc_fresh:
  assumes "name \<noteq> []"
  shows "alloc name (fake_ip_table_new (0, 0, 0, 0) q) =
    (Some (fake_ip_at 0), claim 0 name (ticked (fake_ip_table_new (0, 0, 0, 0) q)))"
proof -
  have "find_name (fake_ip_table_new (0, 0, 0, 0) q) name = None"
    using assms by (simp add: find_name_None [OF wf_new]) (simp add: new_unexcluded fake_ip_slot_init_def)
  moreover have "find_free (ticked (fake_ip_table_new (0, 0, 0, 0) q)) = Some 0"
    unfolding find_free_def
    by (rule scan_0_Some) (simp_all add: new_unexcluded fake_ip_slot_init_def claimable_def FAKEIP_CAPACITY_val)
  ultimately show ?thesis using assms by (simp add: alloc_new)
qed

lemma fake_table_1_facts:
  "table_wf fake_table_1" "ft_quarantine fake_table_1 = 2" "ft_allocations fake_table_1 = 1"
  "sl_name (slot_at fake_table_1 0) = ''a.example''" "sl_inflight (slot_at fake_table_1 0) = 0"
  "fake_ip_slot_of (198, 51, 100, 1) = Some 0"
  "lookup fake_table_1 (198, 51, 100, 1) = Some ''a.example''"
proof -
  show "table_wf fake_table_1" unfolding fake_table_1_def by (intro wf_alloc wf_new)
  show s: "fake_ip_slot_of (198, 51, 100, 1) = Some 0" by code_simp
  show "ft_quarantine fake_table_1 = 2" "ft_allocations fake_table_1 = 1"
    and n: "sl_name (slot_at fake_table_1 0) = ''a.example''" and "sl_inflight (slot_at fake_table_1 0) = 0"
    by (simp_all add: fake_table_1_def alloc_fresh slot_at_claim) (simp_all add: new_unexcluded slot_at_claim FAKEIP_CAPACITY_val)
  show "lookup fake_table_1 (198, 51, 100, 1) = Some ''a.example''" by (simp add: lookup_def s n)
qed

lemma alloc_answers_lookup_witness:
  "lookup fake_table_1 (fake_ip_at 0) = Some ''a.example'' \<and>
   fst (alloc ''a.example'' fake_table_1) = Some (fake_ip_at 0)"
  using alloc_answers_lookup [OF wf_new, of "''a.example''" "(0, 0, 0, 0)" 2 "fake_ip_at 0" fake_table_1]
  by (simp add: fake_table_1_def alloc_fresh)

lemma run_misroutes_nothing:
  assumes wf: "table_wf t" and l: "lookup t a = Some n"
    and few: "sum_list (map fake_cost ops) < ft_quarantine t"
    and fits: "unat (ft_allocations t) + 2 * ft_quarantine t < 2 ^ 64"
  shows "lookup (fake_run ops t) a \<in> {None, Some n}"
  using l
proof (rule lookup_row)
  fix i assume i: "fake_ip_slot_of a = Some i" "i < FAKEIP_CAPACITY" "sl_name (slot_at t i) = n" "n \<noteq> []"
  have "no_misroute (fake_run ops t) i n (unat (ft_allocations t) + ft_quarantine t)"
    by (rule no_misroute_run) (use i wf few fits in \<open>simp_all add: no_misroute_def\<close>)
  with i show ?thesis by (auto simp: lookup_def no_misroute_def)
qed

text \<open>C25: Quarantine: while the operations advance the allocation clock by less than the
  quarantine, an address that was resolved for a name never answers with another name; it
  keeps the name or becomes unknown.\<close>

theorem quarantine_no_misroute:
  assumes wf: "table_wf t" and l: "lookup t a = Some n"
    and few: "sum_list (map fake_cost ops) < ft_quarantine t"
    and fits: "unat (ft_allocations t) + 2 * ft_quarantine t < 2 ^ 64"
  shows "lookup (fake_run ops t) a \<in> {None, Some n}"
  using run_misroutes_nothing [OF assms] .

lemma quarantine_no_misroute_witness:
  "lookup (fake_run [Alloc ''c.example'', Exclude (198, 51, 100, 1)] fake_table_1) (198, 51, 100, 1)
     \<in> {None, Some ''a.example''}"
  by (rule quarantine_no_misroute) (simp_all add: fake_table_1_facts)

text \<open>An excluded address is lost for good: no run of operations makes it resolve again,
  and no later allocation returns it.\<close>

theorem excluded_never_issued:
  assumes wf: "table_wf t"
  shows "lookup (fake_run ops (exclude a t)) a = None \<and>
    fst (alloc name (fake_run ops (exclude a t))) \<noteq> Some a"
proof (cases "fake_ip_slot_of a")
  case None
  let ?r = "fake_run ops (exclude a t)"
  have wfr: "table_wf ?r" using wf by (intro wf_run wf_exclude)
  have "lookup u a = None" for u using None by (simp add: lookup_def)
  then show ?thesis using lookup_alloc_self [OF wfr, of name a] by auto
next
  case (Some i)
  let ?r = "fake_run ops (exclude a t)"
  have wfr: "table_wf ?r" using wf by (intro wf_run wf_exclude)
  have "ft_excluded ?r ! i"
    using Some exclude_marks [OF wf Some] run_excluded [OF wf_exclude [OF wf]] at_slot_of(2) by blast
  then have ex: "excluded ?r a" using Some by (simp add: excluded_def)
  then have "lookup ?r a = None" using lookup_not_excluded [OF wfr, of a] by (cases "lookup ?r a") auto
  with ex show ?thesis using fakes.alloc_unmarked [OF wfr, of name a] by auto
qed

lemma excluded_never_issued_witness:
  "lookup (fake_run [Alloc ''c.example''] (exclude (198, 51, 100, 1) fake_table_1)) (198, 51, 100, 1) = None"
  using excluded_never_issued [OF fake_table_1_facts(1)] by blast

text \<open>A pinned row is never evicted: as long as fewer unpins run than the address has pins,
  and nobody excludes it, every run leaves the address with its name, however many
  allocations are in it.\<close>

theorem pinned_survives:
  assumes wf: "table_wf t" and l: "lookup t a = Some n" and p: "unpins_of a ops < pins t a"
    and x: "Exclude a \<notin> set ops"
  shows "lookup (fake_run ops t) a = Some n"
  using l
proof (rule lookup_row)
  fix i assume i: "fake_ip_slot_of a = Some i" "sl_name (slot_at t i) = n" "n \<noteq> []"
  then have "pins t a = sl_inflight (slot_at t i)" by (simp add: pins_def owned_slot_def)
  with pinned_run [OF wf i, of ops] p x i show ?thesis by (simp add: lookup_def)
qed

lemma pinned_survives_witness:
  "lookup (fake_run [Alloc ''c.example''] (snd (pin (198, 51, 100, 1) fake_table_1))) (198, 51, 100, 1)
     = Some ''a.example''"
proof (rule pinned_survives)
  show "table_wf (snd (pin (198, 51, 100, 1) fake_table_1))" by (intro wf_pin fake_table_1_facts)
  have "0 < length (ft_slots fake_table_1)" using fake_table_1_facts(1) by (simp add: FAKEIP_CAPACITY_val)
  then show "lookup (snd (pin (198, 51, 100, 1) fake_table_1)) (198, 51, 100, 1) = Some ''a.example''"
    "unpins_of (198, 51, 100, 1) [Alloc ''c.example'']
      < pins (snd (pin (198, 51, 100, 1) fake_table_1)) (198, 51, 100, 1)"
    by (simp_all add: pin_def pins_def owned_slot_def lookup_def fake_table_1_facts)
qed simp

text \<open>With a non-zero quarantine and a clock far from wrapping, \<open>alloc\<close> refuses a name
  exactly when no row holds it and no free row is claimable at the new clock: the row it
  evicts is of no use to the call that evicts it.\<close>

theorem alloc_refusal:
  assumes wf: "table_wf t" and ne: "name \<noteq> []" and q: "0 < ft_quarantine t"
    and fits: "unat (ft_allocations t) + 1 + ft_quarantine t < 2 ^ 64"
  shows "fst (alloc name t) = None \<longleftrightarrow>
    (\<forall>i<FAKEIP_CAPACITY. sl_name (slot_at t i) \<noteq> name \<and>
       (sl_name (slot_at t i) = [] \<longrightarrow> ft_excluded t ! i \<or>
          sl_used_once (slot_at t i) \<and> ft_allocations t + 1 < sl_reusable_at (slot_at t i)))"
proof -
  have "unat (ft_allocations t + 1) = unat (ft_allocations t) + 1"
    using fits by (subst unat_word_ariths) simp
  then have "find_free (ticked t) = None \<Longrightarrow> find_free (evicted (ticked t)) = None"
    using evicted_find_free [of "ticked t"] wf q fits by simp
  then have "fst (alloc name t) = None \<longleftrightarrow> find_name t name = None \<and> find_free (ticked t) = None"
    using alloc_refused [OF wf ne] by argo
  moreover have "\<not> claimable (ticked t) i \<longleftrightarrow>
      ft_excluded t ! i \<or> sl_used_once (slot_at t i) \<and> ft_allocations t + 1 < sl_reusable_at (slot_at t i)" for i
    by (simp add: claimable_def Let_def not_le)
  ultimately show ?thesis
    using find_name_None [OF wf] find_free_None [of "ticked t"] wf unfolding ticked_simps by blast
qed

text \<open>Retrying a refused name works: if some live row is unpinned, one of the first
  quarantine + 1 attempts for any name succeeds.\<close>

theorem retry_succeeds:
  assumes wf: "table_wf t" and ne: "name \<noteq> []"
    and i: "i < FAKEIP_CAPACITY" "sl_name (slot_at t i) \<noteq> []" "sl_inflight (slot_at t i) = 0"
    and fits: "unat (ft_allocations t) + 1 + ft_quarantine t < 2 ^ 64"
  shows "\<exists>k\<le>ft_quarantine t. fst (alloc name ((retry name ^^ k) t)) \<noteq> None"
proof -
  have clock: "unat (ft_allocations t + 1) = unat (ft_allocations t) + 1"
    using fits by (subst unat_word_ariths) simp
  show ?thesis
  proof (cases "fst (alloc name t) = None \<and> 0 < ft_quarantine t")
    case True
    then have r: "snd (alloc name t) = evicted (ticked t)"
      using alloc_refused [OF wf ne] alloc_new [OF ne] by simp
    have lruv: "find_lru (ticked t) \<noteq> None" using find_lru_None [of "ticked t"] wf i by auto
    then obtain v where v: "find_lru (ticked t) = Some v" by blast
    have vv: "v < FAKEIP_CAPACITY" "sl_name (slot_at t v) \<noteq> []"
      using find_lru_Some [OF _ v] wf by simp_all
    have row: "slot_at (evicted (ticked t)) v = (slot_at t v)\<lparr>sl_name := [], sl_inflight := 0,
        sl_used_once := True, sl_reusable_at := ft_allocations t + 1 + of_nat (ft_quarantine t)\<rparr>"
      using v vv wf by (simp add: evicted_def slot_at_retire)
    have ex: "\<not> ft_excluded t ! v" using wf_excluded_free [OF wf vv(1)] vv(2) by blast
    have "unat (ft_allocations t + 1 + of_nat (ft_quarantine t)) = unat (ft_allocations t) + 1 + ft_quarantine t"
      using clock fits by (subst unat_word_ariths) (simp add: unat_of_nat)
    then have "\<exists>k\<le>ft_quarantine t - 1. fst (alloc name ((retry name ^^ k) (evicted (ticked t)))) \<noteq> None"
      using wf ne vv row ex clock fits True
      by (intro retry_waits [where i = v]) (simp_all add: wf_evicted)
    then obtain k where k: "k \<le> ft_quarantine t - 1"
      "fst (alloc name ((retry name ^^ k) (evicted (ticked t)))) \<noteq> None" by blast
    have "Suc k \<le> ft_quarantine t" using True k(1) by linarith
    moreover have "fst (alloc name ((retry name ^^ Suc k) t)) \<noteq> None"
      using k(2) by (simp add: funpow_Suc_right r del: funpow.simps)
    ultimately show ?thesis by blast
  next
    case False
    show ?thesis
    proof (cases "fst (alloc name t) = None")
      case True
      with False have q0: "ft_quarantine t = 0" by simp
      have "find_free (evicted (ticked t)) \<noteq> None"
      proof -
        obtain v where v: "find_lru (ticked t) = Some v"
          using find_lru_None [of "ticked t"] wf i by fastforce
        have vv: "v < FAKEIP_CAPACITY" "sl_name (slot_at t v) \<noteq> []"
          using find_lru_Some [OF _ v] wf by simp_all
        have "\<not> ft_excluded t ! v" using wf_excluded_free [OF wf vv(1)] vv(2) by blast
        then have "claimable (evicted (ticked t)) v" "sl_name (slot_at (evicted (ticked t)) v) = []"
          using v vv wf q0 by (simp_all add: evicted_def slot_at_retire claimable_def)
        then show ?thesis using find_free_None [of "evicted (ticked t)"] wf wf_evicted vv(1) by auto
      qed
      with True alloc_refused [OF wf ne] show ?thesis by simp
    qed (intro exI [of _ 0], simp)
  qed
qed

lemma alloc_refusal_witness:
  "fst (alloc ''b.example'' fake_table_1) = None \<longleftrightarrow>
    (\<forall>i<FAKEIP_CAPACITY. sl_name (slot_at fake_table_1 i) \<noteq> ''b.example'' \<and>
       (sl_name (slot_at fake_table_1 i) = [] \<longrightarrow> ft_excluded fake_table_1 ! i \<or>
          sl_used_once (slot_at fake_table_1 i) \<and>
          ft_allocations fake_table_1 + 1 < sl_reusable_at (slot_at fake_table_1 i)))"
  by (rule alloc_refusal) (simp_all add: fake_table_1_facts)

lemma retry_succeeds_witness:
  "\<exists>k\<le>2. fst (alloc ''b.example'' ((retry ''b.example'' ^^ k) fake_table_1)) \<noteq> None"
  using retry_succeeds [OF fake_table_1_facts(1), of "''b.example''" 0]
  by (simp add: fake_table_1_facts FAKEIP_CAPACITY_val)

section \<open>Reading the settings\<close>

definition quarantine_of :: "fake_ip_table \<Rightarrow> nat" where
  "quarantine_of t = ft_quarantine t"

definition exclusions_of :: "fake_ip_table \<Rightarrow> nat" where
  "exclusions_of t = ft_exclusions t"

end
