(* ===== verification/Fakeip_Directory.thy ===== *)
theory Fakeip_Directory
  imports Fakeip_Table
begin

text \<open>
  What src/injectee/fakeip.hpp promises its callers, without rows, clocks and quarantine: a
  directory from addresses to names in which a name has one address, a barred address has none,
  and a name goes only when its address is not pinned. \<open>fake_ip_table\<close> refines it.
\<close>

section \<open>The directory\<close>

record 'addr directory =
  dr_names :: "'addr \<Rightarrow> string option"
  dr_barred :: "'addr set"
  dr_pins :: "'addr \<Rightarrow> nat"

text \<open>At most one name is dropped to make room, and no pinned one.\<close>

definition makes_room :: "'addr directory \<Rightarrow> 'addr directory \<Rightarrow> bool" where
  "makes_room d d1 \<longleftrightarrow> d1 = d \<or>
     (\<exists>v. dr_names d v \<noteq> None \<and> dr_pins d v = 0 \<and> d1 = d\<lparr>dr_names := (dr_names d)(v := None)\<rparr>)"

inductive dir_step :: "fake_op \<Rightarrow> octets directory \<Rightarrow> octets directory \<Rightarrow> bool" where
  known: "dr_names d a = Some n \<Longrightarrow> dir_step (Alloc n) d d"
| issued: "n \<noteq> [] \<Longrightarrow> n \<notin> ran (dr_names d) \<Longrightarrow> makes_room d d1 \<Longrightarrow> in_fake_range a \<Longrightarrow> a \<notin> dr_barred d \<Longrightarrow>
    dr_names d1 a = None \<Longrightarrow> dir_step (Alloc n) d (d1\<lparr>dr_names := (dr_names d1)(a \<mapsto> n)\<rparr>)"
| refused: "n \<notin> ran (dr_names d) \<Longrightarrow> makes_room d d1 \<Longrightarrow> dir_step (Alloc n) d d1"
| barred: "dir_step (Exclude a) d
    (d\<lparr>dr_names := (dr_names d)(a := None), dr_barred := insert a (dr_barred d), dr_pins := (dr_pins d)(a := 0)\<rparr>)"
| no_slot: "dr_names d a = None \<Longrightarrow> dir_step (Exclude a) d d"
| pinned: "dr_names d a \<noteq> None \<Longrightarrow> dir_step (Pin a) d (d\<lparr>dr_pins := (dr_pins d)(a := dr_pins d a + 1)\<rparr>)"
| no_pin: "dr_names d a = None \<Longrightarrow> dir_step (Pin a) d d"
| unpinned: "dir_step (Unpin a) d (d\<lparr>dr_pins := (dr_pins d)(a := dr_pins d a - 1)\<rparr>)"
| touched: "dir_step (Touched a) d d"
| progress: "dir_step (Progress k) d d"

text \<open>What every directory keeps.\<close>

definition dir_ok :: "'addr directory \<Rightarrow> bool" where
  "dir_ok d \<longleftrightarrow> (\<forall>a b n. dr_names d a = Some n \<longrightarrow> dr_names d b = Some n \<longrightarrow> a = b) \<and>
     (\<forall>a n. dr_names d a = Some n \<longrightarrow> a \<notin> dr_barred d \<and> n \<noteq> []) \<and>
     (\<forall>a. dr_names d a = None \<longrightarrow> dr_pins d a = 0)"

lemma dir_ok_drop: "dir_ok d \<Longrightarrow> dr_pins d v = 0 \<Longrightarrow> dir_ok (d\<lparr>dr_names := (dr_names d)(v := None)\<rparr>)"
  by (simp add: dir_ok_def)

lemma makes_room_ok: "makes_room d d1 \<Longrightarrow> dir_ok d \<Longrightarrow> dir_ok d1"
  by (auto simp: makes_room_def intro: dir_ok_drop)

lemma makes_room_ran: "makes_room d d1 \<Longrightarrow> ran (dr_names d1) \<subseteq> ran (dr_names d) \<and> dr_barred d1 = dr_barred d"
  by (auto simp: makes_room_def ran_def split: if_splits)

lemma dir_ok_add:
  assumes "dir_ok d" "n \<noteq> []" "n \<notin> ran (dr_names d)" "a \<notin> dr_barred d"
  shows "dir_ok (d\<lparr>dr_names := (dr_names d)(a \<mapsto> n)\<rparr>)"
proof -
  have "dr_names d b \<noteq> Some n" for b using assms(3) by (auto simp: ran_def)
  with assms show ?thesis by (simp add: dir_ok_def) metis
qed

lemma dir_ok_bar:
  "dir_ok d \<Longrightarrow> dir_ok (d\<lparr>dr_names := (dr_names d)(a := None), dr_barred := insert a (dr_barred d), dr_pins := (dr_pins d)(a := 0)\<rparr>)"
  by (simp add: dir_ok_def)

lemma dir_ok_pin: "dir_ok d \<Longrightarrow> (dr_names d a = None \<Longrightarrow> k = 0) \<Longrightarrow> dir_ok (d\<lparr>dr_pins := (dr_pins d)(a := k)\<rparr>)"
  by (simp add: dir_ok_def)

lemma dir_ok_unpinned: "dir_ok d \<Longrightarrow> dr_names d a = None \<Longrightarrow> dr_pins d a = 0"
  by (simp add: dir_ok_def)

lemma dir_step_ok: "dir_step c d d' \<Longrightarrow> dir_ok d \<Longrightarrow> dir_ok d'"
proof (induction rule: dir_step.induct)
  case (issued n d d1 a)
  from makes_room_ran [OF issued(3)] issued(2,5) have "n \<notin> ran (dr_names d1)" "a \<notin> dr_barred d1" by blast+
  with makes_room_ok [OF issued(3)] issued(1,7) show ?case by (intro dir_ok_add) blast+
next
  case (unpinned a d)
  then show ?case by (intro dir_ok_pin) (simp_all add: dir_ok_unpinned)
next
  case (pinned d a)
  then show ?case by (intro dir_ok_pin) simp_all
qed (use makes_room_ok in \<open>simp_all add: dir_ok_bar dir_ok_pin\<close>)

section \<open>Reading the table as a directory\<close>

definition directory_of :: "fake_ip_table \<Rightarrow> octets directory" where
  "directory_of t = \<lparr>dr_names = lookup t, dr_barred = {a. excluded t a}, dr_pins = pins t\<rparr>"

lemma row_elsewhere:
  assumes "i < FAKEIP_CAPACITY" and "a \<noteq> fake_ip_at i" and "fake_ip_slot_of a = Some k"
  shows "k \<noteq> i"
  using assms at_slot_of(1) by blast

lemma lookup_row_update:
  assumes "length (ft_slots t) = FAKEIP_CAPACITY" and "i < FAKEIP_CAPACITY"
  shows "lookup (t\<lparr>ft_slots := (ft_slots t)[i := r]\<rparr>) =
    (lookup t)(fake_ip_at i := if sl_name r = [] then None else Some (sl_name r))"
proof
  fix a
  show "lookup (t\<lparr>ft_slots := (ft_slots t)[i := r]\<rparr>) a =
    ((lookup t)(fake_ip_at i := if sl_name r = [] then None else Some (sl_name r))) a"
  proof (cases "a = fake_ip_at i")
    case False
    with row_elsewhere [OF assms(2) False] show ?thesis
      by (cases "fake_ip_slot_of a") (simp_all add: lookup_def)
  qed (use assms in \<open>simp add: lookup_def\<close>)
qed

lemma pins_row_update:
  assumes "length (ft_slots t) = FAKEIP_CAPACITY" and "i < FAKEIP_CAPACITY"
  shows "pins (t\<lparr>ft_slots := (ft_slots t)[i := r]\<rparr>) =
    (pins t)(fake_ip_at i := if sl_name r = [] then 0 else sl_inflight r)"
proof
  fix a
  show "pins (t\<lparr>ft_slots := (ft_slots t)[i := r]\<rparr>) a =
    ((pins t)(fake_ip_at i := if sl_name r = [] then 0 else sl_inflight r)) a"
  proof (cases "a = fake_ip_at i")
    case False
    with row_elsewhere [OF assms(2) False] show ?thesis
      by (cases "fake_ip_slot_of a") (simp_all add: pins_def owned_slot_def)
  qed (use assms in \<open>simp add: pins_def owned_slot_def\<close>)
qed

text \<open>The directory sees the rows and the marks, and nothing of the clocks.\<close>

lemma directory_of_cong:
  "ft_slots t' = ft_slots t \<Longrightarrow> ft_excluded t' = ft_excluded t \<Longrightarrow> directory_of t' = directory_of t"
  by (simp add: directory_of_def fun_eq_iff lookup_def pins_def owned_slot_def excluded_def cong: option.case_cong if_cong)

lemma directory_row_update:
  assumes "length (ft_slots t) = FAKEIP_CAPACITY" and "i < FAKEIP_CAPACITY"
  shows "directory_of (t\<lparr>ft_slots := (ft_slots t)[i := r]\<rparr>) = (directory_of t)\<lparr>
    dr_names := (lookup t)(fake_ip_at i := if sl_name r = [] then None else Some (sl_name r)),
    dr_pins := (pins t)(fake_ip_at i := if sl_name r = [] then 0 else sl_inflight r)\<rparr>"
  using assms by (simp add: directory_of_def lookup_row_update pins_row_update excluded_def cong: option.case_cong)

section \<open>The table implements the directory\<close>

lemma directory_retire:
  assumes "table_wf t" and "i < FAKEIP_CAPACITY"
  shows "directory_of (retire i t) = (directory_of t)\<lparr>
    dr_names := (lookup t)(fake_ip_at i := None), dr_pins := (pins t)(fake_ip_at i := 0)\<rparr>"
  using assms by (simp add: retire_def directory_row_update)

lemma directory_claim:
  assumes "table_wf t" and "i < FAKEIP_CAPACITY" and "n \<noteq> []" and "sl_name (slot_at t i) = []"
  shows "directory_of (claim i n t) = (directory_of t)\<lparr>dr_names := (lookup t)(fake_ip_at i \<mapsto> n)\<rparr>"
proof -
  have "pins t (fake_ip_at i) = 0" using assms by (simp add: pins_def owned_slot_def)
  then have "(pins t)(fake_ip_at i := 0) = pins t" by (metis fun_upd_triv)
  with assms show ?thesis by (simp add: claim_def directory_row_update) (simp add: directory_of_def)
qed

lemma evicted_makes_room:
  assumes "table_wf t"
  shows "makes_room (directory_of t) (directory_of (evicted t))"
proof (cases "find_lru t")
  case None
  then show ?thesis by (simp add: evicted_def makes_room_def)
next
  case (Some v)
  from find_lru_Some [OF assms Some] have v: "v < FAKEIP_CAPACITY" "lookup t (fake_ip_at v) \<noteq> None" "pins t (fake_ip_at v) = 0"
    by (simp_all add: lookup_at pins_def owned_slot_def)
  then have "(pins t)(fake_ip_at v := 0) = pins t" by (metis fun_upd_triv)
  with v Some assms show ?thesis
    unfolding makes_room_def by (intro disjI2 exI [of _ "fake_ip_at v"]) (simp add: evicted_def directory_retire, simp add: directory_of_def)
qed

lemma not_held_ran:
  assumes "table_wf t" and "find_name t n = None" and "n \<noteq> []"
  shows "n \<notin> ran (lookup t)"
  using assms by (auto simp: ran_def find_name_None elim!: lookup_row simp del: split_paired_Ex)

lemma alloc_refines:
  assumes wf: "table_wf t"
  shows "dir_step (Alloc n) (directory_of t) (directory_of (snd (alloc n t)))"
proof (cases "n = []")
  case True
  have "[] \<notin> ran (lookup t)" unfolding ran_def using lookup_facts [OF wf] by blast
  with True show ?thesis by (simp add: alloc_def) (rule dir_step.refused, simp_all add: directory_of_def makes_room_def)
next
  case ne: False
  from wf ne show ?thesis
  proof (cases rule: alloc_cases)
    case (held i)
    then have l: "lookup t (fake_ip_at i) = Some n" using ne by (simp add: lookup_at)
    have "directory_of (snd (alloc n t)) = directory_of t"
    proof -
      let ?r = "(slot_at t i)\<lparr>sl_last_use := ft_touch t + 1\<rparr>"
      have "directory_of (snd (alloc n t)) = directory_of (t\<lparr>ft_slots := (ft_slots t)[i := ?r]\<rparr>)"
        unfolding held(4) by (rule directory_of_cong) simp_all
      moreover have "pins t (fake_ip_at i) = sl_inflight (slot_at t i)" using held ne by (simp add: pins_def owned_slot_def)
      ultimately show ?thesis using held(2,3) ne wf l
        by (simp add: directory_row_update) (simp add: directory_of_def fun_upd_idem)
    qed
    with l show ?thesis using dir_step.known [of "directory_of t"] by (simp add: directory_of_def)
  next
    case (claimed u i)
    have free: "\<not> ft_excluded u ! i" "sl_name (slot_at u i) = []"
      using find_free_Some [OF claimed(3,4)] claimable_not_excluded by blast+
    have room: "makes_room (directory_of t) (directory_of u)"
      using claimed(2) evicted_makes_room [of "ticked t"] directory_of_cong [of "ticked t" t] wf
      by (auto simp: makes_room_def)
    have "\<not> excluded t (fake_ip_at i)"
      using free(1) claimed(2,5) by (auto simp: excluded_def)
    with dir_step.issued [OF ne _ room, of "fake_ip_at i"] not_held_ran [OF wf claimed(1) ne] claimed free ne
    show ?thesis by (simp add: directory_claim) (simp add: directory_of_def lookup_at)
  next
    case refused
    have "makes_room (directory_of t) (directory_of (evicted (ticked t)))"
      using evicted_makes_room [of "ticked t"] directory_of_cong [of "ticked t" t] wf by simp
    with dir_step.refused not_held_ran [OF wf refused(1) ne] refused(4) show ?thesis
      by (simp add: directory_of_def)
  qed
qed

lemma exclude_refines:
  assumes wf: "table_wf t"
  shows "dir_step (Exclude a) (directory_of t) (directory_of (exclude a t))"
proof (cases "fake_ip_slot_of a")
  case None
  then have "dr_names (directory_of t) a = None" by (simp add: directory_of_def lookup_def)
  with None show ?thesis using dir_step.no_slot by (simp add: exclude_def)
next
  case (Some i)
  then have i: "i < FAKEIP_CAPACITY" "fake_ip_at i = a" by (simp_all add: at_slot_of)
  show ?thesis
  proof (cases "ft_excluded t ! i")
    case True
    then have "dr_names (directory_of t) a = None"
      using wf_excluded_free [OF wf i(1)] Some by (simp add: directory_of_def lookup_def)
    with Some True show ?thesis using dir_step.no_slot by (simp add: exclude_def)
  next
    case False
    define t1 where "t1 = t\<lparr>ft_excluded := (ft_excluded t)[i := True], ft_exclusions := ft_exclusions t + 1\<rparr>"
    have t1: "lookup t1 = lookup t" "pins t1 = pins t"
      by (simp_all add: t1_def fun_eq_iff lookup_def pins_def owned_slot_def cong: option.case_cong if_cong)
    have ex: "{b. excluded t1 b} = insert a {b. excluded t b}"
    proof -
      have "excluded t1 b \<longleftrightarrow> b = a \<or> excluded t b" for b
      proof (cases "b = a")
        case False
        with row_elsewhere [OF i(1), of b] i(2) show ?thesis
          by (cases "fake_ip_slot_of b") (simp_all add: t1_def excluded_def)
      qed (use Some i wf in \<open>simp add: t1_def excluded_def\<close>)
      then show ?thesis by blast
    qed
    have "directory_of (exclude a t) = (directory_of t)\<lparr>dr_names := (lookup t)(a := None),
        dr_barred := insert a {b. excluded t b}, dr_pins := (pins t)(a := 0)\<rparr>"
    proof (cases "sl_name (slot_at t i) = []")
      case True
      then have "lookup t a = None" "pins t a = 0" using Some by (simp_all add: lookup_def pins_def owned_slot_def)
      then have "(lookup t)(a := None) = lookup t" "(pins t)(a := 0) = pins t" by (metis fun_upd_triv)+
      moreover have "exclude a t = t1" using True Some False by (simp add: exclude_def t1_def)
      ultimately show ?thesis using t1 ex by (simp add: directory_of_def)
    next
      case named: False
      have "directory_of (retire i t1) = (directory_of t1)\<lparr>dr_names := (lookup t1)(a := None), dr_pins := (pins t1)(a := 0)\<rparr>"
        using directory_row_update [of t1 i] i wf by (simp add: retire_def) (simp add: t1_def)
      moreover have "exclude a t = retire i t1" using named Some False by (simp add: exclude_def t1_def)
      ultimately show ?thesis using t1 ex by (simp add: directory_of_def)
    qed
    with dir_step.barred [of a "directory_of t"] show ?thesis by (simp add: directory_of_def)
  qed
qed

lemma directory_same_name:
  assumes "table_wf t" and "owned_slot t a = Some i" and "sl_name r = sl_name (slot_at t i)"
  shows "directory_of (t\<lparr>ft_slots := (ft_slots t)[i := r]\<rparr>) = (directory_of t)\<lparr>dr_pins := (pins t)(a := sl_inflight r)\<rparr>"
proof -
  have i: "i < FAKEIP_CAPACITY" "fake_ip_at i = a" "sl_name r \<noteq> []" "lookup t a = Some (sl_name r)"
    using assms by (auto simp: owned_slot_Some at_slot_of lookup_def)
  then have "(lookup t)(a := Some (sl_name r)) = lookup t" by (metis fun_upd_triv)
  with i assms(1) show ?thesis by (simp add: directory_row_update) (simp add: directory_of_def)
qed

lemma pin_refines: "table_wf t \<Longrightarrow> dir_step (Pin a) (directory_of t) (directory_of (snd (pin a t)))"
proof (cases "owned_slot t a")
  case None
  then have "dr_names (directory_of t) a = None" by (auto simp: directory_of_def lookup_def owned_slot_def split: option.splits)
  with None show ?thesis using dir_step.no_pin by (simp add: pin_def)
next
  case (Some i)
  assume wf: "table_wf t"
  from Some have "dr_names (directory_of t) a \<noteq> None" "pins t a = sl_inflight (slot_at t i)"
    by (simp_all add: pins_def) (auto simp: directory_of_def lookup_def owned_slot_Some)
  moreover from this have "directory_of (snd (pin a t)) = (directory_of t)\<lparr>dr_pins := (pins t)(a := pins t a + 1)\<rparr>"
    using directory_same_name [OF wf Some] Some by (simp add: pin_def)
  ultimately show ?thesis using dir_step.pinned [of "directory_of t" a] by (simp add: directory_of_def)
qed

lemma unpin_refines: "table_wf t \<Longrightarrow> dir_step (Unpin a) (directory_of t) (directory_of (snd (unpin a t)))"
proof -
  assume wf: "table_wf t"
  have "directory_of (snd (unpin a t)) = (directory_of t)\<lparr>dr_pins := (pins t)(a := pins t a - 1)\<rparr>"
  proof (cases "pins t a = 0")
    case True
    then have "snd (unpin a t) = t" by (auto simp: unpin_def pins_def split: option.splits)
    moreover have "(pins t)(a := pins t a - 1) = pins t" using True by (metis diff_0_eq_0 fun_upd_triv)
    ultimately show ?thesis by (simp add: directory_of_def)
  next
    case False
    then obtain i where i: "owned_slot t a = Some i" "pins t a = sl_inflight (slot_at t i)"
      by (auto simp: pins_def split: option.splits)
    with False directory_same_name [OF wf i(1)] show ?thesis by (simp add: unpin_def)
  qed
  with dir_step.unpinned [of a "directory_of t"] show ?thesis by (simp add: directory_of_def)
qed

lemma touched_refines: "table_wf t \<Longrightarrow> directory_of (snd (note_touched a t)) = directory_of t"
proof (cases "owned_slot t a")
  case (Some i)
  assume wf: "table_wf t"
  let ?r = "(slot_at t i)\<lparr>sl_last_use := ft_touch t + 1\<rparr>"
  have "directory_of (snd (note_touched a t)) = directory_of (t\<lparr>ft_slots := (ft_slots t)[i := ?r]\<rparr>)"
    using Some by (intro directory_of_cong) (simp_all add: note_touched_def Let_def)
  moreover have "(pins t)(a := sl_inflight ?r) = pins t" using Some by (intro ext) (simp add: pins_def)
  ultimately show ?thesis using directory_same_name [OF wf Some, of ?r] by (simp add: directory_of_def)
qed (simp add: note_touched_def)

interpretation fake_directory: refinement fake_step table_wf dir_step directory_of
proof
  fix t c
  assume wf: "table_wf t"
  show "dir_step c (directory_of t) (directory_of (fake_step c t))"
  proof (cases c)
    case (Touched a)
    with touched_refines [OF wf] dir_step.touched show ?thesis by simp
  next
    case (Progress k)
    have "directory_of (fake_step c t) = directory_of t"
      using Progress by (intro directory_of_cong) (simp_all add: note_progress_def Let_def)
    with Progress dir_step.progress show ?thesis by simp
  qed (use wf alloc_refines exclude_refines pin_refines unpin_refines in simp_all)
qed

definition new_directory :: "octets \<Rightarrow> octets directory" where
  "new_directory addr =
     \<lparr>dr_names = (\<lambda>_. None), dr_barred = (if fake_ip_slot_of addr = None then {} else {addr}), dr_pins = (\<lambda>_. 0)\<rparr>"

lemma directory_new: "directory_of (fake_ip_table_new addr q) = new_directory addr"
proof -
  let ?t = "fake_ip_table_new addr q"
  have rows: "sl_name (slot_at ?t i) = []" if "i < FAKEIP_CAPACITY" for i
    using that at_slot_of(2) [of addr]
    by (cases "fake_ip_slot_of addr") (simp_all add: fake_ip_table_new_def exclude_def Let_def fake_ip_slot_init_def)
  then have "lookup ?t a = None" "pins ?t a = 0" for a
    using at_slot_of(2) [of a] by (auto simp: lookup_def pins_def owned_slot_def split: option.split)
  moreover have "excluded ?t a \<longleftrightarrow> a = addr \<and> fake_ip_slot_of addr \<noteq> None" for a
  proof (cases "fake_ip_slot_of a")
    case (Some k)
    then have k: "k < FAKEIP_CAPACITY" "fake_ip_at k = a" by (simp_all add: at_slot_of)
    show ?thesis
    proof (cases "fake_ip_slot_of addr")
      case None
      then show ?thesis using Some k by (simp add: excluded_def fake_ip_table_new_def exclude_def)
    next
      case (Some i)
      then have "i < FAKEIP_CAPACITY" "fake_ip_at i = addr" by (simp_all add: at_slot_of)
      with Some \<open>fake_ip_slot_of a = Some k\<close> k show ?thesis
        by (auto simp: excluded_def fake_ip_table_new_def exclude_def Let_def fake_ip_slot_init_def nth_list_update)
    qed
  qed (auto simp: excluded_def)
  ultimately show ?thesis by (simp add: directory_of_def new_directory_def fun_eq_iff del: split_paired_All)
qed

text \<open>C27: 
  The table refines the directory: read as one, every run from a new table is a run of the
  specification from the empty directory, so a name is issued one address in the range that is
  not barred, only a name without pins makes room, and no two addresses share a name.
\<close>

theorem fake_table_refines_directory:
  "spec_run dir_step ops (new_directory addr) (directory_of (fake_run ops (fake_ip_table_new addr q))) \<and>
   dir_ok (directory_of (fake_run ops (fake_ip_table_new addr q)))"
proof -
  have run: "spec_run dir_step ops (new_directory addr) (directory_of (fake_run ops (fake_ip_table_new addr q)))"
    using fake_directory.run_refines [OF wf_new] unfolding fake_run_def directory_new .
  moreover have "dir_ok (new_directory addr)" by (simp add: new_directory_def dir_ok_def)
  ultimately show ?thesis using spec_run_inv [OF run, of dir_ok] dir_step_ok by blast
qed

end
