(* ===== verification/Sockaddr.thy ===== *)
theory Sockaddr
  imports Prelude
begin

unbundle bit_operations_syntax

text \<open>
  The socket address layouts of the Windows SDK that the injectee reads: a sockaddr is the
  list of its bytes, the family in the host's (little-endian) order, the port and the address
  in wire order.
\<close>

definition AF_INET :: u16 where
  "AF_INET = 2"

definition AF_INET6 :: u16 where
  "AF_INET6 = 23"

definition sa_family :: "u8 list \<Rightarrow> u16" where
  "sa_family bytes = ucast (bytes ! 0) OR push_bit 8 (ucast (bytes ! 1))"

text \<open>\<open>ntohs(sin_port)\<close>, and the same field of a \<open>sockaddr_in6\<close>.\<close>

definition sockaddr_port :: "u8 list \<Rightarrow> u16" where
  "sockaddr_port bytes = push_bit 8 (ucast (bytes ! 2)) OR ucast (bytes ! 3)"

text \<open>The structures themselves, for an address and a port in host order.\<close>

definition sockaddr_in_bytes :: "octets \<Rightarrow> u16 \<Rightarrow> u8 list" where
  "sockaddr_in_bytes v4 port = (case v4 of (a, b, c, d) \<Rightarrow>
     [2, 0, ucast (drop_bit 8 port), ucast port, a, b, c, d] @ replicate 8 0)"

definition sockaddr_in6_bytes :: "u8 list \<Rightarrow> u16 \<Rightarrow> u8 list" where
  "sockaddr_in6_bytes v6 port =
     [23, 0, ucast (drop_bit 8 port), ucast port, 0, 0, 0, 0] @ v6 @ replicate 4 0"

text \<open>Splitting a 16-bit value into its octets and putting them together again.\<close>

lemma host_port_of_bytes:
  "push_bit 8 (ucast (ucast (drop_bit 8 p) :: u8)) OR ucast (ucast p :: u8) = (p :: u16)"
proof (rule bit_word_eqI)
  fix n assume n: "n < LENGTH(16)"
  show "bit (push_bit 8 (ucast (ucast (drop_bit 8 p) :: u8)) OR ucast (ucast p :: u8) :: u16) n = bit p n"
  proof (cases "n < 8")
    case False
    then obtain k where "n = 8 + k" by (metis le_Suc_ex not_less)
    with n show ?thesis by (auto simp: bit_simps)
  qed (auto simp: bit_simps)
qed

lemma sockaddr_port_bytes [simp]:
  "sockaddr_port (sockaddr_in_bytes v4 port) = port" "sockaddr_port (sockaddr_in6_bytes v6 port) = port"
  by (simp_all add: sockaddr_port_def sockaddr_in_bytes_def sockaddr_in6_bytes_def host_port_of_bytes split: prod.split)

lemma sa_family_simps [simp]:
  "sa_family (2 # 0 # r) = AF_INET" "sa_family (23 # 0 # r) = AF_INET6" "AF_INET6 \<noteq> AF_INET"
  by (simp_all add: sa_family_def AF_INET_def AF_INET6_def)

end
