(* ===== verification/Fake_Map.thy ===== *)
theory Fake_Map
  imports Fakeip_Table Sockaddr
begin

unbundle bit_operations_syntax

text \<open>
  src/injectee/fake_map.hpp: recognising a fabricated address in a caller's sockaddr buffer,
  the three-way verdict of a connect site, and \<open>fake_ip_owner\<close>, the one table behind one
  mutex. Every owner method is one critical section, so it is one function on the table here.
  A \<open>const sockaddr *\<close> is \<open>None\<close> for the null pointer, else the bytes at it; \<open>socklen_t\<close> is
  a signed int.
\<close>

section \<open>Reading a sockaddr\<close>

definition FAKE_MAP_FAMILY_BYTES :: int where
  "FAKE_MAP_FAMILY_BYTES = 2"

definition FAKE_MAP_MAX_LENGTH :: int where
  "FAKE_MAP_MAX_LENGTH = 128"

record fake_addr_read =
  ar_readable :: bool
  ar_in_range :: bool
  ar_issuable :: bool
  ar_v4 :: octets
  ar_slot :: nat
  ar_port :: u16

definition fake_addr_read_init :: fake_addr_read where
  "fake_addr_read_init = \<lparr>ar_readable = False, ar_in_range = False, ar_issuable = False,
     ar_v4 = (0, 0, 0, 0), ar_slot = 0, ar_port = 0\<rparr>"

definition fake_map_host_port :: "u8 list \<Rightarrow> u16" where
  "fake_map_host_port bytes = push_bit 8 (ucast (bytes ! 0)) OR ucast (bytes ! 1)"

definition fake_map_is_v4_mapped :: "u8 list \<Rightarrow> bool" where
  "fake_map_is_v4_mapped bytes =
     (if list_ex (\<lambda>i. bytes ! i \<noteq> 0) [0..<10] then False
      else bytes ! 10 = 0xff \<and> bytes ! 11 = 0xff)"

definition fake_map_classify :: "fake_addr_read \<Rightarrow> fake_addr_read" where
  "fake_map_classify out =
     (let out1 = out\<lparr>ar_in_range := in_fake_range (ar_v4 out)\<rparr> in
      case fake_ip_slot_of (ar_v4 out1) of
        None \<Rightarrow> out1
      | Some slot \<Rightarrow> out1\<lparr>ar_issuable := True, ar_slot := slot\<rparr>)"

definition read_fake_addr :: "u8 list option \<Rightarrow> int \<Rightarrow> fake_addr_read" where
  "read_fake_addr name len =
     (let out = fake_addr_read_init in
      case name of
        None \<Rightarrow> out
      | Some b \<Rightarrow>
          if len < FAKE_MAP_FAMILY_BYTES \<or> len > FAKE_MAP_MAX_LENGTH then out
          else if sa_family b = AF_INET then
            (if len < 16 then out
             else fake_map_classify (out\<lparr>ar_readable := True,
                    ar_v4 := (b ! 4, b ! 5, b ! 6, b ! 7),
                    ar_port := fake_map_host_port (drop 2 b)\<rparr>))
          else if sa_family b = AF_INET6 then
            (if len < 28 then out
             else let addr = drop 8 b in
               if \<not> fake_map_is_v4_mapped addr then out
               else fake_map_classify (out\<lparr>ar_readable := True,
                      ar_v4 := (addr ! 12, addr ! 13, addr ! 14, addr ! 15),
                      ar_port := fake_map_host_port (drop 2 b)\<rparr>))
          else out)"

definition addr_in_fake_range :: "u8 list option \<Rightarrow> int \<Rightarrow> bool" where
  "addr_in_fake_range name len = ar_in_range (read_fake_addr name len)"

definition is_fake_ip_addr :: "u8 list option \<Rightarrow> int \<Rightarrow> bool" where
  "is_fake_ip_addr name len = ar_issuable (read_fake_addr name len)"

definition fake_addr_read_of :: "octets \<Rightarrow> u16 \<Rightarrow> fake_addr_read" where
  "fake_addr_read_of v4 port =
     fake_map_classify (fake_addr_read_init\<lparr>ar_readable := True, ar_v4 := v4, ar_port := port\<rparr>)"

section \<open>Verdicts\<close>

datatype fake_verdict = route_by_name | refuse | passthrough

record fake_table_answer =
  fa_found :: bool
  fa_name :: string

definition from_lookup :: "string option \<Rightarrow> fake_table_answer" where
  "from_lookup row =
     (case row of
        None \<Rightarrow> \<lparr>fa_found = False, fa_name = []\<rparr>
      | Some n \<Rightarrow> if n = [] then \<lparr>fa_found = False, fa_name = []\<rparr> else \<lparr>fa_found = True, fa_name = n\<rparr>)"

record fake_connect_decision =
  fd_verdict :: fake_verdict
  fd_name :: string
  fd_addr :: fake_addr_read

definition fake_connect_verdict ::
  "fake_addr_read \<Rightarrow> fake_table_answer \<Rightarrow> bool \<Rightarrow> fake_connect_decision" where
  "fake_connect_verdict addr answer proxy_configured =
     (let out = \<lparr>fd_verdict = passthrough, fd_name = [], fd_addr = addr\<rparr> in
      if \<not> ar_in_range addr then out\<lparr>fd_verdict := passthrough\<rparr>
      else if fa_found answer \<and> fa_name answer \<noteq> [] then
        out\<lparr>fd_verdict := route_by_name, fd_name := fa_name answer\<rparr>
      else out\<lparr>fd_verdict := (if proxy_configured then refuse else passthrough)\<rparr>)"

definition fake_connect_verdict_sockaddr ::
  "u8 list option \<Rightarrow> int \<Rightarrow> fake_table_answer \<Rightarrow> bool \<Rightarrow> fake_connect_decision" where
  "fake_connect_verdict_sockaddr name len answer proxy_configured =
     fake_connect_verdict (read_fake_addr name len) answer proxy_configured"

section \<open>The owner\<close>

definition fake_ip_owner_new :: "nat \<Rightarrow> fake_ip_table" where
  "fake_ip_owner_new quarantine = fake_ip_table_new (0, 0, 0, 0) quarantine"

definition alloc_for :: "string \<Rightarrow> fake_ip_table \<Rightarrow> fake_addr_read option \<times> fake_ip_table" where
  "alloc_for name t =
     (case alloc name t of
        (None, t') \<Rightarrow> (None, t')
      | (Some issued, t') \<Rightarrow> (Some (fake_addr_read_of issued 0), t'))"

definition owner_lookup_sockaddr :: "u8 list option \<Rightarrow> int \<Rightarrow> fake_ip_table \<Rightarrow> string option" where
  "owner_lookup_sockaddr name len t =
     (let addr = read_fake_addr name len in
      if \<not> ar_in_range addr then None else lookup t (ar_v4 addr))"

definition owner_note_touched_sockaddr ::
  "u8 list option \<Rightarrow> int \<Rightarrow> fake_ip_table \<Rightarrow> bool \<times> fake_ip_table" where
  "owner_note_touched_sockaddr name len t =
     (let addr = read_fake_addr name len in
      if \<not> ar_in_range addr then (False, t) else note_touched (ar_v4 addr) t)"

definition exclude_proxy_u32 :: "u32 \<Rightarrow> fake_ip_table \<Rightarrow> fake_ip_table" where
  "exclude_proxy_u32 v4_value t = exclude (fake_ip_from_u32 v4_value) t"

text \<open>\<open>fake_owned_decision\<close> has the fields of \<open>fake_connect_decision\<close> with an owned name.\<close>

definition decide :: "fake_addr_read \<Rightarrow> bool \<Rightarrow> fake_ip_table \<Rightarrow> fake_connect_decision" where
  "decide addr proxy_configured t =
     (let out = \<lparr>fd_verdict = passthrough, fd_name = [], fd_addr = addr\<rparr> in
      if \<not> ar_in_range addr then out\<lparr>fd_verdict := passthrough\<rparr>
      else let row = lookup t (ar_v4 addr);
               pure = fake_connect_verdict addr (from_lookup row) proxy_configured;
               out1 = out\<lparr>fd_verdict := fd_verdict pure\<rparr>
        in case row of
             Some n \<Rightarrow> if fd_verdict pure = route_by_name then out1\<lparr>fd_name := n\<rparr> else out1
           | None \<Rightarrow> out1)"

definition decide_sockaddr ::
  "u8 list option \<Rightarrow> int \<Rightarrow> bool \<Rightarrow> fake_ip_table \<Rightarrow> fake_connect_decision" where
  "decide_sockaddr name len proxy_configured t = decide (read_fake_addr name len) proxy_configured t"

section \<open>What the reader sees\<close>

text \<open>The v4-mapped spelling of an address, beside \<open>sockaddr_in_bytes\<close>.\<close>

definition sockaddr_in6_mapped_bytes :: "octets \<Rightarrow> u16 \<Rightarrow> u8 list" where
  "sockaddr_in6_mapped_bytes v4 port = sockaddr_in6_bytes (fake_ip_v4_mapped v4) port"

lemma port_bytes [simp]:
  "fake_map_host_port (ucast (drop_bit 8 port) # ucast port # r) = port"
  using host_port_of_bytes [of port] by (simp add: fake_map_host_port_def)

lemma mapped_bytes_simps [simp]:
  "fake_map_is_v4_mapped (fake_ip_v4_mapped v4 @ r)"
  "length (fake_ip_v4_mapped v4) = 16"
  "((fake_ip_v4_mapped v4 @ r) ! 12, (fake_ip_v4_mapped v4 @ r) ! 13,
    (fake_ip_v4_mapped v4 @ r) ! 14, (fake_ip_v4_mapped v4 @ r) ! 15) = v4"
proof -
  obtain a b c d where v4: "v4 = (a, b, c, d)" by (cases v4)
  have e: "fake_ip_v4_mapped v4 = [0, 0, 0, 0, 0, 0, 0, 0, 0, 0, 0xff, 0xff, a, b, c, d]"
    unfolding v4 fake_ip_v4_mapped_def by (simp add: eval_nat_numeral)
  show "fake_map_is_v4_mapped (fake_ip_v4_mapped v4 @ r)"
    unfolding e fake_map_is_v4_mapped_def by (simp add: eval_nat_numeral)
  show "length (fake_ip_v4_mapped v4) = 16" unfolding e by simp
  show "((fake_ip_v4_mapped v4 @ r) ! 12, (fake_ip_v4_mapped v4 @ r) ! 13,
    (fake_ip_v4_mapped v4 @ r) ! 14, (fake_ip_v4_mapped v4 @ r) ! 15) = v4"
    unfolding v4 using e [unfolded v4] by (simp add: eval_nat_numeral)
qed

lemma fake_map_consts: "FAKE_MAP_FAMILY_BYTES = 2" "FAKE_MAP_MAX_LENGTH = 128"
  by (simp_all add: FAKE_MAP_FAMILY_BYTES_def FAKE_MAP_MAX_LENGTH_def)

lemma read_v4_spelling:
  assumes "16 \<le> len" "len \<le> 128"
  shows "read_fake_addr (Some (sockaddr_in_bytes v4 port @ tail)) len = fake_addr_read_of v4 port"
  using assms unfolding read_fake_addr_def fake_addr_read_of_def sockaddr_in_bytes_def fake_map_consts
  by (cases v4) simp

lemma read_v6_spelling:
  assumes "28 \<le> len" "len \<le> 128"
  shows "read_fake_addr (Some (sockaddr_in6_mapped_bytes v4 port @ tail)) len = fake_addr_read_of v4 port"
  using assms mapped_bytes_simps(3) [of v4 "replicate 4 0 @ tail"]
  unfolding read_fake_addr_def fake_addr_read_of_def sockaddr_in6_mapped_bytes_def sockaddr_in6_bytes_def fake_map_consts
  by (simp add: Let_def)

lemma classify_simps [simp]:
  "ar_v4 (fake_map_classify r) = ar_v4 r" "ar_port (fake_map_classify r) = ar_port r"
  "ar_readable (fake_map_classify r) = ar_readable r"
  "ar_in_range (fake_map_classify r) = in_fake_range (ar_v4 r)"
  "ar_issuable (fake_map_classify r) = (ar_issuable r \<or> fake_ip_slot_of (ar_v4 r) \<noteq> None)"
  by (auto simp: fake_map_classify_def Let_def split: option.split)

lemma read_of_simps [simp]:
  "ar_v4 (fake_addr_read_of v4 port) = v4" "ar_port (fake_addr_read_of v4 port) = port"
  "ar_in_range (fake_addr_read_of v4 port) = in_fake_range v4" "ar_readable (fake_addr_read_of v4 port)"
  by (simp_all add: fake_addr_read_of_def)

lemma drop_append_le: "n \<le> length b \<Longrightarrow> drop n (b @ x) = drop n b @ x"
  by simp

lemma host_port_append: "2 \<le> length b \<Longrightarrow> fake_map_host_port (b @ x) = fake_map_host_port b"
  by (cases b) (auto simp: fake_map_host_port_def nth_append)

lemma mapped_append: "16 \<le> length b \<Longrightarrow> fake_map_is_v4_mapped (b @ x) = fake_map_is_v4_mapped b"
  by (simp add: fake_map_is_v4_mapped_def nth_append list_ex_iff)

lemma family_append: "2 \<le> length b \<Longrightarrow> sa_family (b @ x) = sa_family b"
  by (cases b) (auto simp: sa_family_def nth_append)

lemma read_append:
  assumes len: "len \<le> int (length b)"
  shows "read_fake_addr (Some (b @ x)) len = read_fake_addr (Some b) len"
proof (cases "len < 2 \<or> len > 128")
  case True
  then show ?thesis by (auto simp: read_fake_addr_def fake_map_consts Let_def)
next
  case False
  have fam: "sa_family (b @ x) = sa_family b" using False len by (intro family_append) simp
  have p: "fake_map_host_port (drop 2 (b @ x)) = fake_map_host_port (drop 2 b)" if "4 \<le> length b"
    using that by (simp add: drop_append_le host_port_append)
  have m: "fake_map_is_v4_mapped (drop 8 (b @ x)) = fake_map_is_v4_mapped (drop 8 b)" if "24 \<le> length b"
    using that by (simp add: drop_append_le mapped_append)
  show ?thesis
  proof (cases "sa_family b = AF_INET")
    case True
    show ?thesis
    proof (cases "len < 16")
      case l: True
      then show ?thesis using True False fam by (simp add: read_fake_addr_def fake_map_consts Let_def)
    next
      case l: False
      then have "16 \<le> length b" using len by simp
      then show ?thesis using True False fam p l
        by (simp add: read_fake_addr_def fake_map_consts Let_def nth_append)
    qed
  next
    case nv4: False
    show ?thesis
    proof (cases "sa_family b = AF_INET6 \<and> \<not> len < 28")
      case True
      then have "28 \<le> length b" using len by simp
      then show ?thesis using True nv4 False fam p m
        by (simp add: read_fake_addr_def fake_map_consts Let_def nth_append)
    next
      case f: False
      then show ?thesis using nv4 False fam
        by (auto simp: read_fake_addr_def fake_map_consts Let_def)
    qed
  qed
qed

section \<open>What the verdict says\<close>

lemma from_lookup_found: "fa_found (from_lookup row) \<and> fa_name (from_lookup row) \<noteq> [] \<longleftrightarrow>
    (\<exists>n. row = Some n \<and> n \<noteq> [])"
  by (auto simp: from_lookup_def split: option.split)

lemma fa_name_from_lookup: "fa_name (from_lookup row) = (case row of None \<Rightarrow> [] | Some n \<Rightarrow> n)"
  by (auto simp: from_lookup_def split: option.split)

lemma lookup_nonempty: "lookup t a \<noteq> Some []"
  by (auto simp: lookup_def split: option.splits)

text \<open>The owner's critical section computes the pure policy on the table's answer.\<close>

lemma decide_pure:
  "decide addr pc t = fake_connect_verdict addr (from_lookup (lookup t (ar_v4 addr))) pc"
  using lookup_nonempty [of t "ar_v4 addr"]
  by (auto simp: decide_def fake_connect_verdict_def Let_def from_lookup_def split: option.split)

context name_table
begin

text \<open>Any table with the contract sends a connect to an issued address to its name.\<close>

lemma verdict_of_issued:
  assumes "ok t" and "fst (talloc n t) = Some a"
  shows "fake_connect_verdict (fake_addr_read_of a p) (from_lookup (tlookup (snd (talloc n t)) a)) pc
    = \<lparr>fd_verdict = route_by_name, fd_name = n, fd_addr = fake_addr_read_of a p\<rparr>"
  using alloc_lookup [OF assms] alloc_range [OF assms] lookup_range [of "snd (talloc n t)" a n] ok_alloc [OF assms(1)]
  by (simp add: fake_connect_verdict_def from_lookup_def)

lemma verdict_of_marked:
  assumes "ok t" and "in_fake_range a"
  shows "fd_verdict (fake_connect_verdict (fake_addr_read_of a p) (from_lookup (tlookup (tmark a t) a)) True) = refuse"
  using mark_marks [OF assms(1), of a] assms(2) by (simp add: fake_connect_verdict_def from_lookup_def)

end

section \<open>Properties\<close>

text \<open>The reader never looks past the length the caller advertised: bytes behind it cannot
  change what is read.\<close>

theorem read_within_length:
  assumes "len \<le> int (length b)"
  shows "read_fake_addr (Some (b @ x)) len = read_fake_addr (Some (b @ y)) len"
  using read_append [OF assms] by simp

lemma read_within_length_witness:
  "read_fake_addr (Some ([2, 0, 0, 80, 198, 51, 100, 7] @ [1, 2])) 8
     = read_fake_addr (Some ([2, 0, 0, 80, 198, 51, 100, 7] @ [3])) 8"
  by (rule read_within_length) simp

text \<open>Both spellings of an address read back as its octets and its port in host order,
  with any length from the structure's own size up to the storage size.\<close>

theorem read_both_spellings:
  assumes "28 \<le> len" "len \<le> 128"
  shows "read_fake_addr (Some (sockaddr_in_bytes v4 port @ tail)) len = fake_addr_read_of v4 port \<and>
    read_fake_addr (Some (sockaddr_in6_mapped_bytes v4 port @ tail)) len = fake_addr_read_of v4 port"
  using assms read_v4_spelling read_v6_spelling by simp

lemma read_both_spellings_witness:
  "read_fake_addr (Some (sockaddr_in6_mapped_bytes (198, 51, 100, 7) 443)) 28
     = fake_addr_read_of (198, 51, 100, 7) 443"
  using read_both_spellings [of 28 "(198, 51, 100, 7)" 443 "[]"] by simp

text \<open>The decision, in full: an address outside the range always passes through, an
  address in the range routes by name exactly when the table answers, and without an answer
  it is refused when a proxy is configured and passes through when none is.\<close>

theorem decide_cases:
  "(ar_in_range addr \<and> lookup t (ar_v4 addr) = Some n \<longleftrightarrow>
      fd_verdict (decide addr pc t) = route_by_name \<and> fd_name (decide addr pc t) = n) \<and>
   (ar_in_range addr \<and> lookup t (ar_v4 addr) = None \<and> pc \<longleftrightarrow> fd_verdict (decide addr pc t) = refuse) \<and>
   (\<not> ar_in_range addr \<or> lookup t (ar_v4 addr) = None \<and> \<not> pc \<longleftrightarrow> fd_verdict (decide addr pc t) = passthrough) \<and>
   fd_addr (decide addr pc t) = addr"
  using lookup_nonempty [of t "ar_v4 addr"]
  by (auto simp: decide_def Let_def fake_connect_verdict_def from_lookup_def split: option.splits)

lemma decide_cases_witness:
  "fd_verdict (decide (fake_addr_read_of (198, 51, 100, 1) 80) True fake_table_1) = route_by_name \<and>
   fd_name (decide (fake_addr_read_of (198, 51, 100, 1) 80) True fake_table_1) = ''a.example''"
  using decide_cases [of "fake_addr_read_of (198, 51, 100, 1) 80" fake_table_1 "''a.example''" True]
  by (simp add: fake_table_1_facts in_fake_range_def FAKEIP_RANGE_def)

text \<open>C29: From resolver to connect: the address \<open>alloc_for\<close> hands out, put by the victim into a
  sockaddr with any port, a sockaddr_in of at least sixteen octets or a v4-mapped sockaddr_in6 of
  at least twenty-eight (and no more than a sockaddr_storage), is decided as a connect to the
  name it was resolved for.\<close>

theorem issued_address_routes_by_name:
  assumes wf: "table_wf t" and r: "alloc_for name t = (Some r, t')" and len: "len \<le> 128"
    and buf: "buf = sockaddr_in_bytes (ar_v4 r) port @ tail \<and> 16 \<le> len \<or>
      buf = sockaddr_in6_mapped_bytes (ar_v4 r) port @ tail \<and> 28 \<le> len"
  shows "fd_verdict (decide_sockaddr (Some buf) len pc t') = route_by_name \<and>
    fd_name (decide_sockaddr (Some buf) len pc t') = name \<and>
    ar_port (fd_addr (decide_sockaddr (Some buf) len pc t')) = port"
proof -
  obtain a where a: "fst (alloc name t) = Some a" and s: "t' = snd (alloc name t)" and v: "ar_v4 r = a"
    using r by (auto simp: alloc_for_def split: prod.splits option.splits)
  have "read_fake_addr (Some buf) len = fake_addr_read_of a port"
    using buf len read_v4_spelling [of len a port tail] read_v6_spelling [of len a port tail]
    unfolding v by (elim disjE) simp_all
  then show ?thesis
    using fakes.verdict_of_issued [OF wf a, of port pc] by (simp add: decide_sockaddr_def decide_pure s)
qed

lemma issued_address_routes_by_name_witness:
  "fd_name (decide_sockaddr (Some (sockaddr_in_bytes (198, 51, 100, 1) 443)) 16 True fake_table_1) = ''a.example''"
proof -
  have r: "alloc_for ''a.example'' (fake_ip_table_new (0, 0, 0, 0) 2)
      = (Some (fake_addr_read_of (fake_ip_at 0) 0), fake_table_1)"
    by (simp add: alloc_for_def fake_table_1_def alloc_fresh)
  have at: "fake_ip_at 0 = (198, 51, 100, 1)" by code_simp
  show ?thesis
    using issued_address_routes_by_name [OF wf_new r, of 16 _ 443 "[]" True] by (simp add: at)
qed

text \<open>The proxy's own address, once excluded, is never routed by a name again: with a proxy
  configured a connect to it inside the range is refused whatever runs in between.\<close>

theorem excluded_proxy_refused:
  assumes wf: "table_wf t" and r: "in_fake_range (fake_ip_from_u32 u)"
  shows "fd_verdict (decide (fake_addr_read_of (fake_ip_from_u32 u) port) True
      (fake_run ops (exclude_proxy_u32 u t))) = refuse"
proof -
  let ?a = "fake_ip_from_u32 u"
  let ?t = "fake_run ops (exclude ?a t)"
  have "lookup ?t ?a = None"
  proof (cases "fake_ip_slot_of ?a")
    case None
    then show ?thesis by (simp add: lookup_def)
  next
    case (Some i)
    have "ft_excluded ?t ! i"
      using Some exclude_marks [OF wf Some] run_excluded [OF wf_exclude [OF wf]] at_slot_of(2) by blast
    then have "excluded ?t ?a" using Some by (simp add: excluded_def)
    then show ?thesis using lookup_not_excluded [OF wf_run [OF wf_exclude [OF wf]], of _ ?a] by fastforce
  qed
  with r show ?thesis by (simp add: decide_pure exclude_proxy_u32_def fake_connect_verdict_def from_lookup_def)
qed

lemma excluded_proxy_refused_witness:
  "fd_verdict (decide (fake_addr_read_of (fake_ip_from_u32 0xC6336401) 80) True
      (fake_run [Alloc ''b.example''] (exclude_proxy_u32 0xC6336401 fake_table_1))) = refuse"
  by (rule excluded_proxy_refused [OF fake_table_1_facts(1)]) code_simp

section \<open>The verdict in words\<close>

definition fake_verdict_text :: "fake_verdict \<Rightarrow> string" where
  "fake_verdict_text v =
     (case v of route_by_name \<Rightarrow> ''route_by_name'' | refuse \<Rightarrow> ''refuse'' | passthrough \<Rightarrow> ''passthrough'')"

lemma verdict_texts_differ: "fake_verdict_text v = fake_verdict_text w \<longleftrightarrow> v = w"
  by (cases v; cases w) (simp_all add: fake_verdict_text_def)

end
