(* ===== verification/Fake_Owner.thy ===== *)
theory Fake_Owner
  imports Fake_Map
begin

text \<open>
  \<open>fake_ip_owner\<close> of src/injectee/fake_map.hpp as the object the hook threads share: one call per
  public method, each with one critical section on the table (what a method reads from its
  arguments before it takes the lock is pure). A list of calls is the order in which the threads
  took the lock.
\<close>

section \<open>Calls\<close>

datatype owner_call =
    O_Alloc string
  | O_Lookup octets
  | O_Lookup_Sockaddr "u8 list option" int
  | O_Pin octets
  | O_Unpin octets
  | O_Pins octets
  | O_Touched octets
  | O_Touched_Sockaddr "u8 list option" int
  | O_Progress u64
  | O_Exclude octets
  | O_Exclude_U32 u32
  | O_Excludes octets
  | O_Live
  | O_Quarantined
  | O_Exclusions
  | O_Capacity
  | O_Quarantine
  | O_Decide fake_addr_read bool
  | O_Decide_Sockaddr "u8 list option" int bool

datatype owner_answer =
    A_Address "fake_addr_read option"
  | A_Name "string option"
  | A_Bool bool
  | A_Size nat
  | A_Clock u64
  | A_Done
  | A_Decision fake_connect_decision

fun owner_step :: "owner_call \<Rightarrow> fake_ip_table \<Rightarrow> owner_answer \<times> fake_ip_table" where
  "owner_step (O_Alloc name) t = map_prod A_Address id (alloc_for name t)"
| "owner_step (O_Lookup fake) t = (A_Name (lookup t fake), t)"
| "owner_step (O_Lookup_Sockaddr name len) t = (A_Name (owner_lookup_sockaddr name len t), t)"
| "owner_step (O_Pin fake) t = map_prod A_Bool id (pin fake t)"
| "owner_step (O_Unpin fake) t = map_prod A_Bool id (unpin fake t)"
| "owner_step (O_Pins fake) t = (A_Size (pins t fake), t)"
| "owner_step (O_Touched fake) t = map_prod A_Bool id (note_touched fake t)"
| "owner_step (O_Touched_Sockaddr name len) t = map_prod A_Bool id (owner_note_touched_sockaddr name len t)"
| "owner_step (O_Progress ticks) t = map_prod A_Clock id (note_progress ticks t)"
| "owner_step (O_Exclude fake) t = (A_Done, exclude fake t)"
| "owner_step (O_Exclude_U32 v4_value) t = (A_Done, exclude_proxy_u32 v4_value t)"
| "owner_step (O_Excludes fake) t = (A_Bool (excluded t fake), t)"
| "owner_step O_Live t = (A_Size (live_names t), t)"
| "owner_step O_Quarantined t = (A_Size (quarantined t), t)"
| "owner_step O_Exclusions t = (A_Size (ft_exclusions t), t)"
| "owner_step O_Capacity t = (A_Size (capacity t), t)"
| "owner_step O_Quarantine t = (A_Size (ft_quarantine t), t)"
| "owner_step (O_Decide addr configured) t = (A_Decision (decide addr configured t), t)"
| "owner_step (O_Decide_Sockaddr name len configured) t = (A_Decision (decide_sockaddr name len configured t), t)"

fun owner_run :: "owner_call list \<Rightarrow> fake_ip_table \<Rightarrow> owner_answer list \<times> fake_ip_table" where
  "owner_run [] t = ([], t)"
| "owner_run (c # cs) t =
     (let (a, t1) = owner_step c t; (as, t2) = owner_run cs t1 in (a # as, t2))"

section \<open>What a call does to the table\<close>

fun table_ops :: "owner_call \<Rightarrow> fake_op list" where
  "table_ops (O_Alloc name) = [Alloc name]"
| "table_ops (O_Pin fake) = [Pin fake]"
| "table_ops (O_Unpin fake) = [Unpin fake]"
| "table_ops (O_Touched fake) = [Touched fake]"
| "table_ops (O_Touched_Sockaddr name len) =
     (if ar_in_range (read_fake_addr name len) then [Touched (ar_v4 (read_fake_addr name len))] else [])"
| "table_ops (O_Progress ticks) = [Progress ticks]"
| "table_ops (O_Exclude fake) = [Exclude fake]"
| "table_ops (O_Exclude_U32 v4_value) = [Exclude (fake_ip_from_u32 v4_value)]"
| "table_ops _ = []"

lemma alloc_for_table: "snd (alloc_for name t) = snd (alloc name t)"
  by (simp add: alloc_for_def split: prod.split option.split)

lemma owner_step_table: "snd (owner_step c t) = fake_run (table_ops c) t"
  by (cases c) (simp_all add: alloc_for_table owner_note_touched_sockaddr_def exclude_proxy_u32_def Let_def)

lemma fake_run_append [simp]: "fake_run (xs @ ys) t = fake_run ys (fake_run xs t)"
  by (simp add: fake_run_def)

lemma owner_run_table: "snd (owner_run cs t) = fake_run (concat (map table_ops cs)) t"
  by (induction cs arbitrary: t) (simp_all add: owner_step_table [symmetric] Let_def split: prod.split, metis snd_conv)

text \<open>How far calls can advance the quarantine clock.\<close>

definition owner_cost :: "owner_call list \<Rightarrow> nat" where
  "owner_cost cs = sum_list (map fake_cost (concat (map table_ops cs)))"

section \<open>Two threads\<close>

lemma pin_counts:
  assumes "table_wf t" and "lookup t a = Some n"
  shows "pins (snd (pin a t)) a = Suc (pins t a) \<and> lookup (snd (pin a t)) a = Some n"
  using assms(2)
proof (rule lookup_row)
  fix i assume i: "fake_ip_slot_of a = Some i" "i < FAKEIP_CAPACITY" "sl_name (slot_at t i) = n" "n \<noteq> []"
  let ?row = "(slot_at t i)\<lparr>sl_inflight := sl_inflight (slot_at t i) + 1\<rparr>"
  have o: "owned_slot t a = Some i" using i by (simp add: owned_slot_def)
  then have t: "snd (pin a t) = t\<lparr>ft_slots := (ft_slots t)[i := ?row]\<rparr>" by (simp add: pin_def)
  have row: "slot_at (snd (pin a t)) i = ?row" using i(2) assms(1) unfolding t table_wf_def by simp
  then have "owned_slot (snd (pin a t)) a = Some i" using i by (simp add: owned_slot_def)
  with o row i show ?thesis by (simp add: pins_def lookup_def)
qed

text \<open>The decision on a spelled address is the verdict on what the table answers.\<close>

lemma decide_spelled:
  assumes "len \<le> 128"
    and "buf = sockaddr_in_bytes a port @ tail \<and> 16 \<le> len \<or> buf = sockaddr_in6_mapped_bytes a port @ tail \<and> 28 \<le> len"
  shows "decide_sockaddr (Some buf) len pc t = fake_connect_verdict (fake_addr_read_of a port) (from_lookup (lookup t a)) pc"
proof -
  have "read_fake_addr (Some buf) len = fake_addr_read_of a port"
    using assms read_v4_spelling [of len a port tail] read_v6_spelling [of len a port tail] by auto
  then show ?thesis by (simp add: decide_sockaddr_def decide_pure)
qed

lemma issued_for:
  assumes "table_wf t" and "alloc_for name t = (Some r, t1)"
  shows "table_wf t1 \<and> in_fake_range (ar_v4 r) \<and> lookup t1 (ar_v4 r) = Some name \<and> name \<noteq> []"
proof -
  obtain a where a: "fst (alloc name t) = Some a" "t1 = snd (alloc name t)" "ar_v4 r = a"
    using assms(2) by (auto simp: alloc_for_def split: prod.splits option.splits)
  then have "lookup t1 a = Some name" using fakes.alloc_lookup [OF assms(1) a(1)] by simp
  moreover have "name \<noteq> []" using calculation lookup_nonempty by blast
  ultimately show ?thesis using a wf_alloc [OF assms(1)] fakes.alloc_range [OF assms(1) a(1)] by simp
qed



end
