(* ===== verification/Udp_Association.thy ===== *)
theory Udp_Association
  imports Sockaddr
begin

unbundle bit_operations_syntax

text \<open>
  The first half of src/injectee/udp_state.hpp: the endpoint codec of a UDP relay header and
  \<open>udp_association_table\<close>, 32 rows of socks5 UDP associations that are referred to by a slot
  and the generation that filled it. Generations and ticks are 64-bit words; reference counts
  are \<open>int\<close>.
\<close>

section \<open>Endpoints\<close>

definition UDP_ATYP_IPV4 :: u8 where
  "UDP_ATYP_IPV4 = 1"

definition UDP_ATYP_IPV6 :: u8 where
  "UDP_ATYP_IPV6 = 4"

record udp_endpoint =
  ep_atyp :: u8
  ep_octets :: "u8 list"
  ep_port :: u16

definition udp_endpoint_init :: udp_endpoint where
  "udp_endpoint_init = \<lparr>ep_atyp = 0, ep_octets = replicate 16 0, ep_port = 0\<rparr>"

definition udp_endpoint_length :: "u8 \<Rightarrow> nat option" where
  "udp_endpoint_length atyp =
     (if atyp = UDP_ATYP_IPV4 then Some 4
      else if atyp = UDP_ATYP_IPV6 then Some 16
      else None)"

definition udp_endpoint_decode :: "u8 \<Rightarrow> u8 list option \<Rightarrow> nat \<Rightarrow> udp_endpoint option" where
  "udp_endpoint_decode atyp bytes sz =
     (case udp_endpoint_length atyp of
        None \<Rightarrow> None
      | Some len \<Rightarrow>
          (case bytes of
             None \<Rightarrow> None
           | Some b \<Rightarrow>
               if sz \<noteq> len + 2 then None
               else Some \<lparr>ep_atyp = atyp,
                 ep_octets = fold (\<lambda>i o'. o'[i := b ! i]) [0..<len] (replicate 16 0),
                 ep_port = push_bit 8 (ucast (b ! len)) OR ucast (b ! (len + 1))\<rparr>))"

definition udp_endpoint_as_v4 :: "udp_endpoint \<Rightarrow> octets option" where
  "udp_endpoint_as_v4 endpoint =
     (if ep_atyp endpoint \<noteq> UDP_ATYP_IPV4 then None
      else Some (ep_octets endpoint ! 0, ep_octets endpoint ! 1, ep_octets endpoint ! 2,
                 ep_octets endpoint ! 3))"

text \<open>"Address then port, big endian", what a relay puts on the wire for an endpoint.\<close>

definition udp_endpoint_bytes :: "udp_endpoint \<Rightarrow> u8 list" where
  "udp_endpoint_bytes e =
     (case udp_endpoint_length (ep_atyp e) of
        None \<Rightarrow> []
      | Some len \<Rightarrow> take len (ep_octets e) @ [ucast (drop_bit 8 (ep_port e)), ucast (ep_port e)])"

definition udp_endpoint_wf :: "udp_endpoint \<Rightarrow> bool" where
  "udp_endpoint_wf e =
     (case udp_endpoint_length (ep_atyp e) of
        None \<Rightarrow> False
      | Some len \<Rightarrow> length (ep_octets e) = 16 \<and> drop len (ep_octets e) = replicate (16 - len) 0)"

lemma length_fold_update [simp]: "length (fold (\<lambda>i o'. o'[i := f i]) is xs) = length xs"
  by (induction "is" arbitrary: xs) simp_all

lemma fold_update_prefix:
  "n \<le> length xs \<Longrightarrow> fold (\<lambda>i o'. o'[i := f i]) [0..<n] xs = map f [0..<n] @ drop n xs"
proof (induction n)
  case (Suc n)
  then have "drop n xs = xs ! n # drop (Suc n) xs" by (simp add: Cons_nth_drop_Suc)
  with Suc show ?case by (simp add: list_update_append)
qed simp

lemma copied_octets:
  assumes "n \<le> 16" "n \<le> length b"
  shows "fold (\<lambda>i o'. o'[i := b ! i]) [0..<n] (replicate 16 0) = take n b @ replicate (16 - n) (0 :: u8)"
proof -
  have "map ((!) b) [0..<n] = take n b" using assms(2) by (intro nth_equalityI) simp_all
  with fold_update_prefix [of n "replicate 16 (0 :: u8)" "(!) b"] assms show ?thesis by simp
qed

lemma endpoint_length_le: "udp_endpoint_length a = Some n \<Longrightarrow> n = 4 \<or> n = 16"
  by (auto simp: udp_endpoint_length_def split: if_splits)

text \<open>Decoding is the inverse of the wire form, for exactly the endpoints a header may carry.\<close>

lemma decode_bytes:
  assumes "udp_endpoint_wf e"
  shows "udp_endpoint_decode (ep_atyp e) (Some (udp_endpoint_bytes e)) (length (udp_endpoint_bytes e)) = Some e"
proof -
  obtain len where len: "udp_endpoint_length (ep_atyp e) = Some len"
    and o16: "length (ep_octets e) = 16" and z: "drop len (ep_octets e) = replicate (16 - len) 0"
    using assms by (auto simp: udp_endpoint_wf_def split: option.splits)
  have le: "len \<le> 16" using endpoint_length_le [OF len] by auto
  have b: "udp_endpoint_bytes e = take len (ep_octets e) @ [ucast (drop_bit 8 (ep_port e)), ucast (ep_port e)]"
    by (simp add: udp_endpoint_bytes_def len)
  have "take len (ep_octets e) @ replicate (16 - len) 0 = ep_octets e"
    by (metis append_take_drop_id z)
  with len b le o16 copied_octets [of len "udp_endpoint_bytes e"] host_port_of_bytes [of "ep_port e"]
  show ?thesis by (simp add: udp_endpoint_decode_def nth_append)
qed

lemma decode_wf:
  assumes "udp_endpoint_decode a (Some b) (length b) = Some e"
  shows "udp_endpoint_wf e \<and> ep_atyp e = a \<and> udp_endpoint_bytes e = b"
proof -
  obtain len where len: "udp_endpoint_length a = Some len"
    using assms by (auto simp: udp_endpoint_decode_def split: option.splits)
  have le: "len \<le> 16" using endpoint_length_le [OF len] by auto
  from assms len have lb: "length b = len + 2"
    and e: "e = \<lparr>ep_atyp = a, ep_octets = take len b @ replicate (16 - len) 0,
      ep_port = push_bit 8 (ucast (b ! len)) OR ucast (b ! (len + 1))\<rparr>"
    using copied_octets [of len b] le by (auto simp: udp_endpoint_decode_def split: if_splits)
  have hi: "(ucast (drop_bit 8 (push_bit 8 (ucast x)) OR drop_bit 8 (ucast y :: u16)) :: u8) = x"
    and lo: "(ucast (push_bit 8 (ucast x) OR ucast y :: u16) :: u8) = y" for x y :: u8
    by (auto intro!: bit_word_eqI simp: bit_simps dest: bit_imp_le_length)
  have "b = take len b @ [b ! len, b ! (len + 1)]"
    using lb by (intro nth_equalityI) (auto simp: nth_append less_Suc_eq)
  then have "take len b @ [b ! len, b ! Suc len] = b" by simp
  with e len lb le show ?thesis
    by (simp add: udp_endpoint_wf_def udp_endpoint_bytes_def hi lo)
qed

section \<open>Associations\<close>

definition UDP_ASSOCIATION_MAX :: nat where
  "UDP_ASSOCIATION_MAX = 32"

definition UDP_IDLE_LIMIT_TICKS :: u64 where
  "UDP_IDLE_LIMIT_TICKS = 30"

definition UDP_NO_ROW :: nat where
  "UDP_NO_ROW = 2 ^ 64 - 1"

record udp_association =
  as_control :: uintptr
  as_relay :: uintptr
  as_bound :: udp_endpoint
  as_refcount :: int
  as_generation :: u64
  as_last_use :: u64

definition udp_association_init :: udp_association where
  "udp_association_init = \<lparr>as_control = 0, as_relay = 0, as_bound = udp_endpoint_init,
     as_refcount = 0, as_generation = 0, as_last_use = 0\<rparr>"

record udp_association_ref =
  rf_slot :: nat
  rf_generation :: u64

definition ref_init :: udp_association_ref where
  "ref_init = \<lparr>rf_slot = UDP_NO_ROW, rf_generation = 0\<rparr>"

definition ref_valid :: "udp_association_ref \<Rightarrow> bool" where
  "ref_valid r = (rf_slot r \<noteq> UDP_NO_ROW)"

record assoc_row =
  rw_state :: udp_association
  rw_used :: bool
  rw_generation :: u64

record assoc_table =
  at_rows :: "assoc_row list"
  at_live :: nat

definition assoc_table_new :: assoc_table where
  "assoc_table_new = \<lparr>at_rows = replicate UDP_ASSOCIATION_MAX
     \<lparr>rw_state = udp_association_init, rw_used = False, rw_generation = 0\<rparr>, at_live = 0\<rparr>"

definition assoc_find :: "uintptr \<Rightarrow> assoc_table \<Rightarrow> nat option" where
  "assoc_find control t =
     scan (\<lambda>i. rw_used (at_rows t ! i) \<and> as_control (rw_state (at_rows t ! i)) = control) (length (at_rows t))"

definition assoc_free :: "assoc_table \<Rightarrow> nat option" where
  "assoc_free t = scan (\<lambda>i. \<not> rw_used (at_rows t ! i)) (length (at_rows t))"

definition assoc_open ::
  "uintptr \<Rightarrow> uintptr \<Rightarrow> udp_endpoint \<Rightarrow> u64 \<Rightarrow> assoc_table \<Rightarrow> udp_association_ref \<times> assoc_table" where
  "assoc_open control relay bound tick t =
     (case assoc_find control t of
        Some i \<Rightarrow>
          let row = at_rows t ! i in
          (\<lparr>rf_slot = i, rf_generation = rw_generation row\<rparr>,
           t\<lparr>at_rows := (at_rows t)[i := row\<lparr>rw_state := (rw_state row)\<lparr>as_last_use := tick\<rparr>\<rparr>]\<rparr>)
      | None \<Rightarrow>
          (case assoc_free t of
             Some i \<Rightarrow>
               let row = at_rows t ! i;
                   state = udp_association_init\<lparr>as_control := control, as_relay := relay,
                     as_bound := bound, as_last_use := tick\<rparr>;
                   gen = rw_generation row + 1
               in (\<lparr>rf_slot = i, rf_generation = gen\<rparr>,
                   t\<lparr>at_rows := (at_rows t)[i := \<lparr>rw_state = state, rw_used = True, rw_generation = gen\<rparr>],
                     at_live := at_live t + 1\<rparr>)
           | None \<Rightarrow> (ref_init, t)))"

definition assoc_row_of :: "udp_association_ref \<Rightarrow> assoc_table \<Rightarrow> udp_association option" where
  "assoc_row_of r t =
     (if \<not> ref_valid r \<or> rf_slot r \<ge> length (at_rows t) then None
      else let row = at_rows t ! rf_slot r in
        if \<not> rw_used row \<or> rw_generation row \<noteq> rf_generation r then None
        else Some (rw_state row))"

abbreviation set_state :: "nat \<Rightarrow> udp_association \<Rightarrow> assoc_table \<Rightarrow> assoc_table" where
  "set_state i s t \<equiv> t\<lparr>at_rows := (at_rows t)[i := (at_rows t ! i)\<lparr>rw_state := s\<rparr>]\<rparr>"

definition assoc_get :: "udp_association_ref \<Rightarrow> assoc_table \<Rightarrow> udp_association option" where
  "assoc_get r t = assoc_row_of r t"

definition assoc_touch :: "udp_association_ref \<Rightarrow> u64 \<Rightarrow> assoc_table \<Rightarrow> assoc_table" where
  "assoc_touch r tick t =
     (case assoc_row_of r t of None \<Rightarrow> t | Some s \<Rightarrow> set_state (rf_slot r) (s\<lparr>as_last_use := tick\<rparr>) t)"

definition assoc_acquire :: "udp_association_ref \<Rightarrow> assoc_table \<Rightarrow> bool \<times> assoc_table" where
  "assoc_acquire r t =
     (case assoc_row_of r t of
        None \<Rightarrow> (False, t)
      | Some s \<Rightarrow> (True, set_state (rf_slot r) (s\<lparr>as_refcount := as_refcount s + 1\<rparr>) t))"

definition close_row :: "nat \<Rightarrow> assoc_table \<Rightarrow> assoc_table" where
  "close_row i t = t\<lparr>at_rows := (at_rows t)[i :=
     (at_rows t ! i)\<lparr>rw_state := udp_association_init, rw_used := False\<rparr>], at_live := at_live t - 1\<rparr>"

definition assoc_release ::
  "udp_association_ref \<Rightarrow> u64 \<Rightarrow> assoc_table \<Rightarrow> udp_association option \<times> assoc_table" where
  "assoc_release r tick t =
     (case assoc_row_of r t of
        None \<Rightarrow> (None, t)
      | Some s \<Rightarrow>
          let s1 = (if as_refcount s > 0 then s\<lparr>as_refcount := as_refcount s - 1\<rparr> else s) in
          if as_refcount s1 > 0 then (None, set_state (rf_slot r) (s1\<lparr>as_last_use := tick\<rparr>) t)
          else (Some s1, close_row (rf_slot r) t))"

definition row_idle :: "u64 \<Rightarrow> assoc_row \<Rightarrow> bool" where
  "row_idle tick row =
     (if \<not> rw_used row \<or> as_refcount (rw_state row) > 0 then False
      else if tick < as_last_use (rw_state row) then False
      else if tick - as_last_use (rw_state row) < UDP_IDLE_LIMIT_TICKS then False
      else True)"

fun reap_rows :: "nat list \<Rightarrow> u64 \<Rightarrow> assoc_table \<Rightarrow> udp_association list \<times> assoc_table" where
  "reap_rows [] tick t = ([], t)"
| "reap_rows (i # is) tick t =
     (if \<not> row_idle tick (at_rows t ! i) then reap_rows is tick t
      else let (died, t') = reap_rows is tick (close_row i t) in (rw_state (at_rows t ! i) # died, t'))"

definition reap_idle :: "u64 \<Rightarrow> assoc_table \<Rightarrow> udp_association list \<times> assoc_table" where
  "reap_idle tick t = reap_rows [0..<length (at_rows t)] tick t"

datatype assoc_op =
    Open uintptr uintptr udp_endpoint u64
  | Touch udp_association_ref u64
  | Acquire udp_association_ref
  | Release udp_association_ref u64
  | Reap u64

fun assoc_step :: "assoc_op \<Rightarrow> assoc_table \<Rightarrow> assoc_table" where
  "assoc_step (Open c r b k) t = snd (assoc_open c r b k t)"
| "assoc_step (Touch r k) t = assoc_touch r k t"
| "assoc_step (Acquire r) t = snd (assoc_acquire r t)"
| "assoc_step (Release r k) t = snd (assoc_release r k t)"
| "assoc_step (Reap k) t = snd (reap_idle k t)"

definition assoc_run :: "assoc_op list \<Rightarrow> assoc_table \<Rightarrow> assoc_table" where
  "assoc_run ops t = fold assoc_step ops t"

lemma assoc_run_simps [simp]:
  "assoc_run [] t = t" "assoc_run (x # xs) t = assoc_run xs (assoc_step x t)"
  by (simp_all add: assoc_run_def)

section \<open>Well-formedness\<close>

definition assoc_wf :: "assoc_table \<Rightarrow> bool" where
  "assoc_wf t \<longleftrightarrow>
     length (at_rows t) = UDP_ASSOCIATION_MAX \<and>
     at_live t = count_rows rw_used (at_rows t) \<and>
     keys_unique rw_used (\<lambda>r. as_control (rw_state r)) (at_rows t) \<and>
     (\<forall>i<UDP_ASSOCIATION_MAX. \<not> rw_used (at_rows t ! i) \<longrightarrow> rw_state (at_rows t ! i) = udp_association_init) \<and>
     (\<forall>i<UDP_ASSOCIATION_MAX. 0 \<le> as_refcount (rw_state (at_rows t ! i)))"

lemma assoc_wf_length [simp]: "assoc_wf t \<Longrightarrow> length (at_rows t) = UDP_ASSOCIATION_MAX"
  by (simp add: assoc_wf_def)

lemma assoc_wf_refcount: "assoc_wf t \<Longrightarrow> i < UDP_ASSOCIATION_MAX \<Longrightarrow> 0 \<le> as_refcount (rw_state (at_rows t ! i))"
  unfolding assoc_wf_def by simp

lemma init_refcount [simp]: "as_refcount udp_association_init = 0"
  by (simp add: udp_association_init_def)

lemma wf_assoc_new: "assoc_wf assoc_table_new"
  unfolding assoc_wf_def assoc_table_new_def by (simp add: keys_unique_replicate)

lemma wf_set_state:
  assumes wf: "assoc_wf t" and i: "i < UDP_ASSOCIATION_MAX" "rw_used (at_rows t ! i)"
    and s: "as_control s = as_control (rw_state (at_rows t ! i))" "0 \<le> as_refcount s"
  shows "assoc_wf (set_state i s t)"
proof -
  have "keys_unique rw_used (\<lambda>r. as_control (rw_state r)) ((at_rows t)[i := (at_rows t ! i)\<lparr>rw_state := s\<rparr>])"
  proof (rule keys_unique_update)
    fix j assume "j < length (at_rows t)" "j \<noteq> i" "rw_used (at_rows t ! j)"
    with keys_uniqueD [of rw_used "\<lambda>r. as_control (rw_state r)" "at_rows t" j i] wf i s
    show "as_control (rw_state (at_rows t ! j)) \<noteq> as_control (rw_state ((at_rows t ! i)\<lparr>rw_state := s\<rparr>))"
      by (auto simp: assoc_wf_def)
  qed (use wf i in \<open>auto simp: assoc_wf_def\<close>)
  with assms show ?thesis unfolding assoc_wf_def by (auto simp: nth_update)
qed

lemma wf_close_row:
  assumes wf: "assoc_wf t" and i: "i < UDP_ASSOCIATION_MAX" "rw_used (at_rows t ! i)"
  shows "assoc_wf (close_row i t)"
proof -
  have "keys_unique rw_used (\<lambda>r. as_control (rw_state r))
    ((at_rows t)[i := (at_rows t ! i)\<lparr>rw_state := udp_association_init, rw_used := False\<rparr>])"
    by (rule keys_unique_update) (use wf i in \<open>auto simp: assoc_wf_def\<close>)
  moreover have "at_live t - 1 = count_rows rw_used
      ((at_rows t)[i := (at_rows t ! i)\<lparr>rw_state := udp_association_init, rw_used := False\<rparr>])"
    using count_rows_clear [of i "at_rows t" rw_used "(at_rows t ! i)\<lparr>rw_state := udp_association_init, rw_used := False\<rparr>"] wf i
    by (simp add: assoc_wf_def)
  ultimately show ?thesis using wf i unfolding assoc_wf_def close_row_def by (auto simp: nth_update)
qed

lemma assoc_find_Some: "assoc_wf t \<Longrightarrow> assoc_find c t = Some i \<Longrightarrow>
    i < UDP_ASSOCIATION_MAX \<and> rw_used (at_rows t ! i) \<and> as_control (rw_state (at_rows t ! i)) = c"
  by (auto simp: assoc_find_def)

lemma assoc_find_None: "assoc_wf t \<Longrightarrow> assoc_find c t = None \<longleftrightarrow>
    (\<forall>i<UDP_ASSOCIATION_MAX. rw_used (at_rows t ! i) \<longrightarrow> as_control (rw_state (at_rows t ! i)) \<noteq> c)"
  by (simp add: assoc_find_def scan_None_iff)

lemma assoc_free_Some: "assoc_wf t \<Longrightarrow> assoc_free t = Some i \<Longrightarrow>
    i < UDP_ASSOCIATION_MAX \<and> \<not> rw_used (at_rows t ! i)"
  by (auto simp: assoc_free_def)

lemma assoc_free_None: "assoc_wf t \<Longrightarrow> assoc_free t = None \<longleftrightarrow>
    (\<forall>i<UDP_ASSOCIATION_MAX. rw_used (at_rows t ! i))"
  by (simp add: assoc_free_def scan_None_iff)

lemma assoc_row_of_Some: "assoc_row_of r t = Some s \<longleftrightarrow>
    ref_valid r \<and> rf_slot r < length (at_rows t) \<and> rw_used (at_rows t ! rf_slot r) \<and>
    rw_generation (at_rows t ! rf_slot r) = rf_generation r \<and> s = rw_state (at_rows t ! rf_slot r)"
  by (auto simp: assoc_row_of_def Let_def)

lemma wf_assoc_open:
  assumes wf: "assoc_wf t"
  shows "assoc_wf (snd (assoc_open c r b k t))"
proof (cases "assoc_find c t")
  case (Some i)
  with assoc_find_Some [OF wf Some] wf_set_state [OF wf, of i "(rw_state (at_rows t ! i))\<lparr>as_last_use := k\<rparr>"]
  show ?thesis using assoc_wf_refcount [OF wf] by (simp add: assoc_open_def Let_def)
next
  case f: None
  show ?thesis
  proof (cases "assoc_free t")
    case None
    with f wf show ?thesis by (simp add: assoc_open_def)
  next
    case (Some i)
    then have i: "i < UDP_ASSOCIATION_MAX" "\<not> rw_used (at_rows t ! i)" using assoc_free_Some [OF wf] by auto
    have "as_control (rw_state (at_rows t ! j)) \<noteq> c" if "j < UDP_ASSOCIATION_MAX" "rw_used (at_rows t ! j)" for j
      using f assoc_find_None [OF wf] that by blast
    then have "keys_unique rw_used (\<lambda>r. as_control (rw_state r)) ((at_rows t)[i :=
        \<lparr>rw_state = udp_association_init\<lparr>as_control := c, as_relay := r, as_bound := b, as_last_use := k\<rparr>,
         rw_used = True, rw_generation = g\<rparr>])" for g
      using wf i by (intro keys_unique_update) (auto simp: assoc_wf_def)
    with wf i f Some show ?thesis
      unfolding assoc_wf_def assoc_open_def Let_def by (auto simp: nth_update)
  qed
qed

lemma wf_row_op:
  assumes "assoc_wf t" "assoc_row_of r t = Some s" "as_control s' = as_control s" "0 \<le> as_refcount s'"
  shows "assoc_wf (set_state (rf_slot r) s' t)"
  using assms by (intro wf_set_state) (auto simp: assoc_row_of_Some)

lemma assoc_row_refcount: "assoc_wf t \<Longrightarrow> assoc_row_of r t = Some s \<Longrightarrow> 0 \<le> as_refcount s"
  using assoc_wf_refcount by (auto simp: assoc_row_of_Some)

lemma wf_assoc_touch: "assoc_wf t \<Longrightarrow> assoc_wf (assoc_touch r k t)"
  by (auto simp: assoc_touch_def assoc_row_refcount intro!: wf_row_op split: option.split)

lemma wf_assoc_acquire: "assoc_wf t \<Longrightarrow> assoc_wf (snd (assoc_acquire r t))"
  by (auto simp: assoc_acquire_def dest: assoc_row_refcount intro!: wf_row_op split: option.split)

lemma wf_assoc_release: "assoc_wf t \<Longrightarrow> assoc_wf (snd (assoc_release r k t))"
  by (auto simp: assoc_release_def Let_def assoc_row_of_Some intro!: wf_row_op wf_close_row split: option.split)

lemma wf_reap_rows: "assoc_wf t \<Longrightarrow> set is \<subseteq> {..<UDP_ASSOCIATION_MAX} \<Longrightarrow> assoc_wf (snd (reap_rows is k t))"
proof (induction "is" arbitrary: t)
  case (Cons i "is")
  then show ?case
    by (auto simp: row_idle_def wf_close_row split: prod.split) (metis snd_conv wf_close_row)
qed simp

lemma wf_reap_idle: "assoc_wf t \<Longrightarrow> assoc_wf (snd (reap_idle k t))"
  unfolding reap_idle_def by (rule wf_reap_rows) auto

lemma wf_assoc_step: "assoc_wf t \<Longrightarrow> assoc_wf (assoc_step x t)"
  by (cases x) (simp_all add: wf_assoc_open wf_assoc_touch wf_assoc_acquire wf_assoc_release wf_reap_idle)

interpretation assoc_steps: invariant_steps assoc_step assoc_wf assoc_table_new
  by unfold_locales (simp_all add: wf_assoc_step wf_assoc_new)

lemma wf_assoc_run: "assoc_wf t \<Longrightarrow> assoc_wf (assoc_run ops t)"
  unfolding assoc_run_def by (rule assoc_steps.kept_inv)

section \<open>What one operation does to one row\<close>

definition row_same :: "assoc_table \<Rightarrow> nat \<Rightarrow> assoc_table \<Rightarrow> bool" where
  "row_same t j t' \<longleftrightarrow> rw_used (at_rows t' ! j) = rw_used (at_rows t ! j) \<and>
     rw_generation (at_rows t' ! j) = rw_generation (at_rows t ! j) \<and>
     as_control (rw_state (at_rows t' ! j)) = as_control (rw_state (at_rows t ! j)) \<and>
     as_relay (rw_state (at_rows t' ! j)) = as_relay (rw_state (at_rows t ! j)) \<and>
     as_bound (rw_state (at_rows t' ! j)) = as_bound (rw_state (at_rows t ! j))"

definition row_opened :: "assoc_table \<Rightarrow> nat \<Rightarrow> assoc_table \<Rightarrow> bool" where
  "row_opened t j t' \<longleftrightarrow> \<not> rw_used (at_rows t ! j) \<and> rw_used (at_rows t' ! j) \<and>
     rw_generation (at_rows t' ! j) = rw_generation (at_rows t ! j) + 1"

definition row_closed :: "assoc_table \<Rightarrow> nat \<Rightarrow> assoc_table \<Rightarrow> bool" where
  "row_closed t j t' \<longleftrightarrow> rw_used (at_rows t ! j) \<and> \<not> rw_used (at_rows t' ! j) \<and>
     rw_generation (at_rows t' ! j) = rw_generation (at_rows t ! j)"

lemma close_row_at: "j < length (at_rows t) \<Longrightarrow> at_rows (close_row i t) ! j =
    (if i = j then (at_rows t ! i)\<lparr>rw_state := udp_association_init, rw_used := False\<rparr> else at_rows t ! j)"
  by (simp add: close_row_def nth_update)

lemma close_row_length [simp]: "length (at_rows (close_row i t)) = length (at_rows t)"
  by (simp add: close_row_def)

text \<open>The reaping loop touches each row once, so its result is known row by row.\<close>

abbreviation reaped :: "u64 \<Rightarrow> nat list \<Rightarrow> assoc_table \<Rightarrow> udp_association list" where
  "reaped k is t \<equiv> map (\<lambda>i. rw_state (at_rows t ! i)) (filter (\<lambda>i. row_idle k (at_rows t ! i)) is)"

abbreviation closed_row :: "assoc_row \<Rightarrow> assoc_row" where
  "closed_row r \<equiv> r\<lparr>rw_state := udp_association_init, rw_used := False\<rparr>"

lemma reap_rows_result:
  assumes "distinct is" "set is \<subseteq> {..<length (at_rows t)}"
  shows "length (at_rows (snd (reap_rows is k t))) = length (at_rows t) \<and>
    (\<forall>j<length (at_rows t). at_rows (snd (reap_rows is k t)) ! j =
      (if j \<in> set is \<and> row_idle k (at_rows t ! j) then closed_row (at_rows t ! j) else at_rows t ! j)) \<and>
    fst (reap_rows is k t) = reaped k is t"
  using assms
proof (induction "is" arbitrary: t)
  case (Cons i "is")
  show ?case
  proof (cases "row_idle k (at_rows t ! i)")
    case False
    with Cons.IH [of t] Cons.prems show ?thesis by auto
  next
    case True
    have c: "reaped k is (close_row i t) = reaped k is t"
    proof (rule map_filter_cong)
      fix m assume "m \<in> set is"
      then have "at_rows (close_row i t) ! m = at_rows t ! m" using Cons.prems by (auto simp: close_row_at)
      then show "row_idle k (at_rows (close_row i t) ! m) = row_idle k (at_rows t ! m)"
        "rw_state (at_rows (close_row i t) ! m) = rw_state (at_rows t ! m)" by simp_all
    qed
    have r: "reap_rows (i # is) k t = (rw_state (at_rows t ! i) # fst (reap_rows is k (close_row i t)),
        snd (reap_rows is k (close_row i t)))"
      using True by (simp add: case_prod_unfold Let_def)
    from Cons.IH [of "close_row i t"] Cons.prems True show ?thesis
      unfolding r by (auto simp: close_row_at c)
  qed
qed simp

lemma reap_idle_row:
  assumes "assoc_wf t" "j < UDP_ASSOCIATION_MAX"
  shows "at_rows (snd (reap_idle k t)) ! j =
    (if row_idle k (at_rows t ! j) then closed_row (at_rows t ! j) else at_rows t ! j)"
  using reap_rows_result [of "[0..<length (at_rows t)]" t k] assms
  by (simp add: reap_idle_def lessThan_atLeast0)

lemma reap_idle_died: "fst (reap_idle k t) = reaped k [0..<length (at_rows t)] t"
  using reap_rows_result [of "[0..<length (at_rows t)]" t k] by (simp add: reap_idle_def lessThan_atLeast0)

lemma row_same_set_state:
  "j < length (at_rows t) \<Longrightarrow> as_control s = as_control (rw_state (at_rows t ! i)) \<Longrightarrow>
   as_relay s = as_relay (rw_state (at_rows t ! i)) \<Longrightarrow> as_bound s = as_bound (rw_state (at_rows t ! i)) \<Longrightarrow>
   row_same t j (set_state i s t)"
  by (simp add: row_same_def nth_update)

lemma row_same_refl [simp]: "row_same t j t"
  by (simp add: row_same_def)

lemma open_row:
  assumes wf: "assoc_wf t" and j: "j < UDP_ASSOCIATION_MAX"
  shows "row_same t j (snd (assoc_open c r b k t)) \<or> row_opened t j (snd (assoc_open c r b k t))"
proof (cases "assoc_find c t")
  case (Some i)
  with wf j show ?thesis by (simp add: assoc_open_def Let_def row_same_set_state)
next
  case f: None
  show ?thesis
  proof (cases "assoc_free t")
    case (Some i)
    with f wf j assoc_free_Some [OF wf Some] show ?thesis
      by (auto simp: assoc_open_def Let_def row_same_def row_opened_def nth_update)
  qed (simp add: assoc_open_def f)
qed

lemma release_row:
  assumes wf: "assoc_wf t" and j: "j < UDP_ASSOCIATION_MAX"
  shows "row_same t j (snd (assoc_release r k t)) \<or>
    row_closed t j (snd (assoc_release r k t)) \<and> assoc_row_of r t \<noteq> None \<and> j = rf_slot r"
proof (cases "assoc_row_of r t")
  case (Some s)
  then have s: "rf_slot r < UDP_ASSOCIATION_MAX" "rw_used (at_rows t ! rf_slot r)"
      "s = rw_state (at_rows t ! rf_slot r)"
    using wf by (simp_all add: assoc_row_of_Some)
  show ?thesis
  proof (cases "as_refcount s > 1")
    case True
    with Some wf j s show ?thesis
      by (simp add: assoc_release_def Let_def row_same_set_state)
  next
    case False
    then have "snd (assoc_release r k t) = close_row (rf_slot r) t"
      using Some by (simp add: assoc_release_def Let_def)
    with s wf j Some show ?thesis by (auto simp: row_same_def row_closed_def close_row_at)
  qed
qed (simp add: assoc_release_def)

lemma reap_row: "assoc_wf t \<Longrightarrow> j < UDP_ASSOCIATION_MAX \<Longrightarrow>
    row_same t j (snd (reap_idle k t)) \<or> row_closed t j (snd (reap_idle k t))"
  by (auto simp: reap_idle_row row_same_def row_closed_def row_idle_def split: if_splits)

lemma touch_row: "assoc_wf t \<Longrightarrow> j < UDP_ASSOCIATION_MAX \<Longrightarrow> row_same t j (assoc_touch r k t)"
  by (auto simp: assoc_touch_def assoc_row_of_Some intro!: row_same_set_state split: option.split)

lemma acquire_row: "assoc_wf t \<Longrightarrow> j < UDP_ASSOCIATION_MAX \<Longrightarrow> row_same t j (snd (assoc_acquire r t))"
  by (auto simp: assoc_acquire_def assoc_row_of_Some intro!: row_same_set_state split: option.split)

lemma assoc_step_row:
  assumes "assoc_wf t" "j < UDP_ASSOCIATION_MAX"
  shows "row_same t j (assoc_step x t) \<or> row_opened t j (assoc_step x t) \<or> row_closed t j (assoc_step x t)"
proof (cases x)
  case (Open c r b k)
  with open_row [OF assms, of c r b k] show ?thesis by auto
next
  case (Release r k)
  with release_row [OF assms, of r k] show ?thesis by auto
next
  case (Reap k)
  with reap_row [OF assms, of k] show ?thesis by auto
qed (use assms touch_row acquire_row in simp_all)

section \<open>Dead references stay dead\<close>

definition ref_dead :: "assoc_table \<Rightarrow> udp_association_ref \<Rightarrow> bool" where
  "ref_dead t r \<longleftrightarrow>
     rf_generation r < rw_generation (at_rows t ! rf_slot r) \<or>
     rf_generation r = rw_generation (at_rows t ! rf_slot r) \<and> \<not> rw_used (at_rows t ! rf_slot r)"

text \<open>\<open>gen_bound t j n\<close>: row \<open>j\<close> can be opened \<open>n\<close> more times before its generation wraps.\<close>

definition gen_bound :: "assoc_table \<Rightarrow> nat \<Rightarrow> nat \<Rightarrow> bool" where
  "gen_bound t j n \<longleftrightarrow> unat (rw_generation (at_rows t ! j)) + n < 2 ^ 64"

lemma gen_step:
  assumes "assoc_wf t" "j < UDP_ASSOCIATION_MAX" "gen_bound t j (Suc n)"
  shows "gen_bound (assoc_step x t) j n"
    and "rw_generation (at_rows t ! j) \<le> rw_generation (at_rows (assoc_step x t) ! j)"
    and "rw_used (at_rows (assoc_step x t) ! j) \<Longrightarrow> \<not> rw_used (at_rows t ! j) \<Longrightarrow>
      rw_generation (at_rows t ! j) < rw_generation (at_rows (assoc_step x t) ! j)"
proof -
  have u: "unat (rw_generation (at_rows t ! j) + 1) = unat (rw_generation (at_rows t ! j)) + 1"
    using assms(3) unfolding gen_bound_def by (subst unat_word_ariths) simp
  from assoc_step_row [OF assms(1,2), of x] show "gen_bound (assoc_step x t) j n"
    using assms(3) u unfolding gen_bound_def row_same_def row_opened_def row_closed_def by auto
  from assoc_step_row [OF assms(1,2), of x]
  show "rw_generation (at_rows t ! j) \<le> rw_generation (at_rows (assoc_step x t) ! j)"
    using u unfolding row_same_def row_opened_def row_closed_def by (auto simp: word_le_nat_alt)
  show "rw_generation (at_rows t ! j) < rw_generation (at_rows (assoc_step x t) ! j)"
    if "rw_used (at_rows (assoc_step x t) ! j)" "\<not> rw_used (at_rows t ! j)"
    using assoc_step_row [OF assms(1,2), of x] that u
    unfolding row_same_def row_opened_def row_closed_def by (auto simp: word_less_nat_alt)
qed

lemma ref_dead_step:
  assumes "assoc_wf t" "rf_slot r < UDP_ASSOCIATION_MAX" "gen_bound t (rf_slot r) (Suc n)" "ref_dead t r"
  shows "ref_dead (assoc_step x t) r"
  using assms(4) unfolding ref_dead_def
proof
  assume "rf_generation r < rw_generation (at_rows t ! rf_slot r)"
  with gen_step(2) [OF assms(1-3), of x]
  have "rf_generation r < rw_generation (at_rows (assoc_step x t) ! rf_slot r)" by (rule order_less_le_trans [rotated])
  then show "rf_generation r < rw_generation (at_rows (assoc_step x t) ! rf_slot r) \<or>
      rf_generation r = rw_generation (at_rows (assoc_step x t) ! rf_slot r) \<and>
      \<not> rw_used (at_rows (assoc_step x t) ! rf_slot r)" ..
next
  assume e: "rf_generation r = rw_generation (at_rows t ! rf_slot r) \<and> \<not> rw_used (at_rows t ! rf_slot r)"
  show "rf_generation r < rw_generation (at_rows (assoc_step x t) ! rf_slot r) \<or>
      rf_generation r = rw_generation (at_rows (assoc_step x t) ! rf_slot r) \<and>
      \<not> rw_used (at_rows (assoc_step x t) ! rf_slot r)"
    using gen_step(2) [OF assms(1-3), of x] gen_step(3) [OF assms(1-3), of x] e
    by (cases "rw_used (at_rows (assoc_step x t) ! rf_slot r)") (auto simp: le_less)
qed

lemma ref_dead_run:
  "assoc_wf t \<Longrightarrow> rf_slot r < UDP_ASSOCIATION_MAX \<Longrightarrow> gen_bound t (rf_slot r) (length ops) \<Longrightarrow> ref_dead t r \<Longrightarrow>
     ref_dead (assoc_run ops t) r"
proof (induction ops arbitrary: t)
  case (Cons x ops)
  then have "assoc_wf (assoc_step x t)" "gen_bound (assoc_step x t) (rf_slot r) (length ops)" "ref_dead (assoc_step x t) r"
    using gen_step(1) ref_dead_step wf_assoc_step by simp_all
  with Cons.IH Cons.prems show ?case by simp
qed simp

lemma gen_run:
  "assoc_wf t \<Longrightarrow> j < UDP_ASSOCIATION_MAX \<Longrightarrow> gen_bound t j (length ops + n) \<Longrightarrow>
     gen_bound (assoc_run ops t) j n \<and> rw_generation (at_rows t ! j) \<le> rw_generation (at_rows (assoc_run ops t) ! j)"
proof (induction ops arbitrary: t)
  case (Cons x ops)
  then have s: "gen_bound t j (Suc (length ops + n))" by simp
  note g = gen_step(1,2) [OF Cons.prems(1,2) s, of x]
  with Cons.IH [of "assoc_step x t"] Cons.prems show ?case by (auto simp: wf_assoc_step intro: order.trans)
qed simp

lemma ref_dead_get: "ref_dead t r \<Longrightarrow> assoc_get r t = None"
  by (auto simp: ref_dead_def assoc_get_def assoc_row_of_def Let_def)

section \<open>Held references\<close>

lemma release_held:
  "assoc_row_of r t = Some s \<Longrightarrow> 1 < as_refcount s \<Longrightarrow>
     assoc_release r k t = (None, set_state (rf_slot r) (s\<lparr>as_refcount := as_refcount s - 1, as_last_use := k\<rparr>) t)"
  by (simp add: assoc_release_def Let_def)

lemma release_last:
  "assoc_row_of r t = Some s \<Longrightarrow> 0 \<le> as_refcount s \<Longrightarrow> as_refcount s \<le> 1 \<Longrightarrow>
     assoc_release r k t = (Some (s\<lparr>as_refcount := 0\<rparr>), close_row (rf_slot r) t)"
  by (simp add: assoc_release_def Let_def)

lemma release_other:
  "rf_slot r \<noteq> j \<Longrightarrow> j < length (at_rows t) \<Longrightarrow> at_rows (snd (assoc_release r k t)) ! j = at_rows t ! j"
  by (auto simp: assoc_release_def Let_def close_row_at nth_update split: option.split)

fun releases_of :: "udp_association_ref \<Rightarrow> assoc_op list \<Rightarrow> nat" where
  "releases_of r [] = 0"
| "releases_of r (Release r' k # ops) = (if r = r' then Suc (releases_of r ops) else releases_of r ops)"
| "releases_of r (_ # ops) = releases_of r ops"

definition same_association :: "udp_association \<Rightarrow> udp_association \<Rightarrow> bool" where
  "same_association s s' \<longleftrightarrow>
     as_control s' = as_control s \<and> as_relay s' = as_relay s \<and> as_bound s' = as_bound s"

lemma held_step:
  assumes wf: "assoc_wf t" and s: "assoc_row_of r t = Some s"
    and held: "int (releases_of r (x # ops)) < as_refcount s"
  shows "\<exists>s'. assoc_row_of r (assoc_step x t) = Some s' \<and> same_association s s' \<and>
    int (releases_of r ops) < as_refcount s'"
proof -
  have r: "ref_valid r" "rf_slot r < UDP_ASSOCIATION_MAX" "rw_used (at_rows t ! rf_slot r)"
      "rw_generation (at_rows t ! rf_slot r) = rf_generation r" and st: "s = rw_state (at_rows t ! rf_slot r)"
    using s wf by (simp_all add: assoc_row_of_Some)
  have pos: "0 < as_refcount s" using held by (cases x) (auto split: if_splits)
  have other: "rf_slot r' = rf_slot r \<Longrightarrow> assoc_row_of r' t \<noteq> None \<Longrightarrow> r' = r" for r'
    using r by (auto simp: assoc_row_of_Some)
  show ?thesis
  proof (cases x)
    case (Open c y b k)
    show ?thesis
    proof (cases "assoc_find c t")
      case (Some i)
      with Open r st held wf show ?thesis
        by (auto simp: assoc_open_def Let_def assoc_row_of_Some nth_update same_association_def)
    next
      case f: None
      show ?thesis
      proof (cases "assoc_free t")
        case None
        with f Open s held show ?thesis by (simp add: assoc_open_def same_association_def)
      next
        case (Some i)
        then have "i \<noteq> rf_slot r" using assoc_free_Some [OF wf] r(3) by auto
        with f Some Open r st held wf show ?thesis
          by (auto simp: assoc_open_def Let_def assoc_row_of_Some nth_update same_association_def)
      qed
    qed
  next
    case (Touch r' k)
    with r st held wf other [of r'] show ?thesis
      by (auto simp: assoc_touch_def assoc_row_of_Some nth_update same_association_def split: option.split)
  next
    case (Acquire r')
    with r st held wf other [of r'] show ?thesis
      by (auto simp: assoc_acquire_def assoc_row_of_Some nth_update same_association_def split: option.split)
  next
    case (Release r' k)
    show ?thesis
    proof (cases "r' = r")
      case True
      with Release held have "1 < as_refcount s" by simp
      with release_held [OF s this, of k] Release True r st held wf show ?thesis
        by (auto simp: assoc_row_of_Some nth_update same_association_def)
    next
      case False
      show ?thesis
      proof (cases "assoc_row_of r' t")
        case None
        with Release False s held show ?thesis by (simp add: assoc_release_def same_association_def)
      next
        case (Some s')
        then have "rf_slot r' \<noteq> rf_slot r" using other [of r'] False by auto
        with Release False r st held wf wf_assoc_release [OF wf, of r' k] release_other [of r' "rf_slot r" t k]
        show ?thesis by (auto simp: assoc_row_of_Some same_association_def)
      qed
    qed
  next
    case (Reap k)
    have "\<not> row_idle k (at_rows t ! rf_slot r)" using pos st by (simp add: row_idle_def)
    then have "at_rows (snd (reap_idle k t)) ! rf_slot r = at_rows t ! rf_slot r"
      using reap_idle_row [OF wf r(2)] by simp
    with Reap r st held wf wf_reap_idle [OF wf, of k] show ?thesis
      by (auto simp: assoc_row_of_Some same_association_def)
  qed
qed

lemma held_run:
  "assoc_wf t \<Longrightarrow> assoc_row_of r t = Some s \<Longrightarrow> int (releases_of r ops) < as_refcount s \<Longrightarrow>
     \<exists>s'. assoc_row_of r (assoc_run ops t) = Some s' \<and> same_association s s'"
proof (induction ops arbitrary: t s)
  case (Cons x ops)
  from held_step [OF Cons.prems] obtain s' where s': "assoc_row_of r (assoc_step x t) = Some s'"
    "same_association s s'" "int (releases_of r ops) < as_refcount s'" by blast
  from Cons.IH [OF wf_assoc_step [OF Cons.prems(1)] s'(1,3)] s'(2) show ?case
    by (auto simp: same_association_def)
qed (simp add: same_association_def)

section \<open>Properties\<close>

text \<open>The association table stays consistent under every sequence of operations: 32 rows, the
  live counter counts the used ones, no control socket has two associations, a closed row
  keeps nothing of its last association.\<close>

theorem assoc_invariant: "assoc_wf (assoc_run ops assoc_table_new)"
  unfolding assoc_run_def by (rule assoc_steps.always_inv)

text \<open>Decoding an endpoint is exactly the inverse of its wire form: a decoded span is the
  wire form of what it decodes to, and the wire form of every v4 or v6 endpoint decodes back
  to it.\<close>

theorem endpoint_roundtrip:
  "(udp_endpoint_decode a (Some b) (length b) = Some e) =
     (udp_endpoint_wf e \<and> ep_atyp e = a \<and> udp_endpoint_bytes e = b)"
  using decode_wf decode_bytes by blast

text \<open>\<open>open\<close> gives a control socket one association: a held control socket gets its old
  association back, another one takes a free row with the relay and address it asked for, and
  only a table of 32 others refuses, unchanged.\<close>

theorem assoc_open_result:
  assumes wf: "assoc_wf t" and o': "assoc_open c relay b k t = (r, t')"
  shows "case assoc_find c t of
      Some i \<Rightarrow> assoc_get r t' = Some ((rw_state (at_rows t ! i))\<lparr>as_last_use := k\<rparr>) \<and> at_live t' = at_live t
    | None \<Rightarrow>
        if at_live t = UDP_ASSOCIATION_MAX then r = ref_init \<and> t' = t
        else assoc_get r t' = Some (udp_association_init\<lparr>as_control := c, as_relay := relay,
            as_bound := b, as_last_use := k\<rparr>) \<and> at_live t' = at_live t + 1 \<and> assoc_get r t = None"
proof -
  have nr: "i < UDP_ASSOCIATION_MAX \<Longrightarrow> i \<noteq> UDP_NO_ROW" for i
    by (simp add: UDP_NO_ROW_def UDP_ASSOCIATION_MAX_def)
  have full: "at_live t = UDP_ASSOCIATION_MAX \<longleftrightarrow> assoc_free t = None"
    using wf count_rows_full [of rw_used "at_rows t"] assoc_free_None [OF wf] unfolding assoc_wf_def by simp
  show ?thesis
  proof (cases "assoc_find c t")
    case (Some i)
    with assoc_find_Some [OF wf Some] o' nr wf show ?thesis
      by (auto simp: assoc_open_def Let_def assoc_get_def assoc_row_of_def ref_valid_def)
  next
    case f: None
    show ?thesis
    proof (cases "assoc_free t")
      case None
      with f o' full show ?thesis by (simp add: assoc_open_def)
    next
      case (Some i)
      with f o' full nr wf assoc_free_Some [OF wf Some] show ?thesis
        by (auto simp: assoc_open_def Let_def assoc_get_def assoc_row_of_def ref_valid_def)
    qed
  qed
qed

definition assoc_table_1 :: assoc_table where
  "assoc_table_1 = snd (assoc_open 7 9 udp_endpoint_init 100 assoc_table_new)"

definition assoc_ref_1 :: udp_association_ref where
  "assoc_ref_1 = \<lparr>rf_slot = 0, rf_generation = 1\<rparr>"

lemma assoc_open_new: "assoc_open 7 9 udp_endpoint_init 100 assoc_table_new = (assoc_ref_1, assoc_table_1)"
  by code_simp

abbreviation association_1 :: udp_association where
  "association_1 \<equiv> udp_association_init\<lparr>as_control := 7, as_relay := 9,
     as_bound := udp_endpoint_init, as_last_use := 100\<rparr>"

lemma assoc_table_1_row: "at_rows assoc_table_1 ! 0 = \<lparr>rw_state = association_1, rw_used = True, rw_generation = 1\<rparr>"
  by code_simp

lemma wf_assoc_table_1: "assoc_wf assoc_table_1"
  unfolding assoc_table_1_def by (intro wf_assoc_open wf_assoc_new)

lemma assoc_ref_1_row: "assoc_row_of assoc_ref_1 assoc_table_1 = Some association_1"
  using assoc_wf_length [OF wf_assoc_table_1]
  by (simp add: assoc_row_of_Some assoc_ref_1_def ref_valid_def UDP_NO_ROW_def UDP_ASSOCIATION_MAX_def assoc_table_1_row)

lemma assoc_open_result_witness:
  "assoc_get assoc_ref_1 assoc_table_1 = Some (udp_association_init\<lparr>as_control := 7, as_relay := 9,
     as_bound := udp_endpoint_init, as_last_use := 100\<rparr>)"
proof -
  have "assoc_find 7 assoc_table_new = None" "at_live assoc_table_new \<noteq> UDP_ASSOCIATION_MAX"
    by code_simp+
  with assoc_open_result [OF wf_assoc_new assoc_open_new] show ?thesis by simp
qed

text \<open>C37: A reference that was live and has died stays dead, whatever is opened, touched,
  released or reaped afterwards (before a row's 64-bit generation wraps): a recycled slot never
  answers for the association that held it before.\<close>

theorem stale_reference_stays_dead:
  assumes wf: "assoc_wf t" and live: "assoc_get r t = Some s" and dead: "assoc_get r (assoc_run ops t) = None"
    and fits: "unat (rf_generation r) + length ops + length later < 2 ^ 64"
  shows "assoc_get r (assoc_run later (assoc_run ops t)) = None"
proof -
  have r: "ref_valid r" "rf_slot r < UDP_ASSOCIATION_MAX" "rw_generation (at_rows t ! rf_slot r) = rf_generation r"
    using live wf by (simp_all add: assoc_get_def assoc_row_of_Some)
  then have g: "gen_bound t (rf_slot r) (length ops + length later)"
    using fits by (simp add: gen_bound_def)
  have "ref_dead (assoc_run ops t) r"
    using gen_run [OF wf r(2) g] dead r wf_assoc_run [OF wf, of ops]
    by (auto simp: ref_dead_def assoc_get_def assoc_row_of_def Let_def le_less split: if_splits)
  moreover have "gen_bound (assoc_run ops t) (rf_slot r) (length later)" using gen_run [OF wf r(2) g] ..
  ultimately show ?thesis using ref_dead_run [OF wf_assoc_run [OF wf] r(2)] ref_dead_get by blast
qed

lemma stale_reference_stays_dead_witness:
  "assoc_get assoc_ref_1 (assoc_run [Open 7 9 udp_endpoint_init 103] (assoc_run [Release assoc_ref_1 102] assoc_table_1)) = None"
proof (rule stale_reference_stays_dead [OF wf_assoc_table_1])
  show "assoc_get assoc_ref_1 assoc_table_1 = Some association_1" by (simp add: assoc_get_def assoc_ref_1_row)
  show "assoc_get assoc_ref_1 (assoc_run [Release assoc_ref_1 102] assoc_table_1) = None"
    using release_last [OF assoc_ref_1_row, of 102]
    by (simp add: assoc_get_def assoc_row_of_def assoc_ref_1_def close_row_at wf_assoc_table_1 UDP_ASSOCIATION_MAX_def)
qed (simp add: assoc_ref_1_def)

text \<open>An acquired association is never taken away: as long as it is released fewer times than
  it is held, every run of operations (further opens, reaping, releases of other references)
  leaves it reachable under the same reference, with the same sockets and bound address.\<close>

theorem held_association_survives:
  assumes "assoc_wf t" "assoc_get r t = Some s" "int (releases_of r ops) < as_refcount s"
  shows "\<exists>s'. assoc_get r (assoc_run ops t) = Some s' \<and> as_control s' = as_control s \<and>
    as_relay s' = as_relay s \<and> as_bound s' = as_bound s"
  using held_run [OF assms(1), of r s ops] assms(2,3) by (auto simp: assoc_get_def same_association_def)

lemma held_association_survives_witness:
  "\<exists>s'. assoc_get assoc_ref_1 (assoc_run [Reap 5000, Open 8 9 udp_endpoint_init 5001]
      (snd (assoc_acquire assoc_ref_1 assoc_table_1))) = Some s' \<and> as_control s' = 7 \<and> as_relay s' = 9 \<and>
    as_bound s' = udp_endpoint_init"
proof -
  have w: "assoc_wf (snd (assoc_acquire assoc_ref_1 assoc_table_1))" by (intro wf_assoc_acquire wf_assoc_table_1)
  have r: "rf_slot assoc_ref_1 = 0" "ref_valid assoc_ref_1" "rf_generation assoc_ref_1 = 1"
    by (simp_all add: assoc_ref_1_def ref_valid_def UDP_NO_ROW_def)
  have g: "assoc_get assoc_ref_1 (snd (assoc_acquire assoc_ref_1 assoc_table_1)) =
      Some (association_1\<lparr>as_refcount := 1\<rparr>)"
    using r unfolding assoc_get_def assoc_acquire_def assoc_row_of_Some
    by (simp add: assoc_ref_1_row assoc_table_1_row wf_assoc_table_1 UDP_ASSOCIATION_MAX_def)
  show ?thesis using held_association_survives [OF w g, of "[Reap 5000, Open 8 9 udp_endpoint_init 5001]"]
    by (simp add: udp_association_init_def)
qed

text \<open>The last release hands over the record, once: it is returned exactly when the
  reference is live with at most one holder, the reference is dead afterwards, and releasing a
  dead reference returns nothing and changes nothing.\<close>

theorem release_once:
  assumes wf: "assoc_wf t"
  shows "(fst (assoc_release r k t) \<noteq> None \<longleftrightarrow> (\<exists>s. assoc_get r t = Some s \<and> as_refcount s \<le> 1)) \<and>
    (fst (assoc_release r k t) \<noteq> None \<longrightarrow> assoc_release r k' (snd (assoc_release r k t)) = (None, snd (assoc_release r k t)))"
proof (cases "assoc_row_of r t")
  case (Some s)
  note nn = assoc_row_refcount [OF wf Some]
  show ?thesis
  proof (cases "as_refcount s \<le> 1")
    case True
    have "assoc_row_of r (close_row (rf_slot r) t) = None"
      using Some by (auto simp: assoc_row_of_def Let_def close_row_at)
    with release_last [OF Some nn True] Some True show ?thesis
      by (simp add: assoc_get_def) (simp add: assoc_release_def)
  next
    case False
    with release_held [OF Some, of k] Some show ?thesis by (simp add: assoc_get_def)
  qed
qed (simp add: assoc_release_def assoc_get_def)

lemma release_once_witness:
  "assoc_release assoc_ref_1 103 (snd (assoc_release assoc_ref_1 102 assoc_table_1))
     = (None, snd (assoc_release assoc_ref_1 102 assoc_table_1))"
proof -
  have "fst (assoc_release assoc_ref_1 102 assoc_table_1) \<noteq> None"
    using release_last [OF assoc_ref_1_row, of 102] by simp
  with release_once [OF wf_assoc_table_1] show ?thesis by blast
qed

text \<open>Reaping closes exactly the unreferenced associations that have been idle for at least
  30 ticks, hands over exactly their records, and leaves every other row as it was.\<close>

theorem reap_exactly_idle:
  assumes wf: "assoc_wf t"
  shows "fst (reap_idle k t) = map rw_state (filter (row_idle k) (at_rows t)) \<and>
    at_rows (snd (reap_idle k t)) = map (\<lambda>row. if row_idle k row
      then row\<lparr>rw_state := udp_association_init, rw_used := False\<rparr> else row) (at_rows t) \<and>
    (\<forall>row. row_idle k row \<longleftrightarrow> rw_used row \<and> as_refcount (rw_state row) \<le> 0 \<and>
       unat (as_last_use (rw_state row)) + 30 \<le> unat k)"
proof (intro conjI allI)
  have "map (\<lambda>i. f (at_rows t ! i)) (filter (\<lambda>i. P (at_rows t ! i)) [0..<length (at_rows t)]) = map f (filter P (at_rows t))"
    for f :: "assoc_row \<Rightarrow> udp_association" and P
  proof -
    have "map f (filter P (map (\<lambda>i. at_rows t ! i) [0..<length (at_rows t)])) = map f (filter P (at_rows t))"
      by (simp add: map_nth)
    then show ?thesis by (simp add: filter_map comp_def)
  qed
  then show "fst (reap_idle k t) = map rw_state (filter (row_idle k) (at_rows t))"
    by (simp add: reap_idle_died)
  show "at_rows (snd (reap_idle k t)) = map (\<lambda>row. if row_idle k row
      then row\<lparr>rw_state := udp_association_init, rw_used := False\<rparr> else row) (at_rows t)"
    using wf wf_reap_idle [OF wf, of k] reap_idle_row [OF wf] by (intro nth_equalityI) simp_all
  show "row_idle k row \<longleftrightarrow> rw_used row \<and> as_refcount (rw_state row) \<le> 0 \<and>
       unat (as_last_use (rw_state row)) + 30 \<le> unat k" for row
  proof (cases "k < as_last_use (rw_state row)")
    case True
    then show ?thesis by (auto simp: row_idle_def word_less_nat_alt)
  next
    case False
    then have "unat (k - as_last_use (rw_state row)) = unat k - unat (as_last_use (rw_state row))"
      by (simp add: unat_sub not_less)
    with False have "\<not> k - as_last_use (rw_state row) < 30 \<longleftrightarrow> unat (as_last_use (rw_state row)) + 30 \<le> unat k"
      by (simp add: word_less_nat_alt le_diff_conv2 not_less) linarith
    with False show ?thesis by (auto simp: row_idle_def UDP_IDLE_LIMIT_TICKS_def)
  qed
qed

lemma reap_exactly_idle_witness:
  "fst (reap_idle 130 assoc_table_1) = map rw_state (filter (row_idle 130) (at_rows assoc_table_1))"
  using reap_exactly_idle [OF wf_assoc_table_1] by blast

section \<open>Reading the table\<close>

definition live_associations :: "assoc_table \<Rightarrow> nat" where
  "live_associations t = at_live t"

definition association_capacity :: "assoc_table \<Rightarrow> nat" where
  "association_capacity t = UDP_ASSOCIATION_MAX"

end
