(* ===== verification/Bounded_Fifo.thy ===== *)
theory Bounded_Fifo
  imports Main "HOL-Library.Sublist"
begin

text \<open>
  The contract of the program's bounded queues, which may throw away old items but never
  reorder, duplicate or invent one: \<open>put\<close> appends after dropping some of the oldest, or
  refuses the newcomer; \<open>get\<close> takes the oldest.
\<close>

datatype 'a fifo_cmd = Put 'a | Get

fun fifo_run :: "('a \<Rightarrow> 'q \<Rightarrow> 'q) \<Rightarrow> ('q \<Rightarrow> 'a option \<times> 'q) \<Rightarrow> 'a fifo_cmd list \<Rightarrow> 'q \<Rightarrow> 'a list \<times> 'q" where
  "fifo_run put get [] q = ([], q)"
| "fifo_run put get (Put x # cs) q = fifo_run put get cs (put x q)"
| "fifo_run put get (Get # cs) q =
     (case get q of
        (None, q') \<Rightarrow> fifo_run put get cs q'
      | (Some x, q') \<Rightarrow> (x # fst (fifo_run put get cs q'), snd (fifo_run put get cs q')))"

fun puts_of :: "'a fifo_cmd list \<Rightarrow> 'a list" where
  "puts_of [] = []"
| "puts_of (Put x # cs) = x # puts_of cs"
| "puts_of (Get # cs) = puts_of cs"

lemma subseq_drop: "subseq (drop n xs) xs"
  by (rule suffix_imp_subseq) (rule suffix_drop)

locale bounded_fifo =
  fixes ok :: "'q \<Rightarrow> bool"
    and items :: "'q \<Rightarrow> 'a list"
    and put :: "'a \<Rightarrow> 'q \<Rightarrow> 'q"
    and get :: "'q \<Rightarrow> 'a option \<times> 'q"
  assumes ok_put: "ok q \<Longrightarrow> ok (put x q)"
    and ok_get: "ok q \<Longrightarrow> ok (snd (get q))"
    and put_items: "ok q \<Longrightarrow> items (put x q) = items q \<or> (\<exists>n. items (put x q) = drop n (items q) @ [x])"
    and get_empty: "ok q \<Longrightarrow> items q = [] \<Longrightarrow> fst (get q) = None \<and> items (snd (get q)) = []"
    and get_items: "ok q \<Longrightarrow> items q = x # xs \<Longrightarrow> fst (get q) = Some x \<and> items (snd (get q)) = xs"
begin

lemma put_subseq: "ok q \<Longrightarrow> subseq (items (put x q)) (items q @ [x])"
  using put_items [of q x] by (auto intro: list_emb_append_mono subseq_drop)

text \<open>What comes out, followed by what is left, is a subsequence of what was in and was put.\<close>

lemma run_subseq:
  "ok q \<Longrightarrow> subseq (fst (fifo_run put get cs q) @ items (snd (fifo_run put get cs q))) (items q @ puts_of cs)"
proof (induction cs arbitrary: q)
  case (Cons c cs)
  show ?case
  proof (cases c)
    case (Put x)
    have "subseq (items (put x q) @ puts_of cs) ((items q @ [x]) @ puts_of cs)"
      using put_subseq [OF Cons.prems] by (intro list_emb_append_mono) auto
    with Cons.IH [OF ok_put [OF Cons.prems]] Put show ?thesis
      by (auto intro: subseq_order.trans)
  next
    case Get
    show ?thesis
    proof (cases "items q")
      case Nil
      from get_empty [OF Cons.prems Nil] Cons.IH [OF ok_get [OF Cons.prems]] Get Nil show ?thesis
        by (cases "get q") auto
    next
      case (Cons x xs)
      from get_items [OF Cons.prems Cons] Cons.IH [OF ok_get [OF Cons.prems]] Get Cons show ?thesis
        by (cases "get q") auto
    qed
  qed
qed simp

text \<open>Nothing comes out of an empty queue into which nothing was put.\<close>

lemma run_length: "ok q \<Longrightarrow> length (fst (fifo_run put get cs q)) + length (items (snd (fifo_run put get cs q)))
    \<le> length (items q) + length (puts_of cs)"
  using run_subseq [THEN list_emb_length] by fastforce

end

end
