(* ===== verification/Udp_State.thy ===== *)
theory Udp_State
  imports Udp_Association Bounded_Fifo
begin

text \<open>
  The second half of src/injectee/udp_state.hpp: \<open>udp_state_table\<close>, 256 rows keyed by the
  application's socket value, each with two datagram queues bounded by count and by bytes, the
  quarantine of retired socket values, the pins, and the set of the pump's own sockets.
  Counters of datagrams are \<open>nat\<close>, insertion clocks and ticks are 64-bit words.
\<close>

section \<open>State\<close>

definition UDP_STATE_MAX_ROWS :: nat where
  "UDP_STATE_MAX_ROWS = 256"

definition UDP_QUEUE_MAX_DATAGRAMS :: nat where
  "UDP_QUEUE_MAX_DATAGRAMS = 64"

definition UDP_QUEUE_MAX_BYTES :: nat where
  "UDP_QUEUE_MAX_BYTES = 1024 * 1024"

definition UDP_KEY_QUARANTINE_INSERTIONS :: u64 where
  "UDP_KEY_QUARANTINE_INSERTIONS = 256"

datatype udp_socket_type = unknown | stream | dgram

record udp_datagram =
  dg_peer :: udp_endpoint
  dg_payload :: "u8 list"

record udp_state =
  us_app :: uintptr
  us_has_peer :: bool
  us_peer :: udp_endpoint
  us_type :: udp_socket_type
  us_takeover :: bool
  us_permanently_unmanaged :: bool
  us_tx :: "udp_datagram list"
  us_rx :: "udp_datagram list"
  us_tx_bytes :: nat
  us_rx_bytes :: nat
  us_pinned :: int
  us_last_use :: u64

definition udp_state_init :: udp_state where
  "udp_state_init = \<lparr>us_app = 0, us_has_peer = False, us_peer = udp_endpoint_init, us_type = unknown,
     us_takeover = False, us_permanently_unmanaged = False, us_tx = [], us_rx = [], us_tx_bytes = 0,
     us_rx_bytes = 0, us_pinned = 0, us_last_use = 0\<rparr>"

datatype udp_push = accepted | dropped_oldest | refused

record state_row =
  sr_state :: udp_state
  sr_used :: bool

record retired_key =
  rk_app :: uintptr
  rk_reusable_at :: u64

record udp_state_table =
  st_rows :: "state_row list"
  st_retired :: "retired_key list"
  st_owned :: "uintptr list"
  st_insertions :: u64
  st_rows_used :: nat
  st_dropped :: nat
  st_discarded :: nat
  st_refused :: nat

definition udp_state_table_new :: udp_state_table where
  "udp_state_table_new = \<lparr>st_rows = replicate UDP_STATE_MAX_ROWS \<lparr>sr_state = udp_state_init, sr_used = False\<rparr>,
     st_retired = [], st_owned = [], st_insertions = 0, st_rows_used = 0, st_dropped = 0,
     st_discarded = 0, st_refused = 0\<rparr>"

abbreviation st_at :: "udp_state_table \<Rightarrow> nat \<Rightarrow> udp_state" where
  "st_at t i \<equiv> sr_state (st_rows t ! i)"

abbreviation put_state :: "nat \<Rightarrow> udp_state \<Rightarrow> udp_state_table \<Rightarrow> udp_state_table" where
  "put_state i s t \<equiv> t\<lparr>st_rows := (st_rows t)[i := (st_rows t ! i)\<lparr>sr_state := s\<rparr>]\<rparr>"

section \<open>Rows\<close>

definition mutable_row :: "uintptr \<Rightarrow> udp_state_table \<Rightarrow> nat option" where
  "mutable_row app t =
     scan (\<lambda>i. sr_used (st_rows t ! i) \<and> us_app (st_at t i) = app) (length (st_rows t))"

definition state_find :: "uintptr \<Rightarrow> udp_state_table \<Rightarrow> udp_state option" where
  "state_find app t = map_option (st_at t) (mutable_row app t)"

definition find_slot_for :: "uintptr \<Rightarrow> udp_state_table \<Rightarrow> nat option" where
  "find_slot_for app t =
     (case scan (\<lambda>i. \<not> sr_used (st_rows t ! i)) (length (st_rows t)) of
        Some i \<Rightarrow> Some i
      | None \<Rightarrow>
          lru (\<lambda>i. \<not> (us_pinned (st_at t i) \<noteq> 0 \<or> us_app (st_at t i) = app))
            (\<lambda>i. us_last_use (st_at t i)) (length (st_rows t)))"

definition is_quarantined :: "uintptr \<Rightarrow> udp_state_table \<Rightarrow> bool" where
  "is_quarantined app t = list_ex (\<lambda>key. rk_app key = app \<and> st_insertions t < rk_reusable_at key) (st_retired t)"

definition prune_quarantine :: "udp_state_table \<Rightarrow> udp_state_table" where
  "prune_quarantine t = t\<lparr>st_retired := filter (\<lambda>key. st_insertions t < rk_reusable_at key) (st_retired t)\<rparr>"

definition state_open :: "uintptr \<Rightarrow> u64 \<Rightarrow> udp_state_table \<Rightarrow> nat option \<times> udp_state_table" where
  "state_open app tick t =
     (case mutable_row app t of
        Some i \<Rightarrow> (Some i, put_state i ((st_at t i)\<lparr>us_last_use := tick\<rparr>) t)
      | None \<Rightarrow>
          let t1 = prune_quarantine (t\<lparr>st_insertions := st_insertions t + 1\<rparr>) in
          if is_quarantined app t1 then (None, t1)
          else
            (case find_slot_for app t1 of
               None \<Rightarrow> (None, t1)
             | Some slot \<Rightarrow>
                 let row = st_rows t1 ! slot;
                     t2 = (if sr_used row
                           then t1\<lparr>st_discarded := st_discarded t1 +
                                  (length (us_tx (sr_state row)) + length (us_rx (sr_state row)))\<rparr>
                           else t1\<lparr>st_rows_used := st_rows_used t1 + 1\<rparr>)
                 in (Some slot, t2\<lparr>st_rows := (st_rows t2)[slot :=
                      \<lparr>sr_state = udp_state_init\<lparr>us_app := app, us_last_use := tick\<rparr>, sr_used = True\<rparr>]\<rparr>)))"

definition state_retire :: "uintptr \<Rightarrow> udp_state_table \<Rightarrow> bool \<times> udp_state_table" where
  "state_retire app t =
     (case mutable_row app t of
        None \<Rightarrow> (False, t)
      | Some i \<Rightarrow> (True,
          t\<lparr>st_discarded := st_discarded t + (length (us_tx (st_at t i)) + length (us_rx (st_at t i))),
            st_rows := (st_rows t)[i := \<lparr>sr_state = udp_state_init, sr_used = False\<rparr>],
            st_rows_used := st_rows_used t - 1,
            st_retired := st_retired t @
              [\<lparr>rk_app = app, rk_reusable_at = st_insertions t + UDP_KEY_QUARANTINE_INSERTIONS\<rparr>]\<rparr>))"

section \<open>Queues\<close>

text \<open>\<open>trim_queue\<close> is the while loop of \<open>push\<close>: drop the oldest until the newcomer fits.\<close>

fun trim_queue :: "udp_datagram list \<Rightarrow> nat \<Rightarrow> nat \<Rightarrow> udp_datagram list \<times> nat \<times> nat" where
  "trim_queue [] bytes sz = ([], bytes, 0)"
| "trim_queue (d # q) bytes sz =
     (if length (d # q) + 1 > UDP_QUEUE_MAX_DATAGRAMS \<or> bytes + sz > UDP_QUEUE_MAX_BYTES
      then (let (q', bytes', lost) = trim_queue q (bytes - length (dg_payload d)) sz in (q', bytes', lost + 1))
      else (d # q, bytes, 0))"

definition queue_of :: "bool \<Rightarrow> udp_state \<Rightarrow> udp_datagram list \<times> nat" where
  "queue_of rx s = (if rx then (us_rx s, us_rx_bytes s) else (us_tx s, us_tx_bytes s))"

definition put_queue :: "bool \<Rightarrow> udp_datagram list \<Rightarrow> nat \<Rightarrow> udp_state \<Rightarrow> udp_state" where
  "put_queue rx q b s = (if rx then s\<lparr>us_rx := q, us_rx_bytes := b\<rparr> else s\<lparr>us_tx := q, us_tx_bytes := b\<rparr>)"

definition state_push :: "uintptr \<Rightarrow> u64 \<Rightarrow> udp_datagram \<Rightarrow> bool \<Rightarrow> udp_state_table \<Rightarrow> udp_push \<times> udp_state_table" where
  "state_push app tick d to_rx t =
     (case state_open app tick t of
        (None, t1) \<Rightarrow> (refused, t1\<lparr>st_refused := st_refused t1 + 1\<rparr>)
      | (Some i, t1) \<Rightarrow>
          let sz = length (dg_payload d) in
          if sz > UDP_QUEUE_MAX_BYTES then (refused, t1\<lparr>st_refused := st_refused t1 + 1\<rparr>)
          else
            (case queue_of to_rx (st_at t1 i) of (queue, bytes) \<Rightarrow>
              (case trim_queue queue bytes sz of (queue', bytes', lost) \<Rightarrow>
                (if lost = 0 then accepted else dropped_oldest,
                 put_state i (put_queue to_rx (queue' @ [d]) (bytes' + sz) (st_at t1 i))
                   (t1\<lparr>st_dropped := st_dropped t1 + lost\<rparr>)))))"

definition push_tx :: "uintptr \<Rightarrow> u64 \<Rightarrow> udp_datagram \<Rightarrow> udp_state_table \<Rightarrow> udp_push \<times> udp_state_table" where
  "push_tx app tick d t = state_push app tick d False t"

definition push_rx :: "uintptr \<Rightarrow> u64 \<Rightarrow> udp_datagram \<Rightarrow> udp_state_table \<Rightarrow> udp_push \<times> udp_state_table" where
  "push_rx app tick d t = state_push app tick d True t"

definition state_pop :: "uintptr \<Rightarrow> u64 \<Rightarrow> bool \<Rightarrow> udp_state_table \<Rightarrow> udp_datagram option \<times> udp_state_table" where
  "state_pop app tick from_rx t =
     (case mutable_row app t of
        None \<Rightarrow> (None, t)
      | Some i \<Rightarrow>
          let s = (st_at t i)\<lparr>us_last_use := tick\<rparr> in
          (case queue_of from_rx s of
             ([], bytes) \<Rightarrow> (None, put_state i s t)
           | (d # q, bytes) \<Rightarrow>
               (Some d, put_state i (put_queue from_rx q (bytes - length (dg_payload d)) s) t)))"

section \<open>Marks, pins and the pump's own sockets\<close>

definition on_opened :: "uintptr \<Rightarrow> u64 \<Rightarrow> (udp_state \<Rightarrow> udp_state) \<Rightarrow> udp_state_table \<Rightarrow> udp_state_table" where
  "on_opened app tick f t =
     (case state_open app tick t of (None, t1) \<Rightarrow> t1 | (Some i, t1) \<Rightarrow> put_state i (f (st_at t1 i)) t1)"

definition set_peer :: "uintptr \<Rightarrow> u64 \<Rightarrow> udp_endpoint \<Rightarrow> udp_state_table \<Rightarrow> udp_state_table" where
  "set_peer app tick peer t = on_opened app tick (\<lambda>s. s\<lparr>us_peer := peer, us_has_peer := True\<rparr>) t"

definition set_type :: "uintptr \<Rightarrow> u64 \<Rightarrow> udp_socket_type \<Rightarrow> udp_state_table \<Rightarrow> udp_state_table" where
  "set_type app tick ty t = on_opened app tick (\<lambda>s. s\<lparr>us_type := ty\<rparr>) t"

definition mark_takeover :: "uintptr \<Rightarrow> u64 \<Rightarrow> udp_state_table \<Rightarrow> udp_state_table" where
  "mark_takeover app tick t = on_opened app tick (\<lambda>s. s\<lparr>us_takeover := True\<rparr>) t"

definition mark_permanently_unmanaged :: "uintptr \<Rightarrow> u64 \<Rightarrow> udp_state_table \<Rightarrow> udp_state_table" where
  "mark_permanently_unmanaged app tick t = on_opened app tick (\<lambda>s. s\<lparr>us_permanently_unmanaged := True\<rparr>) t"

definition state_pin :: "uintptr \<Rightarrow> udp_state_table \<Rightarrow> bool \<times> udp_state_table" where
  "state_pin app t =
     (case mutable_row app t of
        None \<Rightarrow> (False, t)
      | Some i \<Rightarrow> (True, put_state i ((st_at t i)\<lparr>us_pinned := us_pinned (st_at t i) + 1\<rparr>) t))"

definition state_unpin :: "uintptr \<Rightarrow> udp_state_table \<Rightarrow> bool \<times> udp_state_table" where
  "state_unpin app t =
     (case mutable_row app t of
        None \<Rightarrow> (False, t)
      | Some i \<Rightarrow>
          if us_pinned (st_at t i) = 0 then (False, t)
          else (True, put_state i ((st_at t i)\<lparr>us_pinned := us_pinned (st_at t i) - 1\<rparr>) t))"

definition own :: "uintptr \<Rightarrow> udp_state_table \<Rightarrow> udp_state_table" where
  "own s t = (if s \<in> set (st_owned t) then t else t\<lparr>st_owned := st_owned t @ [s]\<rparr>)"

definition unown :: "uintptr \<Rightarrow> udp_state_table \<Rightarrow> bool \<times> udp_state_table" where
  "unown s t =
     (case scan (\<lambda>i. st_owned t ! i = s) (length (st_owned t)) of
        None \<Rightarrow> (False, t)
      | Some i \<Rightarrow> (True, t\<lparr>st_owned := take i (st_owned t) @ drop (Suc i) (st_owned t)\<rparr>))"

definition owns :: "uintptr \<Rightarrow> udp_state_table \<Rightarrow> bool" where
  "owns s t = (if s = 0 then False else s \<in> set (st_owned t))"

section \<open>Runs\<close>

datatype state_op =
    SOpen uintptr u64
  | SRetire uintptr
  | SPush uintptr u64 udp_datagram bool
  | SPop uintptr u64 bool
  | SPeer uintptr u64 udp_endpoint
  | SType uintptr u64 udp_socket_type
  | STakeover uintptr u64
  | SUnmanaged uintptr u64
  | SPin uintptr
  | SUnpin uintptr
  | SOwn uintptr
  | SUnown uintptr

fun state_step :: "state_op \<Rightarrow> udp_state_table \<Rightarrow> udp_state_table" where
  "state_step (SOpen a k) t = snd (state_open a k t)"
| "state_step (SRetire a) t = snd (state_retire a t)"
| "state_step (SPush a k d rx) t = snd (state_push a k d rx t)"
| "state_step (SPop a k rx) t = snd (state_pop a k rx t)"
| "state_step (SPeer a k p) t = set_peer a k p t"
| "state_step (SType a k y) t = set_type a k y t"
| "state_step (STakeover a k) t = mark_takeover a k t"
| "state_step (SUnmanaged a k) t = mark_permanently_unmanaged a k t"
| "state_step (SPin a) t = snd (state_pin a t)"
| "state_step (SUnpin a) t = snd (state_unpin a t)"
| "state_step (SOwn s) t = own s t"
| "state_step (SUnown s) t = snd (unown s t)"

definition state_run :: "state_op list \<Rightarrow> udp_state_table \<Rightarrow> udp_state_table" where
  "state_run ops t = fold state_step ops t"

lemma state_run_simps [simp]:
  "state_run [] t = t" "state_run (x # xs) t = state_run xs (state_step x t)"
  by (simp_all add: state_run_def)

section \<open>Well-formedness\<close>

definition queue_bytes :: "udp_datagram list \<Rightarrow> nat" where
  "queue_bytes q = sum_list (map (\<lambda>d. length (dg_payload d)) q)"

definition queue_ok :: "udp_datagram list \<times> nat \<Rightarrow> bool" where
  "queue_ok qb = (length (fst qb) \<le> UDP_QUEUE_MAX_DATAGRAMS \<and> snd qb = queue_bytes (fst qb) \<and>
     snd qb \<le> UDP_QUEUE_MAX_BYTES)"

definition state_ok :: "udp_state \<Rightarrow> bool" where
  "state_ok s = (queue_ok (queue_of False s) \<and> queue_ok (queue_of True s) \<and> 0 \<le> us_pinned s)"

definition state_wf :: "udp_state_table \<Rightarrow> bool" where
  "state_wf t \<longleftrightarrow>
     length (st_rows t) = UDP_STATE_MAX_ROWS \<and>
     st_rows_used t = count_rows sr_used (st_rows t) \<and>
     keys_unique sr_used (\<lambda>r. us_app (sr_state r)) (st_rows t) \<and>
     (\<forall>i<UDP_STATE_MAX_ROWS. state_ok (st_at t i)) \<and>
     (\<forall>i<UDP_STATE_MAX_ROWS. \<not> sr_used (st_rows t ! i) \<longrightarrow> st_at t i = udp_state_init) \<and>
     distinct (st_owned t)"

lemma queue_bytes_simps [simp]:
  "queue_bytes [] = 0" "queue_bytes (d # q) = length (dg_payload d) + queue_bytes q"
  "queue_bytes (q @ q') = queue_bytes q + queue_bytes q'"
  by (simp_all add: queue_bytes_def)

lemma state_ok_init [simp]: "state_ok (udp_state_init\<lparr>us_app := a, us_last_use := k\<rparr>)" "state_ok udp_state_init"
  by (simp_all add: state_ok_def queue_ok_def queue_of_def udp_state_init_def)

lemma queue_of_updates [simp]:
  "queue_of rx (s\<lparr>us_last_use := k\<rparr>) = queue_of rx s" "queue_of rx (s\<lparr>us_pinned := p\<rparr>) = queue_of rx s"
  "queue_of rx (s\<lparr>us_peer := e, us_has_peer := h\<rparr>) = queue_of rx s" "queue_of rx (s\<lparr>us_type := y\<rparr>) = queue_of rx s"
  "queue_of rx (s\<lparr>us_takeover := b\<rparr>) = queue_of rx s"
  "queue_of rx (s\<lparr>us_permanently_unmanaged := b\<rparr>) = queue_of rx s"
  "queue_of rx (put_queue rx' q n s) = (if rx = rx' then (q, n) else queue_of rx s)"
  by (auto simp: queue_of_def put_queue_def)

lemma put_queue_fields [simp]:
  "us_app (put_queue rx q n s) = us_app s" "us_pinned (put_queue rx q n s) = us_pinned s"
  "us_last_use (put_queue rx q n s) = us_last_use s"
  by (simp_all add: put_queue_def)

lemma state_wf_length [simp]: "state_wf t \<Longrightarrow> length (st_rows t) = UDP_STATE_MAX_ROWS"
  by (simp add: state_wf_def)

lemma state_wf_ok: "state_wf t \<Longrightarrow> i < UDP_STATE_MAX_ROWS \<Longrightarrow> state_ok (st_at t i)"
  unfolding state_wf_def by simp

lemma state_wf_counters [simp]:
  "state_wf (t\<lparr>st_dropped := n\<rparr>) = state_wf t" "state_wf (t\<lparr>st_discarded := n\<rparr>) = state_wf t"
  "state_wf (t\<lparr>st_refused := n\<rparr>) = state_wf t" "state_wf (t\<lparr>st_insertions := k\<rparr>) = state_wf t"
  "state_wf (t\<lparr>st_retired := r\<rparr>) = state_wf t"
  unfolding state_wf_def by simp_all

lemma wf_new_state: "state_wf udp_state_table_new"
  unfolding state_wf_def udp_state_table_new_def by (simp add: keys_unique_replicate)

lemma mutable_row_Some: "state_wf t \<Longrightarrow> mutable_row a t = Some i \<Longrightarrow>
    i < UDP_STATE_MAX_ROWS \<and> sr_used (st_rows t ! i) \<and> us_app (st_at t i) = a"
  by (auto simp: mutable_row_def)

lemma mutable_row_None: "state_wf t \<Longrightarrow> mutable_row a t = None \<longleftrightarrow>
    (\<forall>i<UDP_STATE_MAX_ROWS. sr_used (st_rows t ! i) \<longrightarrow> us_app (st_at t i) \<noteq> a)"
  by (simp add: mutable_row_def scan_None_iff)

lemma mutable_row_unique:
  assumes wf: "state_wf t" and i: "i < UDP_STATE_MAX_ROWS" "sr_used (st_rows t ! i)" "us_app (st_at t i) = a"
  shows "mutable_row a t = Some i"
proof (cases "mutable_row a t")
  case None
  with mutable_row_None [OF wf] i show ?thesis by blast
next
  case (Some k)
  then have k: "k < UDP_STATE_MAX_ROWS" "sr_used (st_rows t ! k)" "us_app (st_at t k) = a"
    using mutable_row_Some [OF wf] by blast+
  have "keys_unique sr_used (\<lambda>r. us_app (sr_state r)) (st_rows t)" using wf unfolding state_wf_def by blast
  from keys_uniqueD [OF this, of k i] k i wf have "k = i" by simp
  with Some show ?thesis by simp
qed

lemma find_slot_Some:
  assumes "state_wf t" "find_slot_for a t = Some i"
  shows "i < UDP_STATE_MAX_ROWS \<and> (sr_used (st_rows t ! i) \<longrightarrow> us_pinned (st_at t i) = 0 \<and> us_app (st_at t i) \<noteq> a)"
  using assms by (auto simp: find_slot_for_def dest: scan_SomeD lru_SomeD split: option.splits)

lemma find_slot_None:
  assumes "state_wf t"
  shows "find_slot_for a t = None \<longleftrightarrow>
    (\<forall>i<UDP_STATE_MAX_ROWS. sr_used (st_rows t ! i) \<and> (us_pinned (st_at t i) \<noteq> 0 \<or> us_app (st_at t i) = a))"
  using assms by (auto simp: find_slot_for_def scan_None_iff lru_None_iff split: option.split dest: scan_SomeD)

text \<open>Replacing the state of a used row under the same key.\<close>

lemma wf_put_state:
  assumes wf: "state_wf t" and i: "i < UDP_STATE_MAX_ROWS" "sr_used (st_rows t ! i)"
    and s: "us_app s = us_app (st_at t i)" "state_ok s"
  shows "state_wf (put_state i s t)"
proof -
  have "keys_unique sr_used (\<lambda>r. us_app (sr_state r)) ((st_rows t)[i := (st_rows t ! i)\<lparr>sr_state := s\<rparr>])"
  proof (rule keys_unique_update)
    fix j assume "j < length (st_rows t)" "j \<noteq> i" "sr_used (st_rows t ! j)"
    with keys_uniqueD [of sr_used "\<lambda>r. us_app (sr_state r)" "st_rows t" j i] wf i s
    show "us_app (sr_state (st_rows t ! j)) \<noteq> us_app (sr_state ((st_rows t ! i)\<lparr>sr_state := s\<rparr>))"
      by (auto simp: state_wf_def)
  qed (use wf i in \<open>auto simp: state_wf_def\<close>)
  with assms show ?thesis unfolding state_wf_def by (auto simp: nth_update)
qed

text \<open>The table after the insertion clock moved and the dead quarantine entries were dropped.\<close>

definition aged :: "udp_state_table \<Rightarrow> udp_state_table" where
  "aged t = prune_quarantine (t\<lparr>st_insertions := st_insertions t + 1\<rparr>)"

lemma aged_simps [simp]:
  "st_rows (aged t) = st_rows t" "st_owned (aged t) = st_owned t" "st_rows_used (aged t) = st_rows_used t"
  "st_dropped (aged t) = st_dropped t" "st_discarded (aged t) = st_discarded t" "st_refused (aged t) = st_refused t"
  "st_insertions (aged t) = st_insertions t + 1" "state_wf (aged t) = state_wf t"
  "find_slot_for a (aged t) = find_slot_for a t"
  "is_quarantined a (aged t) = is_quarantined a (t\<lparr>st_insertions := st_insertions t + 1\<rparr>)"
  by (auto simp: aged_def prune_quarantine_def find_slot_for_def is_quarantined_def list_ex_iff split: option.split)

lemma state_wf_row_fields: "st_rows t' = st_rows t \<Longrightarrow> st_rows_used t' = st_rows_used t \<Longrightarrow>
    st_owned t' = st_owned t \<Longrightarrow> state_wf t' = state_wf t"
  unfolding state_wf_def by simp

definition fresh_state :: "uintptr \<Rightarrow> u64 \<Rightarrow> udp_state" where
  "fresh_state a k = udp_state_init\<lparr>us_app := a, us_last_use := k\<rparr>"

definition placed :: "nat \<Rightarrow> uintptr \<Rightarrow> u64 \<Rightarrow> udp_state_table \<Rightarrow> udp_state_table" where
  "placed i a k t = t\<lparr>
     st_discarded := st_discarded t + (if sr_used (st_rows t ! i)
       then length (us_tx (st_at t i)) + length (us_rx (st_at t i)) else 0),
     st_rows_used := st_rows_used t + (if sr_used (st_rows t ! i) then 0 else 1),
     st_rows := (st_rows t)[i := \<lparr>sr_state = fresh_state a k, sr_used = True\<rparr>]\<rparr>"

lemma open_cases [consumes 1, case_names held quarantined full placed]:
  assumes wf: "state_wf t"
  obtains
    (held) i where "mutable_row a t = Some i" "i < UDP_STATE_MAX_ROWS" "sr_used (st_rows t ! i)"
      "us_app (st_at t i) = a" "state_open a k t = (Some i, put_state i ((st_at t i)\<lparr>us_last_use := k\<rparr>) t)"
  | (quarantined) "mutable_row a t = None" "is_quarantined a (t\<lparr>st_insertions := st_insertions t + 1\<rparr>)"
      "state_open a k t = (None, aged t)"
  | (full) "mutable_row a t = None" "\<not> is_quarantined a (t\<lparr>st_insertions := st_insertions t + 1\<rparr>)"
      "find_slot_for a t = None" "state_open a k t = (None, aged t)"
  | (placed) i where "mutable_row a t = None" "\<not> is_quarantined a (t\<lparr>st_insertions := st_insertions t + 1\<rparr>)"
      "find_slot_for a t = Some i" "i < UDP_STATE_MAX_ROWS"
      "sr_used (st_rows t ! i) \<Longrightarrow> us_pinned (st_at t i) = 0"
      "state_open a k t = (Some i, placed i a k (aged t))"
proof (cases "mutable_row a t")
  case (Some i)
  with mutable_row_Some [OF wf Some] show thesis by (intro held) (auto simp: state_open_def)
next
  case None
  have e: "state_open a k t = (if is_quarantined a (aged t) then (None, aged t)
      else case find_slot_for a (aged t) of None \<Rightarrow> (None, aged t) | Some i \<Rightarrow> (Some i, placed i a k (aged t)))"
    by (simp add: state_open_def None Let_def aged_def [symmetric] placed_def fresh_state_def split: option.split)
  show thesis
  proof (cases "is_quarantined a (t\<lparr>st_insertions := st_insertions t + 1\<rparr>)")
    case True
    with None e show thesis by (intro quarantined) simp_all
  next
    case q: False
    show thesis
    proof (cases "find_slot_for a t")
      case n: None
      with None q e show thesis by (intro full) simp_all
    next
      case (Some i)
      with None q e find_slot_Some [OF wf Some] show thesis by (intro placed [of i]) simp_all
    qed
  qed
qed

lemma placed_rows: "j < length (st_rows t) \<Longrightarrow> st_rows (placed i a k t) ! j =
    (if i = j then \<lparr>sr_state = fresh_state a k, sr_used = True\<rparr> else st_rows t ! j)"
  by (simp add: placed_def nth_update)

lemma placed_simps [simp]:
  "length (st_rows (placed i a k t)) = length (st_rows t)" "st_owned (placed i a k t) = st_owned t"
  "st_insertions (placed i a k t) = st_insertions t" "st_retired (placed i a k t) = st_retired t"
  "st_dropped (placed i a k t) = st_dropped t" "st_refused (placed i a k t) = st_refused t"
  by (simp_all add: placed_def)

lemma fresh_state_simps [simp]:
  "us_app (fresh_state a k) = a" "state_ok (fresh_state a k)" "us_pinned (fresh_state a k) = 0"
  "us_tx (fresh_state a k) = []" "us_rx (fresh_state a k) = []"
  by (simp_all add: fresh_state_def) (simp_all add: udp_state_init_def)

lemma wf_placed:
  assumes wf: "state_wf t" and i: "i < UDP_STATE_MAX_ROWS" and none: "mutable_row a t = None"
  shows "state_wf (placed i a k t)"
proof -
  have "keys_unique sr_used (\<lambda>r. us_app (sr_state r)) ((st_rows t)[i := \<lparr>sr_state = fresh_state a k, sr_used = True\<rparr>])"
  proof (rule keys_unique_update)
    fix j assume "j < length (st_rows t)" "sr_used (st_rows t ! j)"
    with none wf show "us_app (sr_state (st_rows t ! j)) \<noteq> us_app (sr_state \<lparr>sr_state = fresh_state a k, sr_used = True\<rparr>)"
      unfolding mutable_row_None [OF wf] by simp
  qed (use wf i in \<open>auto simp: state_wf_def\<close>)
  moreover have "st_rows_used (placed i a k t) = count_rows sr_used (st_rows (placed i a k t))"
    using count_rows_update [of i "st_rows t" sr_used "\<lparr>sr_state = fresh_state a k, sr_used = True\<rparr>"] wf i
    by (auto simp: placed_def state_wf_def)
  ultimately show ?thesis
    using wf i placed_rows [of _ t i a k] unfolding state_wf_def by (auto simp: placed_def nth_update)
qed

lemma mutable_row_aged [simp]: "mutable_row a (aged t) = mutable_row a t"
  by (simp add: mutable_row_def)

lemma wf_state_open: "state_wf t \<Longrightarrow> state_wf (snd (state_open a k t))"
proof -
  assume wf: "state_wf t"
  then show ?thesis
  proof (cases rule: open_cases [where a = a and k = k])
    case (held i)
    with wf_put_state [OF wf held(2,3), of "(st_at t i)\<lparr>us_last_use := k\<rparr>"] state_wf_ok [OF wf held(2)]
    show ?thesis by (simp add: state_ok_def)
  next
    case (placed i)
    with wf_placed [of "aged t" i a k] wf show ?thesis by simp
  qed (use wf in simp_all)
qed

text \<open>After a successful \<open>open\<close> the row is there, used, and belongs to the socket.\<close>

lemma open_row_there:
  assumes wf: "state_wf t" and o': "state_open a k t = (Some i, t')"
  shows "state_wf t' \<and> i < UDP_STATE_MAX_ROWS \<and> sr_used (st_rows t' ! i) \<and> us_app (st_at t' i) = a \<and>
    us_last_use (st_at t' i) = k"
proof -
  have w: "state_wf t'" using wf_state_open [OF wf, of a k] o' by simp
  from wf show ?thesis
  proof (cases rule: open_cases [where a = a and k = k])
    case (held j)
    with o' w wf show ?thesis by auto
  next
    case (placed j)
    with o' w wf show ?thesis by (auto simp: placed_rows) (auto simp: fresh_state_def)
  qed (use o' in simp_all)
qed

section \<open>The queues\<close>

text \<open>
  The trimming loop keeps a suffix, keeps the byte count exact, and stops as soon as the
  newcomer fits; on an empty queue everything up to the byte budget fits.
\<close>

lemma trim_queue_spec:
  assumes "bytes = queue_bytes q" "trim_queue q bytes sz = (q', bytes', lost)"
  shows "q' = drop lost q \<and> bytes' = queue_bytes q' \<and> lost \<le> length q \<and>
    (q' \<noteq> [] \<longrightarrow> length q' + 1 \<le> UDP_QUEUE_MAX_DATAGRAMS \<and> bytes' + sz \<le> UDP_QUEUE_MAX_BYTES) \<and>
    (lost > 0 \<longrightarrow> length q + 1 > UDP_QUEUE_MAX_DATAGRAMS \<or> queue_bytes q + sz > UDP_QUEUE_MAX_BYTES)"
  using assms
proof (induction q bytes sz arbitrary: q' bytes' lost rule: trim_queue.induct)
  case (2 d q bytes sz)
  show ?case
  proof (cases "length (d # q) + 1 > UDP_QUEUE_MAX_DATAGRAMS \<or> bytes + sz > UDP_QUEUE_MAX_BYTES")
    case True
    obtain q1 b1 l1 where r: "trim_queue q (bytes - length (dg_payload d)) sz = (q1, b1, l1)"
      by (cases "trim_queue q (bytes - length (dg_payload d)) sz")
    have e: "q' = q1" "bytes' = b1" "lost = Suc l1" using "2.prems"(2) True r by simp_all
    have b: "bytes - length (dg_payload d) = queue_bytes q" using "2.prems"(1) by simp
    note i = "2.IH" [OF True b r]
    have "q1 = drop (Suc l1) (d # q)" "Suc l1 \<le> length (d # q)" using i by simp_all
    moreover have "length (d # q) + 1 > UDP_QUEUE_MAX_DATAGRAMS \<or> queue_bytes (d # q) + sz > UDP_QUEUE_MAX_BYTES"
      using True "2.prems"(1) by simp
    ultimately show ?thesis unfolding e using i by blast
  next
    case False
    then have "q' = d # q" "bytes' = bytes" "lost = 0" using "2.prems"(2) by auto
    then show ?thesis using False "2.prems"(1) by auto
  qed
qed simp

lemma push_queue_ok:
  assumes ok: "queue_ok (q, bytes)" and sz: "length (dg_payload d) \<le> UDP_QUEUE_MAX_BYTES"
    and tr: "trim_queue q bytes (length (dg_payload d)) = (q', bytes', lost)"
  shows "queue_ok (q' @ [d], bytes' + length (dg_payload d))" and "length q' + lost = length q"
proof -
  have b: "bytes = queue_bytes q" using ok by (simp add: queue_ok_def)
  note t = trim_queue_spec [OF b tr]
  show "length q' + lost = length q" using t by auto
  show "queue_ok (q' @ [d], bytes' + length (dg_payload d))"
    using t sz by (cases "q' = []") (auto simp: queue_ok_def UDP_QUEUE_MAX_DATAGRAMS_def)
qed

lemma pop_queue_ok: "queue_ok (d # q, bytes) \<Longrightarrow> queue_ok (q, bytes - length (dg_payload d))"
  by (auto simp: queue_ok_def)

lemma state_ok_put_queue: "state_ok s \<Longrightarrow> queue_ok (q, b) \<Longrightarrow> state_ok (put_queue rx q b s)"
  by (auto simp: state_ok_def)

lemma state_ok_queue: "state_ok s \<Longrightarrow> queue_ok (queue_of rx s)"
  by (cases rx) (simp_all add: state_ok_def)

section \<open>Every operation keeps the table well formed\<close>

lemma wf_state_push: "state_wf t \<Longrightarrow> state_wf (snd (state_push a k d rx t))"
proof -
  assume wf: "state_wf t"
  obtain oi t1 where o': "state_open a k t = (oi, t1)" by (cases "state_open a k t")
  then have wf1: "state_wf t1" using wf_state_open [OF wf, of a k] by simp
  show ?thesis
  proof (cases oi)
    case None
    with o' wf1 show ?thesis by (simp add: state_push_def)
  next
    case (Some i)
    note r = open_row_there [OF wf o' [unfolded Some]]
    obtain q b where qb: "queue_of rx (st_at t1 i) = (q, b)" by (cases "queue_of rx (st_at t1 i)")
    obtain q' b' l where tr: "trim_queue q b (length (dg_payload d)) = (q', b', l)"
      by (cases "trim_queue q b (length (dg_payload d))")
    have ok: "state_ok (st_at t1 i)" using r state_wf_ok by blast
    show ?thesis
    proof (cases "length (dg_payload d) > UDP_QUEUE_MAX_BYTES")
      case True
      with o' Some wf1 show ?thesis by (simp add: state_push_def)
    next
      case False
      have "queue_ok (q' @ [d], b' + length (dg_payload d))"
        using push_queue_ok(1) [OF _ _ tr] state_ok_queue [OF ok, of rx] qb False by simp
      then have "state_ok (put_queue rx (q' @ [d]) (b' + length (dg_payload d)) (st_at t1 i))"
        using ok by (intro state_ok_put_queue)
      then have "state_wf (put_state i (put_queue rx (q' @ [d]) (b' + length (dg_payload d)) (st_at t1 i))
          (t1\<lparr>st_dropped := st_dropped t1 + l\<rparr>))"
        using wf_put_state [of "t1\<lparr>st_dropped := st_dropped t1 + l\<rparr>" i] r by simp
      with o' Some False qb tr show ?thesis by (simp add: state_push_def)
    qed
  qed
qed

lemma wf_on_row:
  assumes wf: "state_wf t" and m: "mutable_row a t = Some i" and f: "us_app s = us_app (st_at t i)" "state_ok s"
  shows "state_wf (put_state i s t)"
  using wf_put_state [OF wf _ _ f] mutable_row_Some [OF wf m] by blast

lemma wf_state_pop: "state_wf t \<Longrightarrow> state_wf (snd (state_pop a k rx t))"
proof (cases "mutable_row a t")
  case (Some i)
  assume wf: "state_wf t"
  let ?s = "(st_at t i)\<lparr>us_last_use := k\<rparr>"
  have ok: "state_ok ?s" using state_wf_ok [OF wf] mutable_row_Some [OF wf Some] by (auto simp: state_ok_def)
  obtain q b where qb: "queue_of rx (st_at t i) = (q, b)" by (cases "queue_of rx (st_at t i)")
  show ?thesis
  proof (cases q)
    case Nil
    with qb Some wf_on_row [OF wf Some, of ?s] ok show ?thesis by (simp add: state_pop_def Let_def)
  next
    case (Cons d q')
    have "queue_ok (q', b - length (dg_payload d))"
      using pop_queue_ok state_ok_queue [OF ok, of rx] qb Cons by simp
    then have "state_ok (put_queue rx q' (b - length (dg_payload d)) ?s)" using ok by (rule state_ok_put_queue [rotated])
    with qb Some Cons wf_on_row [OF wf Some, of "put_queue rx q' (b - length (dg_payload d)) ?s"]
    show ?thesis by (simp add: state_pop_def Let_def)
  qed
qed (simp add: state_pop_def)

lemma wf_on_opened:
  assumes wf: "state_wf t" and f: "\<And>s. us_app (f s) = us_app s" "\<And>s. state_ok s \<Longrightarrow> state_ok (f s)"
  shows "state_wf (on_opened a k f t)"
proof -
  obtain oi t1 where o': "state_open a k t = (oi, t1)" by (cases "state_open a k t")
  show ?thesis
  proof (cases oi)
    case None
    with o' wf_state_open [OF wf, of a k] show ?thesis by (simp add: on_opened_def)
  next
    case (Some i)
    note r = open_row_there [OF wf o' [unfolded Some]]
    with wf_put_state [of t1 i "f (st_at t1 i)"] f state_wf_ok o' Some show ?thesis
      by (simp add: on_opened_def)
  qed
qed

lemma wf_marks:
  "state_wf t \<Longrightarrow> state_wf (set_peer a k p t)" "state_wf t \<Longrightarrow> state_wf (set_type a k y t)"
  "state_wf t \<Longrightarrow> state_wf (mark_takeover a k t)" "state_wf t \<Longrightarrow> state_wf (mark_permanently_unmanaged a k t)"
  unfolding set_peer_def set_type_def mark_takeover_def mark_permanently_unmanaged_def
  by (intro wf_on_opened; simp add: state_ok_def)+

lemma wf_state_retire: "state_wf t \<Longrightarrow> state_wf (snd (state_retire a t))"
proof (cases "mutable_row a t")
  case (Some i)
  assume wf: "state_wf t"
  note i = mutable_row_Some [OF wf Some]
  have "keys_unique sr_used (\<lambda>r. us_app (sr_state r)) ((st_rows t)[i := \<lparr>sr_state = udp_state_init, sr_used = False\<rparr>])"
    by (rule keys_unique_update) (use wf i in \<open>auto simp: state_wf_def\<close>)
  moreover have "st_rows_used t - 1 = count_rows sr_used ((st_rows t)[i := \<lparr>sr_state = udp_state_init, sr_used = False\<rparr>])"
    using count_rows_clear [of i "st_rows t" sr_used "\<lparr>sr_state = udp_state_init, sr_used = False\<rparr>"] wf i
    by (simp add: state_wf_def)
  ultimately show ?thesis
    using wf i Some unfolding state_wf_def by (auto simp: state_retire_def nth_update)
qed (simp add: state_retire_def)

lemma wf_state_pin: "state_wf t \<Longrightarrow> state_wf (snd (state_pin a t))"
proof (cases "mutable_row a t")
  case (Some i)
  assume wf: "state_wf t"
  have "state_ok ((st_at t i)\<lparr>us_pinned := us_pinned (st_at t i) + 1\<rparr>)"
    using state_wf_ok [OF wf] mutable_row_Some [OF wf Some] by (auto simp: state_ok_def)
  with wf_on_row [OF wf Some, of "(st_at t i)\<lparr>us_pinned := us_pinned (st_at t i) + 1\<rparr>"] Some
  show ?thesis by (simp add: state_pin_def)
qed (simp add: state_pin_def)

lemma wf_state_unpin: "state_wf t \<Longrightarrow> state_wf (snd (state_unpin a t))"
proof (cases "mutable_row a t")
  case (Some i)
  assume wf: "state_wf t"
  have ok: "state_ok (st_at t i)" using state_wf_ok [OF wf] mutable_row_Some [OF wf Some] by blast
  show ?thesis
  proof (cases "us_pinned (st_at t i) = 0")
    case False
    then have "state_ok ((st_at t i)\<lparr>us_pinned := us_pinned (st_at t i) - 1\<rparr>)" using ok by (simp add: state_ok_def)
    with wf_on_row [OF wf Some, of "(st_at t i)\<lparr>us_pinned := us_pinned (st_at t i) - 1\<rparr>"] Some False
    show ?thesis by (simp add: state_unpin_def)
  qed (use wf Some in \<open>simp add: state_unpin_def\<close>)
qed (simp add: state_unpin_def)

lemma wf_owned: "state_wf t \<Longrightarrow> distinct os \<Longrightarrow> state_wf (t\<lparr>st_owned := os\<rparr>)"
  unfolding state_wf_def by simp

lemma unown_owned: "st_owned (snd (unown s t)) = remove1 s (st_owned t)"
proof (cases "scan (\<lambda>i. st_owned t ! i = s) (length (st_owned t))")
  case None
  then have "s \<notin> set (st_owned t)" by (auto simp: scan_None_iff in_set_conv_nth)
  with None show ?thesis by (simp add: unown_def remove1_idem)
next
  case (Some i)
  then have i: "i < length (st_owned t)" "st_owned t ! i = s" "\<forall>j<i. st_owned t ! j \<noteq> s"
    by (auto simp: scan_Some_iff)
  have "st_owned t = take i (st_owned t) @ s # drop (Suc i) (st_owned t)"
    using id_take_nth_drop [OF i(1)] i(2) by simp
  moreover have "s \<notin> set (take i (st_owned t))" using i by (auto simp: in_set_conv_nth)
  ultimately have "remove1 s (st_owned t) = take i (st_owned t) @ drop (Suc i) (st_owned t)"
    by (metis remove1_append remove1.simps(2))
  with Some show ?thesis by (simp add: unown_def)
qed

lemma unown_rest: "st_rows (snd (unown s t)) = st_rows t" "st_rows_used (snd (unown s t)) = st_rows_used t"
  by (simp_all add: unown_def split: option.split)

lemma wf_unown: "state_wf t \<Longrightarrow> state_wf (snd (unown s t))"
proof -
  assume wf: "state_wf t"
  then have "state_wf (t\<lparr>st_owned := remove1 s (st_owned t)\<rparr>)"
    by (intro wf_owned) (auto simp: state_wf_def)
  then show ?thesis
    using state_wf_row_fields [of "snd (unown s t)" "t\<lparr>st_owned := remove1 s (st_owned t)\<rparr>"]
    by (simp add: unown_owned unown_rest)
qed

lemma wf_own: "state_wf t \<Longrightarrow> state_wf (own s t)"
  by (auto simp: own_def state_wf_def)

lemmas wf_state_ops = wf_state_open wf_state_retire wf_state_push wf_state_pop wf_marks wf_state_pin
  wf_state_unpin wf_own wf_unown

lemma wf_state_step: "state_wf t \<Longrightarrow> state_wf (state_step x t)"
  by (cases x) (simp_all add: wf_state_ops)

interpretation state_steps: invariant_steps state_step state_wf udp_state_table_new
  by unfold_locales (simp_all add: wf_state_step wf_new_state)

lemma wf_state_run: "state_wf t \<Longrightarrow> state_wf (state_run ops t)"
  unfolding state_run_def by (rule state_steps.kept_inv)

section \<open>Queue contents\<close>

definition contents :: "bool \<Rightarrow> uintptr \<Rightarrow> udp_state_table \<Rightarrow> udp_datagram list" where
  "contents rx a t = (case state_find a t of None \<Rightarrow> [] | Some s \<Rightarrow> fst (queue_of rx s))"

lemma contents_row: "mutable_row a t = Some i \<Longrightarrow> contents rx a t = fst (queue_of rx (st_at t i))"
  by (simp add: contents_def state_find_def)

lemma contents_none: "mutable_row a t = None \<Longrightarrow> contents rx a t = []"
  by (simp add: contents_def state_find_def)

lemma contents_used:
  "state_wf t \<Longrightarrow> i < UDP_STATE_MAX_ROWS \<Longrightarrow> sr_used (st_rows t ! i) \<Longrightarrow> us_app (st_at t i) = a \<Longrightarrow>
     contents rx a t = fst (queue_of rx (st_at t i))"
  using mutable_row_unique contents_row by blast

lemma contents_cong:
  assumes "st_rows t' = st_rows t"
  shows "contents rx a t' = contents rx a t" and "mutable_row a t' = mutable_row a t"
  using assms by (simp_all add: contents_def state_find_def mutable_row_def)

lemma contents_simps [simp]:
  "contents rx a (aged t) = contents rx a t" "contents rx a (t\<lparr>st_refused := n\<rparr>) = contents rx a t"
  "contents rx a (t\<lparr>st_dropped := n\<rparr>) = contents rx a t"
  by (rule contents_cong; simp)+

lemma contents_open:
  assumes wf: "state_wf t"
  shows "contents rx a (snd (state_open a k t)) = contents rx a t"
  using wf
proof (cases rule: open_cases [where a = a and k = k])
  case (held i)
  note w = wf_state_open [OF wf, of a k]
  from held wf contents_used [OF w, of i a rx] contents_row [OF held(1), of rx] show ?thesis by simp
next
  case (placed i)
  note w = wf_state_open [OF wf, of a k]
  from placed wf contents_used [OF w, of i a rx] contents_none [OF placed(1), of rx] show ?thesis
    by (simp add: placed_rows) (simp add: fresh_state_def udp_state_init_def queue_of_def)
qed simp_all

text \<open>\<open>push\<close> and \<open>pop\<close> on one socket's queue.\<close>

lemma push_contents:
  assumes wf: "state_wf t" and p: "state_push a k d rx t = (v, t')"
  shows "case v of
      refused \<Rightarrow> contents rx a t' = contents rx a t \<and> st_refused t' = st_refused t + 1 \<and> st_dropped t' = st_dropped t
    | accepted \<Rightarrow> contents rx a t' = contents rx a t @ [d] \<and> st_refused t' = st_refused t \<and> st_dropped t' = st_dropped t
    | dropped_oldest \<Rightarrow> \<exists>n>0. n \<le> length (contents rx a t) \<and> contents rx a t' = drop n (contents rx a t) @ [d] \<and>
        st_refused t' = st_refused t \<and> st_dropped t' = st_dropped t + n \<and>
        (length (contents rx a t) + 1 > UDP_QUEUE_MAX_DATAGRAMS \<or>
         queue_bytes (contents rx a t) + length (dg_payload d) > UDP_QUEUE_MAX_BYTES)"
proof -
  obtain oi t1 where o': "state_open a k t = (oi, t1)" by (cases "state_open a k t")
  have c1: "contents rx a t1 = contents rx a t" using contents_open [OF wf, of rx a k] o' by simp
  have cnt: "st_refused t1 = st_refused t" "st_dropped t1 = st_dropped t"
    using wf o' by (cases rule: open_cases [where a = a and k = k]; auto)+
  show ?thesis
  proof (cases "oi = None \<or> length (dg_payload d) > UDP_QUEUE_MAX_BYTES")
    case True
    then have "v = refused" "t' = t1\<lparr>st_refused := st_refused t1 + 1\<rparr>"
      using p o' by (auto simp: state_push_def split: option.splits)
    with c1 cnt show ?thesis by simp
  next
    case False
    then obtain i where i: "oi = Some i" by auto
    note r = open_row_there [OF wf o' [unfolded i]]
    obtain q b where qb: "queue_of rx (st_at t1 i) = (q, b)" by (cases "queue_of rx (st_at t1 i)")
    obtain q' b' l where tr: "trim_queue q b (length (dg_payload d)) = (q', b', l)"
      by (cases "trim_queue q b (length (dg_payload d))")
    have q: "q = contents rx a t" using contents_used [of t1 i a rx] r qb c1 by simp
    have b: "b = queue_bytes q"
      using state_ok_queue [of "st_at t1 i" rx] state_wf_ok [of t1 i] r qb by (simp add: queue_ok_def)
    let ?s = "put_queue rx (q' @ [d]) (b' + length (dg_payload d)) (st_at t1 i)"
    let ?u = "put_state i ?s (t1\<lparr>st_dropped := st_dropped t1 + l\<rparr>)"
    have v: "v = (if l = 0 then accepted else dropped_oldest)" and t': "t' = ?u"
      using p o' i False qb tr by (auto simp: state_push_def)
    have w: "state_wf t'" using wf_state_push [OF wf, of a k d rx] p by simp
    have row: "st_at t' i = ?s" "sr_used (st_rows t' ! i)" using r t' by simp_all
    then have "contents rx a t' = q' @ [d]" using contents_used [OF w, of i a rx] r by simp
    with trim_queue_spec [OF b tr] v q cnt t' show ?thesis by (auto split: udp_push.split)
  qed
qed

lemma pop_contents:
  assumes wf: "state_wf t"
  shows "case contents rx a t of
      [] \<Rightarrow> fst (state_pop a k rx t) = None \<and> contents rx a (snd (state_pop a k rx t)) = []
    | d # q \<Rightarrow> fst (state_pop a k rx t) = Some d \<and> contents rx a (snd (state_pop a k rx t)) = q"
proof (cases "mutable_row a t")
  case None
  then show ?thesis by (simp add: state_pop_def contents_none)
next
  case (Some i)
  note i = mutable_row_Some [OF wf Some]
  note w = wf_state_pop [OF wf, of a k rx]
  obtain q b where qb: "queue_of rx (st_at t i) = (q, b)" by (cases "queue_of rx (st_at t i)")
  then have q: "contents rx a t = q" using contents_row [OF Some] by simp
  show ?thesis
  proof (cases q)
    case Nil
    with q qb Some i wf contents_used [OF w, of i a rx] show ?thesis by (simp add: state_pop_def Let_def)
  next
    case (Cons d q')
    with q qb Some i wf contents_used [OF w, of i a rx] show ?thesis by (simp add: state_pop_def Let_def)
  qed
qed

text \<open>So every socket's queue, in either direction, is a bounded FIFO.\<close>

interpretation udp_queue: bounded_fifo state_wf "contents rx a" "\<lambda>d t. snd (state_push a k d rx t)" "state_pop a k rx"
  for rx a k
proof
  fix t d
  assume wf: "state_wf t"
  show "contents rx a (snd (state_push a k d rx t)) = contents rx a t \<or>
      (\<exists>n. contents rx a (snd (state_push a k d rx t)) = drop n (contents rx a t) @ [d])"
  proof (cases "state_push a k d rx t")
    case (Pair v t')
    from push_contents [OF wf Pair] Pair show ?thesis
      by (cases v) (auto intro: exI [of _ 0])
  qed
  show "contents rx a t = [] \<Longrightarrow> fst (state_pop a k rx t) = None \<and> contents rx a (snd (state_pop a k rx t)) = []"
    using pop_contents [OF wf, where rx = rx and a = a and k = k] by simp
  show "contents rx a t = x # xs \<Longrightarrow> fst (state_pop a k rx t) = Some x \<and> contents rx a (snd (state_pop a k rx t)) = xs"
    for x xs
    using pop_contents [OF wf, where rx = rx and a = a and k = k] by simp
qed (simp_all add: wf_state_push wf_state_pop)

section \<open>Accounting\<close>

definition row_load :: "state_row \<Rightarrow> nat" where
  "row_load r = length (us_tx (sr_state r)) + length (us_rx (sr_state r))"

text \<open>Every datagram the table was ever given, except those that were popped.\<close>

definition accounted :: "udp_state_table \<Rightarrow> nat" where
  "accounted t = sum_list (map row_load (st_rows t)) + st_dropped t + st_discarded t + st_refused t"

lemma accounted_row:
  assumes "i < length (st_rows t)"
  shows "accounted (t\<lparr>st_rows := (st_rows t)[i := r]\<rparr>) + row_load (st_rows t ! i) = accounted t + row_load r"
  using sum_list_map_update [OF assms, of row_load r] by (simp add: accounted_def)

lemma accounted_same:
  "i < length (st_rows t) \<Longrightarrow> row_load r = row_load (st_rows t ! i) \<Longrightarrow>
     accounted (t\<lparr>st_rows := (st_rows t)[i := r]\<rparr>) = accounted t"
  using accounted_row [of i t r] by simp

lemma row_load_queues: "row_load r = length (fst (queue_of False (sr_state r))) + length (fst (queue_of True (sr_state r)))"
  by (simp add: row_load_def queue_of_def)

lemma accounted_counters [simp]:
  "accounted (t\<lparr>st_refused := st_refused t + 1\<rparr>) = accounted t + 1"
  "accounted (t\<lparr>st_dropped := st_dropped t + n\<rparr>) = accounted t + n"
  "accounted (t\<lparr>st_owned := os\<rparr>) = accounted t"
  by (simp_all add: accounted_def)

lemma accounted_aged [simp]: "accounted (aged t) = accounted t"
  by (simp add: accounted_def)

lemma accounted_placed:
  assumes "state_wf t" "i < UDP_STATE_MAX_ROWS"
  shows "accounted (placed i a k t) = accounted t"
proof -
  have "\<not> sr_used (st_rows t ! i) \<Longrightarrow> row_load (st_rows t ! i) = 0"
    using assms unfolding state_wf_def row_load_def by (simp add: udp_state_init_def)
  then show ?thesis
    using sum_list_map_update [of i "st_rows t" row_load "\<lparr>sr_state = fresh_state a k, sr_used = True\<rparr>"] assms
    by (auto simp: accounted_def placed_def row_load_def)
qed

lemma accounted_open:
  assumes wf: "state_wf t"
  shows "accounted (snd (state_open a k t)) = accounted t"
  using wf
proof (cases rule: open_cases [where a = a and k = k])
  case (held i)
  with wf show ?thesis by (simp add: accounted_same row_load_queues)
next
  case (placed i)
  with wf show ?thesis by (simp add: accounted_placed)
qed simp_all

lemma accounted_push:
  assumes wf: "state_wf t"
  shows "accounted (snd (state_push a k d rx t)) = accounted t + 1"
proof -
  obtain oi t1 where o': "state_open a k t = (oi, t1)" by (cases "state_open a k t")
  have a1: "accounted t1 = accounted t" using accounted_open [OF wf, of a k] o' by simp
  show ?thesis
  proof (cases "oi = None \<or> length (dg_payload d) > UDP_QUEUE_MAX_BYTES")
    case True
    then have "snd (state_push a k d rx t) = t1\<lparr>st_refused := st_refused t1 + 1\<rparr>"
      using o' by (auto simp: state_push_def split: option.split)
    then show ?thesis using a1 accounted_counters(1) [of t1] by metis
  next
    case False
    then obtain i where i: "oi = Some i" by auto
    note r = open_row_there [OF wf o' [unfolded i]]
    obtain q b where qb: "queue_of rx (st_at t1 i) = (q, b)" by (cases "queue_of rx (st_at t1 i)")
    obtain q' b' l where tr: "trim_queue q b (length (dg_payload d)) = (q', b', l)"
      by (cases "trim_queue q b (length (dg_payload d))")
    have b: "b = queue_bytes q"
      using state_ok_queue [of "st_at t1 i" rx] state_wf_ok [of t1 i] r qb by (simp add: queue_ok_def)
    have len: "length q' + l = length q" using trim_queue_spec [OF b tr] by auto
    let ?r = "(st_rows t1 ! i)\<lparr>sr_state := put_queue rx (q' @ [d]) (b' + length (dg_payload d)) (st_at t1 i)\<rparr>"
    have "row_load ?r + l = row_load (st_rows t1 ! i) + 1"
      using len qb by (cases rx) (simp_all add: row_load_queues)
    with accounted_row [of i "t1\<lparr>st_dropped := st_dropped t1 + l\<rparr>" ?r] r a1 o' i False qb tr
    show ?thesis by (simp add: state_push_def)
  qed
qed

lemma accounted_pop:
  assumes wf: "state_wf t"
  shows "accounted (snd (state_pop a k rx t)) + (if fst (state_pop a k rx t) = None then 0 else 1) = accounted t"
proof (cases "mutable_row a t")
  case (Some i)
  note i = mutable_row_Some [OF wf Some]
  obtain q b where qb: "queue_of rx (st_at t i) = (q, b)" by (cases "queue_of rx (st_at t i)")
  show ?thesis
  proof (cases q)
    case Nil
    with qb Some i wf show ?thesis
      by (simp add: state_pop_def Let_def accounted_same row_load_queues)
  next
    case (Cons d q')
    let ?r = "(st_rows t ! i)\<lparr>sr_state := put_queue rx q' (b - length (dg_payload d)) ((st_at t i)\<lparr>us_last_use := k\<rparr>)\<rparr>"
    have "row_load ?r + 1 = row_load (st_rows t ! i)"
      using qb Cons by (cases rx) (simp_all add: row_load_queues)
    with accounted_row [of i t ?r] i wf Some qb Cons show ?thesis by (simp add: state_pop_def Let_def)
  qed
qed (simp add: state_pop_def)

lemma accounted_on_opened:
  assumes wf: "state_wf t" and f: "\<And>s rx. queue_of rx (f s) = queue_of rx s"
  shows "accounted (on_opened a k f t) = accounted t"
proof -
  obtain oi t1 where o': "state_open a k t = (oi, t1)" by (cases "state_open a k t")
  have a1: "accounted t1 = accounted t" using accounted_open [OF wf, of a k] o' by simp
  show ?thesis
  proof (cases oi)
    case (Some i)
    note r = open_row_there [OF wf o' [unfolded Some]]
    with a1 o' Some show ?thesis by (simp add: on_opened_def accounted_same row_load_queues f)
  qed (use o' a1 in \<open>simp add: on_opened_def\<close>)
qed

lemma accounted_retire:
  assumes wf: "state_wf t"
  shows "accounted (snd (state_retire a t)) = accounted t"
proof (cases "mutable_row a t")
  case (Some i)
  with mutable_row_Some [OF wf Some] wf
    sum_list_map_update [of i "st_rows t" row_load "\<lparr>sr_state = udp_state_init, sr_used = False\<rparr>"]
  show ?thesis by (simp add: state_retire_def accounted_def row_load_def) (simp add: udp_state_init_def)
qed (simp add: state_retire_def)

fun popped_by :: "state_op \<Rightarrow> udp_state_table \<Rightarrow> nat" where
  "popped_by (SPop a k rx) t = (if fst (state_pop a k rx t) = None then 0 else 1)"
| "popped_by _ t = 0"

fun popped_in :: "state_op list \<Rightarrow> udp_state_table \<Rightarrow> nat" where
  "popped_in [] t = 0"
| "popped_in (x # xs) t = popped_by x t + popped_in xs (state_step x t)"

fun pushed_by :: "state_op \<Rightarrow> nat" where
  "pushed_by (SPush a k d rx) = 1"
| "pushed_by _ = 0"

lemma accounted_pins: "state_wf t \<Longrightarrow> accounted (snd (state_pin a t)) = accounted t"
    "state_wf t \<Longrightarrow> accounted (snd (state_unpin a t)) = accounted t"
  by (auto simp: state_pin_def state_unpin_def row_load_queues dest: mutable_row_Some intro!: accounted_same split: option.split)

lemma accounted_owned: "accounted (own s t) = accounted t" "accounted (snd (unown s t)) = accounted t"
  by (simp_all add: own_def unown_def split: option.split)

lemma accounted_step:
  assumes "state_wf t"
  shows "accounted (state_step x t) + popped_by x t = accounted t + pushed_by x"
proof (cases x)
  case (SPop a k rx)
  with accounted_pop [OF assms, of a k rx] show ?thesis by simp
qed (use assms in \<open>simp_all add: accounted_open accounted_push accounted_retire accounted_on_opened accounted_pins
       accounted_owned set_peer_def set_type_def mark_takeover_def mark_permanently_unmanaged_def\<close>)

lemma accounted_run:
  "state_wf t \<Longrightarrow> accounted (state_run ops t) + popped_in ops t = accounted t + sum_list (map pushed_by ops)"
proof (induction ops arbitrary: t)
  case (Cons x ops)
  from Cons.IH [OF wf_state_step [OF Cons.prems]] accounted_step [OF Cons.prems] show ?case
    by (metis (no_types) add.assoc add.commute list.simps(9) popped_in.simps(2) state_run_simps(2) sum_list.Cons)
qed simp

section \<open>Quarantine of retired socket values\<close>

text \<open>\<open>in_quarantine t a m\<close>: the socket value has no row, and \<open>m\<close> more insertions leave its key alive.\<close>

definition in_quarantine :: "udp_state_table \<Rightarrow> uintptr \<Rightarrow> nat \<Rightarrow> bool" where
  "in_quarantine t a m \<longleftrightarrow> mutable_row a t = None \<and>
     (\<exists>key \<in> set (st_retired t). rk_app key = a \<and> unat (st_insertions t) + m < unat (rk_reusable_at key))"

lemma mutable_row_put:
  "us_app s = us_app (st_at t i) \<Longrightarrow> mutable_row a (put_state i s t) = mutable_row a t"
  unfolding mutable_row_def by (intro scan_cong) (auto simp: nth_update)

lemma in_quarantine_cong:
  "mutable_row a t' = mutable_row a t \<Longrightarrow> st_retired t' = st_retired t \<Longrightarrow> st_insertions t' = st_insertions t \<Longrightarrow>
     in_quarantine t' a m = in_quarantine t a m"
  by (simp add: in_quarantine_def)

lemma in_quarantine_mono: "in_quarantine t a m \<Longrightarrow> n \<le> m \<Longrightarrow> in_quarantine t a n"
  unfolding in_quarantine_def by fastforce

lemma ins_plus1: "unat (ins :: u64) + Suc m < unat (lim :: u64) \<Longrightarrow> unat (ins + 1) = unat ins + 1"
  using unsigned_less [where 'a = nat and w = lim] by (subst unat_word_ariths) simp

lemma quarantined_next:
  assumes "in_quarantine t a (Suc m)"
  shows "is_quarantined a (t\<lparr>st_insertions := st_insertions t + 1\<rparr>)" and "in_quarantine (aged t) a m"
proof -
  obtain key where k: "key \<in> set (st_retired t)" "rk_app key = a"
      "unat (st_insertions t) + Suc m < unat (rk_reusable_at key)" and n: "mutable_row a t = None"
    using assms by (auto simp: in_quarantine_def)
  have i: "unat (st_insertions t + 1) = unat (st_insertions t) + 1" using ins_plus1 k(3) by blast
  then have lt: "st_insertions t + 1 < rk_reusable_at key" using k(3) by (simp add: word_less_nat_alt)
  show "is_quarantined a (t\<lparr>st_insertions := st_insertions t + 1\<rparr>)"
    using k lt by (auto simp: is_quarantined_def list_ex_iff)
  show "in_quarantine (aged t) a m"
  proof -
    have "key \<in> set (st_retired (aged t))" using k(1) lt by (simp add: aged_def prune_quarantine_def)
    moreover have "unat (st_insertions (aged t)) + m < unat (rk_reusable_at key)" using k(3) i by simp
    ultimately show ?thesis using k(2) n unfolding in_quarantine_def by auto
  qed
qed

lemma quarantine_open:
  assumes wf: "state_wf t" and q: "in_quarantine t a (Suc m)"
  shows "in_quarantine (snd (state_open b k t)) a m" and "fst (state_open a k t) = None"
proof -
  have n: "mutable_row a t = None" using q by (simp add: in_quarantine_def)
  note qn = quarantined_next [OF q]
  show "fst (state_open a k t) = None"
    using wf by (cases rule: open_cases [where a = a and k = k]) (use n qn in simp_all)
  from wf show "in_quarantine (snd (state_open b k t)) a m"
  proof (cases rule: open_cases [where a = b and k = k])
    case (held i)
    have "in_quarantine (put_state i ((st_at t i)\<lparr>us_last_use := k\<rparr>) t) a (Suc m)"
      using q by (subst in_quarantine_cong [where t = t]) (simp_all add: mutable_row_put)
    with held show ?thesis using in_quarantine_mono by fastforce
  next
    case (placed i)
    have "b \<noteq> a" using placed(2) qn(1) by blast
    moreover have "mutable_row a (aged t) = None" using n by simp
    ultimately have "mutable_row a (placed i b k (aged t)) = None"
      using mutable_row_None [of "aged t" a] mutable_row_None [of "placed i b k (aged t)" a]
        wf_placed [of "aged t" i b k] placed(1,4) wf by (auto simp: placed_rows)
    with placed qn(2) show ?thesis by (simp add: in_quarantine_def)
  qed (use qn in simp_all)
qed

lemma quarantine_put:
  "us_app s = us_app (st_at t i) \<Longrightarrow> in_quarantine (put_state i s t) a m = in_quarantine t a m"
  by (subst in_quarantine_cong [where t = t]) (simp_all add: mutable_row_put)

lemma quarantine_counters [simp]:
  "in_quarantine (t\<lparr>st_refused := n\<rparr>) a m = in_quarantine t a m"
  "in_quarantine (t\<lparr>st_dropped := n\<rparr>) a m = in_quarantine t a m"
  "in_quarantine (t\<lparr>st_owned := os\<rparr>) a m = in_quarantine t a m"
  by (simp_all add: in_quarantine_def mutable_row_def)

lemma quarantine_on_opened:
  assumes "state_wf t" "in_quarantine t a (Suc m)" "\<And>s. us_app (f s) = us_app s"
  shows "in_quarantine (on_opened b k f t) a m"
proof -
  obtain oi t1 where o': "state_open b k t = (oi, t1)" by (cases "state_open b k t")
  with quarantine_open(1) [OF assms(1,2), of b k] have "in_quarantine t1 a m" by simp
  with o' assms(3) show ?thesis by (cases oi) (simp_all add: on_opened_def quarantine_put)
qed

lemma quarantine_push:
  assumes wf: "state_wf t" and q: "in_quarantine t a (Suc m)"
  shows "in_quarantine (snd (state_push b k d rx t)) a m"
proof -
  obtain oi t1 where o': "state_open b k t = (oi, t1)" by (cases "state_open b k t")
  with quarantine_open(1) [OF wf q, of b k] have q1: "in_quarantine t1 a m" by simp
  show ?thesis
  proof (cases "oi = None \<or> length (dg_payload d) > UDP_QUEUE_MAX_BYTES")
    case True
    then have "snd (state_push b k d rx t) = t1\<lparr>st_refused := st_refused t1 + 1\<rparr>"
      using o' by (auto simp: state_push_def split: option.split)
    with q1 show ?thesis by simp
  next
    case False
    then obtain i where i: "oi = Some i" by auto
    obtain q b' where qb: "queue_of rx (st_at t1 i) = (q, b')" by (cases "queue_of rx (st_at t1 i)")
    obtain q' b'' l where tr: "trim_queue q b' (length (dg_payload d)) = (q', b'', l)"
      by (cases "trim_queue q b' (length (dg_payload d))")
    have "snd (state_push b k d rx t) = put_state i (put_queue rx (q' @ [d]) (b'' + length (dg_payload d)) (st_at t1 i))
        (t1\<lparr>st_dropped := st_dropped t1 + l\<rparr>)"
      using o' i False qb tr by (simp add: state_push_def)
    with q1 show ?thesis
      using quarantine_put [of "put_queue rx (q' @ [d]) (b'' + length (dg_payload d)) (st_at t1 i)"
          "t1\<lparr>st_dropped := st_dropped t1 + l\<rparr>" i] by simp
  qed
qed

lemma quarantine_pop: "in_quarantine t a m \<Longrightarrow> in_quarantine (snd (state_pop b k rx t)) a m"
  by (auto simp: state_pop_def Let_def quarantine_put split: option.split list.split prod.split)

lemma quarantine_retire:
  assumes wf: "state_wf t" and q: "in_quarantine t a m"
  shows "in_quarantine (snd (state_retire b t)) a m"
proof (cases "mutable_row b t")
  case (Some i)
  have "mutable_row a (snd (state_retire b t)) = None"
    using q mutable_row_None [OF wf, of a] mutable_row_None [OF wf_state_retire [OF wf], of a b] Some wf
    by (auto simp: in_quarantine_def state_retire_def nth_update)
  with q Some show ?thesis by (auto simp: in_quarantine_def state_retire_def)
qed (use q in \<open>simp add: state_retire_def\<close>)

lemma quarantine_pins: "in_quarantine t a m \<Longrightarrow> in_quarantine (snd (state_pin b t)) a m"
    "in_quarantine t a m \<Longrightarrow> in_quarantine (snd (state_unpin b t)) a m"
  by (auto simp: state_pin_def state_unpin_def quarantine_put split: option.split)

lemma quarantine_owned: "in_quarantine t a m \<Longrightarrow> in_quarantine (own s t) a m"
    "in_quarantine t a m \<Longrightarrow> in_quarantine (snd (unown s t)) a m"
  by (simp_all add: own_def unown_def split: option.split)

lemma quarantine_step:
  assumes wf: "state_wf t" and q: "in_quarantine t a (Suc m)"
  shows "in_quarantine (state_step x t) a m"
proof -
  have q': "in_quarantine t a m" using q in_quarantine_mono by fastforce
  show ?thesis
    by (cases x) (simp_all add: quarantine_open(1) [OF wf q] quarantine_retire [OF wf q'] quarantine_push [OF wf q]
        quarantine_pop [OF q'] quarantine_pins [OF q'] quarantine_owned [OF q']
        set_peer_def set_type_def mark_takeover_def mark_permanently_unmanaged_def quarantine_on_opened [OF wf q])
qed

lemma quarantine_run:
  "state_wf t \<Longrightarrow> in_quarantine t a (length ops + m) \<Longrightarrow> in_quarantine (state_run ops t) a m"
proof (induction ops arbitrary: t)
  case (Cons x ops)
  then have "in_quarantine (state_step x t) a (length ops + m)" using quarantine_step by simp
  with Cons show ?case by (simp add: wf_state_step)
qed simp

section \<open>Pinned rows\<close>

fun state_unpins_of :: "uintptr \<Rightarrow> state_op list \<Rightarrow> nat" where
  "state_unpins_of a [] = 0"
| "state_unpins_of a (SUnpin b # ops) = (if a = b then Suc (state_unpins_of a ops) else state_unpins_of a ops)"
| "state_unpins_of a (_ # ops) = state_unpins_of a ops"

definition pins_at :: "uintptr \<Rightarrow> nat \<Rightarrow> int \<Rightarrow> udp_state_table \<Rightarrow> bool" where
  "pins_at a i p t \<longleftrightarrow> sr_used (st_rows t ! i) \<and> us_app (st_at t i) = a \<and> us_pinned (st_at t i) = p"

lemma pins_at_put: "j < length (st_rows t) \<Longrightarrow> pins_at a i p t \<Longrightarrow> us_app s = us_app (st_at t j) \<Longrightarrow>
    us_pinned s = us_pinned (st_at t j) \<Longrightarrow> pins_at a i p (put_state j s t)"
  by (cases "i = j") (auto simp: pins_at_def)

lemma pins_at_open:
  assumes wf: "state_wf t" and i: "i < UDP_STATE_MAX_ROWS" and p: "pins_at a i p t" "p \<noteq> 0"
  shows "pins_at a i p (snd (state_open b k t))"
  using wf
proof (cases rule: open_cases [where a = b and k = k])
  case (held j)
  with p wf show ?thesis by (simp add: pins_at_put)
next
  case (placed j)
  then have "j \<noteq> i" using p by (auto simp: pins_at_def)
  with placed p i wf show ?thesis by (simp add: pins_at_def placed_rows)
qed (use p in \<open>simp_all add: pins_at_def\<close>)

lemma pins_at_on_opened:
  assumes wf: "state_wf t" and i: "i < UDP_STATE_MAX_ROWS" and p: "pins_at a i p t" "p \<noteq> 0"
    and f: "\<And>s. us_app (f s) = us_app s" "\<And>s. us_pinned (f s) = us_pinned s"
  shows "pins_at a i p (on_opened b k f t)"
proof -
  obtain oi t1 where o': "state_open b k t = (oi, t1)" by (cases "state_open b k t")
  with pins_at_open [OF wf i p, of b k] have p1: "pins_at a i p t1" by simp
  show ?thesis
  proof (cases oi)
    case (Some j)
    note r = open_row_there [OF wf o' [unfolded Some]]
    with p1 o' Some f show ?thesis by (simp add: on_opened_def pins_at_put)
  qed (use p1 o' in \<open>simp add: on_opened_def\<close>)
qed

lemma push_as_on_opened:
  "\<exists>f n r. snd (state_push b k d rx t) = (on_opened b k f t)\<lparr>st_dropped := n, st_refused := r\<rparr> \<and>
     (\<forall>s. us_app (f s) = us_app s) \<and> (\<forall>s. us_pinned (f s) = us_pinned s)"
proof -
  obtain oi t1 where o': "state_open b k t = (oi, t1)" by (cases "state_open b k t")
  show ?thesis
  proof (cases "oi = None \<or> length (dg_payload d) > UDP_QUEUE_MAX_BYTES")
    case True
    then have "snd (state_push b k d rx t) = (on_opened b k (\<lambda>s. s) t)\<lparr>st_dropped := st_dropped t1, st_refused := st_refused t1 + 1\<rparr>"
      using o' by (auto simp: state_push_def on_opened_def split: option.split)
    then show ?thesis by (intro exI [of _ "\<lambda>s. s"] exI conjI) auto
  next
    case False
    then obtain i where i: "oi = Some i" by auto
    obtain q b' where qb: "queue_of rx (st_at t1 i) = (q, b')" by (cases "queue_of rx (st_at t1 i)")
    obtain q' b'' l where tr: "trim_queue q b' (length (dg_payload d)) = (q', b'', l)"
      by (cases "trim_queue q b' (length (dg_payload d))")
    let ?f = "put_queue rx (q' @ [d]) (b'' + length (dg_payload d))"
    have "snd (state_push b k d rx t) = (on_opened b k ?f t)\<lparr>st_dropped := st_dropped t1 + l, st_refused := st_refused t1\<rparr>"
      using o' i False qb tr by (simp add: state_push_def on_opened_def)
    then show ?thesis by (intro exI [of _ ?f] exI conjI) auto
  qed
qed

lemma pinned_state_step:
  assumes wf: "state_wf t" and i: "i < UDP_STATE_MAX_ROWS" and p: "pins_at a i p t"
    and held: "int (state_unpins_of a (x # ops)) < p" and x: "x \<noteq> SRetire a"
  shows "\<exists>p'. pins_at a i p' (state_step x t) \<and> int (state_unpins_of a ops) < p'"
proof -
  have nz: "p \<noteq> 0" using held by (cases x) (auto split: if_splits)
  have here: "mutable_row a t = Some i" using mutable_row_unique [OF wf i] p by (simp add: pins_at_def)
  have keep: "\<exists>p'. pins_at a i p' t' \<and> int (state_unpins_of a ops) < p'"
    if "pins_at a i p t'" "state_unpins_of a (x # ops) = state_unpins_of a ops" for t'
    using that held by auto
  have row: "j < length (st_rows t)" if "mutable_row b t = Some j" for b j
    using mutable_row_Some [OF wf that] wf by simp
  note opened = pins_at_open [OF wf i p nz] pins_at_on_opened [OF wf i p nz]
  show ?thesis
  proof (cases x)
    case (SRetire b)
    then have "mutable_row b t \<noteq> Some i" using x here p mutable_row_Some [OF wf, of b i] by (auto simp: pins_at_def)
    with SRetire p i wf show ?thesis
      by (intro keep) (auto simp: state_retire_def pins_at_def nth_update split: option.split)
  next
    case (SPush b k d rx)
    obtain f n r where f: "snd (state_push b k d rx t) = (on_opened b k f t)\<lparr>st_dropped := n, st_refused := r\<rparr>"
      "\<forall>s. us_app (f s) = us_app s" "\<forall>s. us_pinned (f s) = us_pinned s" using push_as_on_opened by blast
    then have "pins_at a i p (on_opened b k f t)" by (intro opened(2)) auto
    with f SPush show ?thesis by (intro keep) (simp_all add: pins_at_def)
  next
    case (SPop b k rx)
    have "pins_at a i p (snd (state_pop b k rx t))"
      using p row by (auto simp: state_pop_def Let_def intro!: pins_at_put split: option.split list.split prod.split)
    with SPop show ?thesis by (intro keep) simp_all
  next
    case (SPin b)
    show ?thesis
    proof (cases "b = a")
      case True
      with here p i wf held SPin show ?thesis by (auto simp: state_pin_def pins_at_def)
    next
      case False
      then have "mutable_row b t \<noteq> Some i" using p mutable_row_Some [OF wf, of b i] by (auto simp: pins_at_def)
      with SPin p i wf show ?thesis
        by (intro keep) (auto simp: state_pin_def pins_at_def nth_update split: option.split)
    qed
  next
    case (SUnpin b)
    show ?thesis
    proof (cases "b = a")
      case True
      with here p i wf held SUnpin show ?thesis by (auto simp: state_unpin_def pins_at_def)
    next
      case False
      then have "mutable_row b t \<noteq> Some i" using p mutable_row_Some [OF wf, of b i] by (auto simp: pins_at_def)
      with SUnpin False p i wf show ?thesis
        by (intro keep) (auto simp: state_unpin_def pins_at_def nth_update split: option.split)
    qed
  qed (rule keep; use p opened in \<open>simp add: set_peer_def set_type_def mark_takeover_def
        mark_permanently_unmanaged_def pins_at_def own_def unown_def split: option.split\<close>)+
qed

lemma pinned_state_run:
  "state_wf t \<Longrightarrow> i < UDP_STATE_MAX_ROWS \<Longrightarrow> pins_at a i p t \<Longrightarrow> int (state_unpins_of a ops) < p \<Longrightarrow>
     SRetire a \<notin> set ops \<Longrightarrow> mutable_row a (state_run ops t) = Some i"
proof (induction ops arbitrary: t p)
  case Nil
  then show ?case using mutable_row_unique by (simp add: pins_at_def)
next
  case (Cons x ops)
  obtain p' where "pins_at a i p' (state_step x t)" "int (state_unpins_of a ops) < p'"
    using pinned_state_step [OF Cons.prems(1-4)] Cons.prems(5) by auto
  with Cons.IH [OF wf_state_step [OF Cons.prems(1)] Cons.prems(2)] Cons.prems(5) show ?case by simp
qed

section \<open>Properties\<close>

text \<open>Under every sequence of operations the socket table keeps its shape: 256 rows, an exact
  row counter, one row per socket, both queues of every row within 64 datagrams and 1 MiB with
  an exact byte count, no negative pin count, nothing left in a free row, and no duplicate in
  the pump's own set.\<close>

theorem state_invariant: "state_wf (state_run ops udp_state_table_new)"
  unfolding state_run_def by (rule state_steps.always_inv)

text \<open>C38: No datagram disappears silently: over any run, the datagrams pushed are exactly those
  still queued, those popped, and those counted as dropped, discarded or refused.\<close>

theorem datagrams_accounted:
  "sum_list (map pushed_by ops) =
     popped_in ops udp_state_table_new +
     sum_list (map row_load (st_rows (state_run ops udp_state_table_new))) +
     st_dropped (state_run ops udp_state_table_new) + st_discarded (state_run ops udp_state_table_new) +
     st_refused (state_run ops udp_state_table_new)"
proof -
  have z: "accounted udp_state_table_new = 0"
    by (simp add: accounted_def udp_state_table_new_def row_load_def) (simp add: udp_state_init_def)
  show ?thesis
    using accounted_run [OF wf_new_state, of ops]
    unfolding z accounted_def [of "state_run ops udp_state_table_new"] by linarith
qed

text \<open>What a push does to the socket's queue, verdict by verdict: \<open>accepted\<close> appends;
  \<open>dropped_oldest\<close> appends after dropping the counted number of oldest datagrams, and only when
  the newcomer did not fit; \<open>refused\<close> leaves the queue alone and is counted.\<close>

theorem push_result:
  assumes "state_wf t" and "push_tx a k d t = (v, t')"
  shows "case v of
      refused \<Rightarrow> contents False a t' = contents False a t \<and> st_refused t' = st_refused t + 1 \<and> st_dropped t' = st_dropped t
    | accepted \<Rightarrow> contents False a t' = contents False a t @ [d] \<and> st_refused t' = st_refused t \<and> st_dropped t' = st_dropped t
    | dropped_oldest \<Rightarrow> \<exists>n>0. n \<le> length (contents False a t) \<and> contents False a t' = drop n (contents False a t) @ [d] \<and>
        st_refused t' = st_refused t \<and> st_dropped t' = st_dropped t + n \<and>
        (length (contents False a t) + 1 > UDP_QUEUE_MAX_DATAGRAMS \<or>
         queue_bytes (contents False a t) + length (dg_payload d) > UDP_QUEUE_MAX_BYTES)"
  using push_contents [OF assms(1), of a k d False v t'] assms(2) by (simp add: push_tx_def)

definition datagram_1 :: udp_datagram where
  "datagram_1 = \<lparr>dg_peer = udp_endpoint_init, dg_payload = [1, 2, 3]\<rparr>"

lemma open_new: "state_open 5 1 udp_state_table_new = (Some 0, placed 0 5 1 (aged udp_state_table_new))"
proof -
  have none: "mutable_row 5 udp_state_table_new = None"
    by (simp add: mutable_row_None wf_new_state) (simp add: udp_state_table_new_def)
  have q: "\<not> is_quarantined 5 (udp_state_table_new\<lparr>st_insertions := st_insertions udp_state_table_new + 1\<rparr>)"
    by (simp add: is_quarantined_def udp_state_table_new_def)
  have "scan (\<lambda>i. \<not> sr_used (st_rows udp_state_table_new ! i)) (length (st_rows udp_state_table_new)) = Some 0"
    by (rule scan_0_Some) (simp_all add: udp_state_table_new_def UDP_STATE_MAX_ROWS_def)
  then have slot: "find_slot_for 5 udp_state_table_new = Some 0" by (simp add: find_slot_for_def)
  from wf_new_state show ?thesis
    by (cases rule: open_cases [where a = 5 and k = 1]) (use none q slot in simp_all)
qed

lemma push_new: "\<exists>t'. push_tx 5 1 datagram_1 udp_state_table_new = (accepted, t')"
proof -
  have "queue_of False (st_at (placed 0 5 1 (aged udp_state_table_new)) 0) = ([], 0)"
    by (subst placed_rows)
      (simp_all add: wf_new_state UDP_STATE_MAX_ROWS_def fresh_state_def queue_of_def udp_state_init_def)
  then show ?thesis
    by (simp add: push_tx_def state_push_def open_new datagram_1_def UDP_QUEUE_MAX_BYTES_def)
qed

lemma push_result_witness:
  "contents False 5 (snd (push_tx 5 1 datagram_1 udp_state_table_new)) = contents False 5 udp_state_table_new @ [datagram_1]"
proof -
  obtain t' where t': "push_tx 5 1 datagram_1 udp_state_table_new = (accepted, t')" using push_new by blast
  from push_result [OF wf_new_state t'] t' show ?thesis by simp
qed

text \<open>Per socket and direction the queue is a FIFO with losses: what is popped, followed by what
  is still queued, is a subsequence of what was queued followed by what was pushed.\<close>

theorem queue_order:
  assumes "state_wf t"
  shows "subseq
    (fst (fifo_run (\<lambda>d t. snd (state_push a k d rx t)) (state_pop a k rx) cs t) @
       contents rx a (snd (fifo_run (\<lambda>d t. snd (state_push a k d rx t)) (state_pop a k rx) cs t)))
    (contents rx a t @ puts_of cs)"
  by (rule udp_queue.run_subseq [OF assms])

lemma queue_order_witness:
  "subseq (fst (fifo_run (\<lambda>d t. snd (state_push 5 1 d True t)) (state_pop 5 1 True) [Put datagram_1, Get] udp_state_table_new))
     [datagram_1]"
proof -
  have "contents True 5 udp_state_table_new = []"
    by (rule contents_none) (simp add: mutable_row_None wf_new_state, simp add: udp_state_table_new_def)
  with queue_order [OF wf_new_state, of 5 1 True "[Put datagram_1, Get]"] show ?thesis
    by (simp del: fifo_run.simps) (meson prefixI prefix_imp_subseq subseq_order.trans)
qed

text \<open>\<open>open\<close> turns a socket down exactly when it has no row and its value is quarantined at the
  new insertion, or every row is in use and pinned; a row it takes over is the least recently
  used of the unpinned ones, and only when no row is free.\<close>

theorem open_result:
  assumes wf: "state_wf t" and o': "state_open a k t = (oi, t')"
  shows "(oi = None \<longleftrightarrow> mutable_row a t = None \<and>
      (is_quarantined a (t\<lparr>st_insertions := st_insertions t + 1\<rparr>) \<or>
       (\<forall>i<UDP_STATE_MAX_ROWS. sr_used (st_rows t ! i) \<and> us_pinned (st_at t i) \<noteq> 0))) \<and>
    (\<forall>i. oi = Some i \<longrightarrow> sr_used (st_rows t ! i) \<longrightarrow> us_app (st_at t i) \<noteq> a \<longrightarrow>
       (\<forall>j<UDP_STATE_MAX_ROWS. sr_used (st_rows t ! j) \<and>
          (us_pinned (st_at t j) = 0 \<longrightarrow> us_last_use (st_at t i) \<le> us_last_use (st_at t j))))"
  using wf
proof (cases rule: open_cases [where a = a and k = k])
  case (held i)
  with o' show ?thesis by auto
next
  case quarantined
  with o' show ?thesis by auto
next
  case full
  have "\<forall>i<UDP_STATE_MAX_ROWS. sr_used (st_rows t ! i) \<and> us_pinned (st_at t i) \<noteq> 0"
    using full(3) find_slot_None [OF wf] full(1) mutable_row_None [OF wf] by blast
  with full o' show ?thesis by auto
next
  case (placed i)
  have free: "\<not> (\<forall>i<UDP_STATE_MAX_ROWS. sr_used (st_rows t ! i) \<and> us_pinned (st_at t i) \<noteq> 0)"
    using placed(4,5) by blast
  have "\<forall>j<UDP_STATE_MAX_ROWS. sr_used (st_rows t ! j) \<and>
      (us_pinned (st_at t j) = 0 \<longrightarrow> us_last_use (st_at t i) \<le> us_last_use (st_at t j))"
    if used: "sr_used (st_rows t ! i)"
  proof -
    have n: "scan (\<lambda>i. \<not> sr_used (st_rows t ! i)) (length (st_rows t)) = None"
      using placed(3) used by (auto simp: find_slot_for_def dest: scan_SomeD split: option.splits)
    with placed(3) have "lru (\<lambda>i. \<not> (us_pinned (st_at t i) \<noteq> 0 \<or> us_app (st_at t i) = a))
        (\<lambda>i. us_last_use (st_at t i)) (length (st_rows t)) = Some i" by (simp add: find_slot_for_def)
    from lru_SomeD [OF this] n wf placed(1) mutable_row_None [OF wf, of a] show ?thesis
      by (auto simp: scan_None_iff)
  qed
  with placed o' free show ?thesis by auto
qed

lemma open_result_witness:
  "\<not> (\<forall>i<UDP_STATE_MAX_ROWS. sr_used (st_rows udp_state_table_new ! i) \<and> us_pinned (st_at udp_state_table_new i) \<noteq> 0)"
  using open_result [OF wf_new_state open_new] mutable_row_None [OF wf_new_state, of 5]
  by (simp add: udp_state_table_new_def)

text \<open>A retired socket value gets no row during the next 254 operations, and an \<open>open\<close> or a push
  for it is refused (the insertion counter advances by at most one per operation).\<close>

theorem retired_value_refused:
  assumes wf: "state_wf t" and r: "state_retire a t = (True, t')" and few: "length ops < 255"
    and fits: "unat (st_insertions t) + 256 < 2 ^ 64"
  shows "state_find a (state_run ops t') = None \<and> fst (state_open a k (state_run ops t')) = None \<and>
    fst (state_push a k d rx (state_run ops t')) = refused"
proof -
  have w: "state_wf t'" using wf_state_retire [OF wf, of a] r by simp
  obtain i where i: "mutable_row a t = Some i" using r by (auto simp: state_retire_def split: option.splits)
  have t': "t' = snd (state_retire a t)" using r by simp
  have n: "mutable_row a t' = None"
  proof -
    have "us_app (st_at t' j) \<noteq> a" if j: "j < UDP_STATE_MAX_ROWS" and u: "sr_used (st_rows t' ! j)" for j
    proof -
      have "i \<noteq> j" "st_rows t' ! j = st_rows t ! j"
        using u j i wf by (auto simp: t' state_retire_def nth_update split: if_splits)
      then show ?thesis using mutable_row_unique [OF wf j, of a] u i by auto
    qed
    then show ?thesis using mutable_row_None [OF w, of a] by blast
  qed
  have "unat (st_insertions t + 256) = unat (st_insertions t) + 256"
    using fits by (subst unat_word_ariths) simp
  then have "in_quarantine t' a 255"
    using n i by (auto simp: in_quarantine_def t' state_retire_def UDP_KEY_QUARANTINE_INSERTIONS_def)
  then have "in_quarantine t' a (length ops + Suc 0)" using few in_quarantine_mono by fastforce
  then have q: "in_quarantine (state_run ops t') a (Suc 0)" by (rule quarantine_run [OF w])
  then have o': "fst (state_open a k (state_run ops t')) = None" by (rule quarantine_open(2) [OF wf_state_run [OF w]])
  then have "fst (state_push a k d rx (state_run ops t')) = refused"
    by (cases "state_open a k (state_run ops t')") (simp add: state_push_def)
  with q o' show ?thesis by (simp add: in_quarantine_def state_find_def)
qed

lemma retired_value_refused_witness:
  "fst (state_open 5 9 (state_run [SOpen 6 2] (snd (state_retire 5 (placed 0 5 1 (aged udp_state_table_new)))))) = None"
proof -
  let ?t = "placed 0 5 1 (aged udp_state_table_new)"
  note there = open_row_there [OF wf_new_state open_new]
  then have "mutable_row 5 ?t = Some 0" using mutable_row_unique by blast
  then have r: "state_retire 5 ?t = (True, snd (state_retire 5 ?t))" by (simp add: state_retire_def)
  have "st_insertions ?t = 1" by (simp add: udp_state_table_new_def)
  with retired_value_refused [OF _ r, of "[SOpen 6 2]" 9] there show ?thesis by simp
qed

text \<open>
  The bound is sharp: the counter also counts refused attempts, and it moves before the check,
  so the 256th attempt after the retirement is let in.
\<close>

lemma quarantine_over_at_256th_attempt:
  assumes "st_retired t = [\<lparr>rk_app = a, rk_reusable_at = r + 256\<rparr>]" "st_insertions t = r + 255"
  shows "\<not> is_quarantined a (t\<lparr>st_insertions := st_insertions t + 1\<rparr>)"
  using assms by (simp add: is_quarantined_def add.commute)

text \<open>A pinned row is not evicted: while fewer unpins than pins run and the socket is not
  retired, it keeps its row, whatever else is opened or pushed.\<close>

theorem pinned_row_survives:
  assumes wf: "state_wf t" and row: "state_find a t = Some s" and p: "int (state_unpins_of a ops) < us_pinned s"
    and x: "SRetire a \<notin> set ops"
  shows "mutable_row a (state_run ops t) = mutable_row a t"
proof -
  obtain i where i: "mutable_row a t = Some i" "s = st_at t i" using row by (auto simp: state_find_def)
  with mutable_row_Some [OF wf i(1)] have "i < UDP_STATE_MAX_ROWS" "pins_at a i (us_pinned s) t"
    by (auto simp: pins_at_def)
  from pinned_state_run [OF wf this p x] i show ?thesis by simp
qed

lemma pinned_row_survives_witness:
  "mutable_row 5 (state_run [SOpen 6 2] (snd (state_pin 5 (placed 0 5 1 (aged udp_state_table_new))))) =
   mutable_row 5 (snd (state_pin 5 (placed 0 5 1 (aged udp_state_table_new))))"
proof -
  let ?t = "placed 0 5 1 (aged udp_state_table_new)"
  let ?u = "snd (state_pin 5 ?t)"
  note there = open_row_there [OF wf_new_state open_new]
  then have m: "mutable_row 5 ?t = Some 0" using mutable_row_unique by blast
  have wu: "state_wf ?u" using there by (intro wf_state_pin) blast
  have u: "?u = put_state 0 ((st_at ?t 0)\<lparr>us_pinned := us_pinned (st_at ?t 0) + 1\<rparr>) ?t"
    using m by (simp add: state_pin_def)
  have "mutable_row 5 ?u = Some 0" unfolding u by (subst mutable_row_put) (simp_all add: m)
  moreover have p: "us_pinned (st_at ?u 0) = 1" unfolding u
    by (simp add: wf_new_state UDP_STATE_MAX_ROWS_def placed_rows)
  ultimately have "state_find 5 ?u = Some (st_at ?u 0)" by (simp add: state_find_def)
  then show ?thesis by (rule pinned_row_survives [OF wu]) (simp_all add: p)
qed

text \<open>The pump's own sockets: \<open>own\<close> adds one, \<open>unown\<close> removes one completely, neither changes
  the answer for any other socket, and 0 is never owned.\<close>

theorem owned_sockets:
  assumes "state_wf t"
  shows "(owns s (own s' t) \<longleftrightarrow> s \<noteq> 0 \<and> (s = s' \<or> owns s t)) \<and>
    (owns s (snd (unown s' t)) \<longleftrightarrow> s \<noteq> s' \<and> owns s t)"
proof -
  have "distinct (st_owned t)" using assms unfolding state_wf_def by blast
  then show ?thesis by (auto simp: owns_def own_def unown_owned)
qed

lemma owned_sockets_witness: "owns 7 (own 7 udp_state_table_new)"
  using owned_sockets [OF wf_new_state, of 7 7] by simp

section \<open>Reading the table\<close>

definition pop_tx :: "uintptr \<Rightarrow> u64 \<Rightarrow> udp_state_table \<Rightarrow> udp_datagram option \<times> udp_state_table" where
  "pop_tx app tick t = state_pop app tick False t"

definition pop_rx :: "uintptr \<Rightarrow> u64 \<Rightarrow> udp_state_table \<Rightarrow> udp_datagram option \<times> udp_state_table" where
  "pop_rx app tick t = state_pop app tick True t"

definition state_pins :: "uintptr \<Rightarrow> udp_state_table \<Rightarrow> nat" where
  "state_pins app t = (case state_find app t of None \<Rightarrow> 0 | Some row \<Rightarrow> nat (us_pinned row))"

definition owned_count :: "udp_state_table \<Rightarrow> nat" where
  "owned_count t = length (st_owned t)"

definition live_rows :: "udp_state_table \<Rightarrow> nat" where
  "live_rows t = st_rows_used t"

definition state_capacity :: "udp_state_table \<Rightarrow> nat" where
  "state_capacity t = UDP_STATE_MAX_ROWS"

definition dropped_datagrams :: "udp_state_table \<Rightarrow> nat" where
  "dropped_datagrams t = st_dropped t"

definition discarded_datagrams :: "udp_state_table \<Rightarrow> nat" where
  "discarded_datagrams t = st_discarded t"

definition refused_datagrams :: "udp_state_table \<Rightarrow> nat" where
  "refused_datagrams t = st_refused t"

definition state_insertions :: "udp_state_table \<Rightarrow> u64" where
  "state_insertions t = st_insertions t"

definition quarantine_setting :: "udp_state_table \<Rightarrow> u64" where
  "quarantine_setting t = UDP_KEY_QUARANTINE_INSERTIONS"

end
