(* ===== verification/Ipc_Schema.thy ===== *)
theory Ipc_Schema
  imports Sockaddr
begin

unbundle bit_operations_syntax

text \<open>
  src/common/schema.hpp and src/common/async_io.hpp: the messages injector and injectee
  exchange, their opcode envelope, and the length-prefixed framing. The protobuf coder
  (protopuf) is third-party code: \<open>encode\<close> and \<open>decode\<close> are parameters. The payload of the
  IPC mapping (src/common/utils.hpp) is here too. An unset protobuf field is \<open>None\<close>.
\<close>

section \<open>Messages\<close>

record IpAddr =
  ia_v4_addr :: "u32 option"
  ia_v6_addr :: "u8 list option"
  ia_domain :: "string option"
  ia_port :: "u32 option"

definition ip_addr_init :: IpAddr where
  "ip_addr_init = \<lparr>ia_v4_addr = None, ia_v6_addr = None, ia_domain = None, ia_port = None\<rparr>"

text \<open>An asio address: the 32-bit value of a v4 one, the sixteen wire-order octets of a v6 one.\<close>

datatype ip_address = AddressV4 u32 | AddressV6 "u8 list"

text \<open>
  \<open>to_asio\<close> dereferences \<open>port\<close> and, in the last branch, \<open>domain\<close> without a test, and copies a v6
  vector of any length into the sixteen octets of an array on the stack: an unset field and a
  longer vector are undefined behaviour, the value \<open>None\<close>. Octets a shorter vector does not reach
  are those of \<open>stack\<close>. The textual form of an address is asio's (\<open>text\<close>).
\<close>

definition to_asio :: "(ip_address \<Rightarrow> string) \<Rightarrow> u8 list \<Rightarrow> IpAddr \<Rightarrow> (string \<times> u16) option" where
  "to_asio text stack ip =
     (case ia_v4_addr ip of
        Some v \<Rightarrow> map_option (\<lambda>p. (text (AddressV4 v), ucast p)) (ia_port ip)
      | None \<Rightarrow>
          (case ia_v6_addr ip of
             Some v \<Rightarrow>
               if length v > 16 then None
               else map_option (\<lambda>p. (text (AddressV6 (v @ drop (length v) stack)), ucast p)) (ia_port ip)
           | None \<Rightarrow>
               (case ia_domain ip of
                  None \<Rightarrow> None
                | Some domain \<Rightarrow> map_option (\<lambda>p. (domain, ucast p)) (ia_port ip))))"

definition from_asio :: "ip_address \<Rightarrow> u16 \<Rightarrow> IpAddr" where
  "from_asio addr port =
     (case addr of
        AddressV4 v \<Rightarrow> \<lparr>ia_v4_addr = Some v, ia_v6_addr = None, ia_domain = None, ia_port = Some (ucast port)\<rparr>
      | AddressV6 v \<Rightarrow> \<lparr>ia_v4_addr = None, ia_v6_addr = Some v, ia_domain = None, ia_port = Some (ucast port)\<rparr>)"

record InjecteeConnect =
  ic_handle :: "u32 option"
  ic_addr :: "IpAddr option"
  ic_proxy :: "IpAddr option"
  ic_syscall :: "string option"

record InjecteeMessage =
  im_opcode :: "string option"
  im_connect :: "InjecteeConnect option"
  im_pid :: "u32 option"
  im_subpid :: "u32 option"
  im_token :: "u8 list option"

record InjectorConfig =
  cf_addr :: "IpAddr option"
  cf_log :: "bool option"
  cf_subprocess :: "bool option"
  cf_username :: "string option"
  cf_password :: "string option"

record InjectorMessage =
  jm_opcode :: "string option"
  jm_config :: "InjectorConfig option"

definition injectee_message_init :: InjecteeMessage where
  "injectee_message_init = \<lparr>im_opcode = None, im_connect = None, im_pid = None, im_subpid = None, im_token = None\<rparr>"

text \<open>
  \<open>create_message<M, S>\<close> sets the opcode to the name S and the field of that name; one
  definition per name the program uses.
\<close>

definition create_message_connect :: "InjecteeConnect \<Rightarrow> InjecteeMessage" where
  "create_message_connect v = injectee_message_init\<lparr>im_opcode := Some ''connect'', im_connect := Some v\<rparr>"

definition create_message_pid :: "u32 \<Rightarrow> InjecteeMessage" where
  "create_message_pid v = injectee_message_init\<lparr>im_opcode := Some ''pid'', im_pid := Some v\<rparr>"

definition create_message_subpid :: "u32 \<Rightarrow> InjecteeMessage" where
  "create_message_subpid v = injectee_message_init\<lparr>im_opcode := Some ''subpid'', im_subpid := Some v\<rparr>"

definition create_message_config :: "InjectorConfig \<Rightarrow> InjectorMessage" where
  "create_message_config v = \<lparr>jm_opcode = Some ''config'', jm_config = Some v\<rparr>"

definition compare_message_connect :: "InjecteeMessage \<Rightarrow> InjecteeConnect option" where
  "compare_message_connect msg = (if im_opcode msg = Some ''connect'' then im_connect msg else None)"

definition compare_message_pid :: "InjecteeMessage \<Rightarrow> u32 option" where
  "compare_message_pid msg = (if im_opcode msg = Some ''pid'' then im_pid msg else None)"

definition compare_message_subpid :: "InjecteeMessage \<Rightarrow> u32 option" where
  "compare_message_subpid msg = (if im_opcode msg = Some ''subpid'' then im_subpid msg else None)"

definition compare_message_config :: "InjectorMessage \<Rightarrow> InjectorConfig option" where
  "compare_message_config msg = (if jm_opcode msg = Some ''config'' then jm_config msg else None)"

lemmas message_defs = create_message_connect_def create_message_pid_def create_message_subpid_def
  create_message_config_def compare_message_connect_def compare_message_pid_def
  compare_message_subpid_def compare_message_config_def injectee_message_init_def

text \<open>The envelope is unambiguous: a message answers to its own opcode and to no other.\<close>

lemma compare_create [simp]:
  "compare_message_connect (create_message_connect c) = Some c" "compare_message_pid (create_message_pid p) = Some p"
  "compare_message_subpid (create_message_subpid p) = Some p" "compare_message_config (create_message_config f) = Some f"
  "compare_message_pid (create_message_connect c) = None" "compare_message_subpid (create_message_connect c) = None"
  "compare_message_connect (create_message_pid p) = None" "compare_message_subpid (create_message_pid p) = None"
  "compare_message_connect (create_message_subpid p) = None" "compare_message_pid (create_message_subpid p) = None"
  "compare_message_pid (create_message_pid p\<lparr>im_token := t\<rparr>) = Some p"
  by (simp_all add: message_defs)

section \<open>Framing\<close>

text \<open>The four bytes of a \<open>std::int32_t\<close> on the little-endian target.\<close>

definition le_bytes32 :: "u32 \<Rightarrow> u8 list" where
  "le_bytes32 w = [ucast w, ucast (drop_bit 8 w), ucast (drop_bit 16 w), ucast (drop_bit 24 w)]"

definition le_value32 :: "u8 list \<Rightarrow> u32" where
  "le_value32 bs = ucast (bs ! 0) OR push_bit 8 (ucast (bs ! 1)) OR push_bit 16 (ucast (bs ! 2)) OR
     push_bit 24 (ucast (bs ! 3))"

lemma le_value_bytes [simp]: "le_value32 (le_bytes32 w @ r) = w"
proof (rule bit_word_eqI)
  fix n assume "n < LENGTH(32)"
  then consider "n < 8" | k where "n = 8 + k" "k < 8" | k where "n = 16 + k" "k < 8"
    | k where "n = 24 + k" "k < 8"
    by (cases "n < 8"; cases "n < 16"; cases "n < 24") (auto dest!: le_Suc_ex simp: not_less)
  then show "bit (le_value32 (le_bytes32 w @ r)) n = bit w n"
    unfolding le_value32_def le_bytes32_def by cases (auto simp: bit_simps)
qed

lemma le_bytes_length [simp]: "length (le_bytes32 w) = 4"
  by (simp add: le_bytes32_def)

text \<open>What \<open>async_write_message\<close> puts on the stream.\<close>

definition async_write_message :: "('m \<Rightarrow> u8 list) \<Rightarrow> 'm \<Rightarrow> u8 list" where
  "async_write_message encode msg = (let buf = encode msg in le_bytes32 (of_nat (length buf)) @ buf)"

text \<open>
  What \<open>async_read_message\<close> makes of a stream that ends after the given bytes: the message
  and the rest of the stream, or \<open>None\<close> when it throws (end of stream, a negative length, a
  body the coder rejects).
\<close>

definition async_read_message :: "(u8 list \<Rightarrow> ('m \<times> u8 list) option) \<Rightarrow> u8 list \<Rightarrow> ('m \<times> u8 list) option" where
  "async_read_message decode s =
     (if length s < 4 then None
      else let len = sint (le_value32 s); rest = drop 4 s in
        if len < 0 \<or> length rest < nat len then None
        else (case decode (take (nat len) rest) of
          None \<Rightarrow> None
        | Some (msg, remains) \<Rightarrow> Some (msg, drop (nat len) rest)))"

fun read_messages :: "(u8 list \<Rightarrow> ('m \<times> u8 list) option) \<Rightarrow> nat \<Rightarrow> u8 list \<Rightarrow> 'm list option" where
  "read_messages decode 0 s = Some []"
| "read_messages decode (Suc n) s =
     (case async_read_message decode s of
        None \<Rightarrow> None
      | Some (m, rest) \<Rightarrow> map_option (Cons m) (read_messages decode n rest))"

text \<open>The coder's documented behaviour: decoding an encoding gives the message back.\<close>

definition coder_law :: "('m \<Rightarrow> u8 list) \<Rightarrow> (u8 list \<Rightarrow> ('m \<times> u8 list) option) \<Rightarrow> bool" where
  "coder_law encode decode \<longleftrightarrow> (\<forall>m. \<exists>r. decode (encode m) = Some (m, r))"

lemma read_write_at:
  assumes "decode (encode m) = Some (m, r)" and len: "length (encode m) < 2 ^ 31"
  shows "async_read_message decode (async_write_message encode m @ rest) = Some (m, rest)"
proof -
  let ?n = "length (encode m)"
  have "sint (of_nat ?n :: u32) = int ?n"
    using len by (simp add: signed_of_nat signed_take_bit_int_eq_self)
  then show ?thesis using assms(1) by (simp add: async_read_message_def async_write_message_def Let_def)
qed

lemma read_frames:
  assumes "\<forall>m \<in> set ms. (\<exists>r. decode (encode m) = Some (m, r)) \<and> length (encode m) < 2 ^ 31"
  shows "read_messages decode (length ms) (concat (map (async_write_message encode) ms) @ rest) = Some ms"
  using assms
proof (induction ms)
  case (Cons m ms)
  then obtain r where "decode (encode m) = Some (m, r)" by auto
  with Cons show ?case by (simp add: read_write_at)
qed simp

text \<open>C36: Framing is self-delimiting: any sequence of messages written to a stream is read back as
  that sequence, in order, with nothing of one message taken for another, provided the coder
  decodes its own encodings and no message reaches 2 GiB.\<close>

theorem framed_messages_roundtrip:
  assumes "coder_law encode decode" and "\<forall>m \<in> set ms. length (encode m) < 2 ^ 31"
  shows "read_messages decode (length ms) (concat (map (async_write_message encode) ms) @ rest) = Some ms"
  using assms by (intro read_frames) (simp add: coder_law_def)

lemma framed_messages_roundtrip_witness:
  "read_messages (\<lambda>b. Some (b, [])) (length [[1, 2], [3 :: u8]])
     (concat (map (async_write_message id) [[1, 2], [3]]) @ [9 :: u8]) = Some [[1, 2], [3]]"
  by (rule framed_messages_roundtrip) (simp_all add: coder_law_def)

text \<open>A length with the sign bit set is refused before anything is allocated.\<close>

lemma negative_length_refused:
  "async_read_message decode ([0, 0, 0, 0x80] @ rest) = None"
proof -
  have "sint (le_value32 ([0, 0, 0, 0x80] @ rest)) < 0"
    by (simp add: le_value32_def)
  then show ?thesis by (simp add: async_read_message_def Let_def)
qed

section \<open>The payload of the IPC mapping\<close>

definition port_mapping_token_size :: nat where
  "port_mapping_token_size = 8"

record port_mapping_payload =
  pm_port :: u16
  pm_token :: "u8 list"

text \<open>\<open>draw i\<close> is the i-th value of the random device, \<open>None\<close> when the draw throws.\<close>

fun draw_token :: "(nat \<Rightarrow> u32 option) \<Rightarrow> nat \<Rightarrow> nat \<Rightarrow> u8 list option" where
  "draw_token draw k 0 = Some []"
| "draw_token draw k (Suc n) =
     (case draw k of
        None \<Rightarrow> None
      | Some part \<Rightarrow> map_option (append (le_bytes32 part)) (draw_token draw (Suc k) n))"

definition get_port_mapping_payload :: "(nat \<Rightarrow> u32 option) \<Rightarrow> u16 \<Rightarrow> port_mapping_payload option" where
  "get_port_mapping_payload draw port =
     map_option (\<lambda>token. \<lparr>pm_port = port, pm_token = token\<rparr>)
       (draw_token draw 0 (port_mapping_token_size div 4))"

lemma draw_token_result:
  "draw_token draw k n = (if \<forall>i<n. draw (k + i) \<noteq> None
     then Some (concat (map (\<lambda>i. le_bytes32 (the (draw (k + i)))) [0..<n])) else None)"
proof (induction n arbitrary: k)
  case (Suc n)
  have "(\<forall>i<Suc n. draw (k + i) \<noteq> None) \<longleftrightarrow> draw k \<noteq> None \<and> (\<forall>i<n. draw (Suc k + i) \<noteq> None)"
    by (auto simp: less_Suc_eq_0_disj)
  moreover have "map (\<lambda>i. le_bytes32 (the (draw (k + i)))) [0..<Suc n] =
      le_bytes32 (the (draw k)) # map (\<lambda>i. le_bytes32 (the (draw (Suc k + i)))) [0..<n]"
    unfolding upt_conv_Cons [OF zero_less_Suc] map_Suc_upt [symmetric] by simp
  ultimately show ?case using Suc.IH [of "Suc k"] by (auto split: option.split)
qed simp

text \<open>An injection gets a token or is refused: the payload exists exactly when every draw of the
  random device succeeded, and then it carries the port and eight bytes that are exactly the
  two values drawn; there is no fallback token.\<close>

theorem port_mapping_payload_drawn:
  "get_port_mapping_payload draw port =
     (case (draw 0, draw 1) of
        (Some a, Some b) \<Rightarrow> Some \<lparr>pm_port = port, pm_token = le_bytes32 a @ le_bytes32 b\<rparr>
      | _ \<Rightarrow> None)"
  by (simp add: get_port_mapping_payload_def port_mapping_token_size_def numeral_2_eq_2 split: option.split)

end
