(* ===== verification/Socks5_Wire.thy ===== *)
theory Socks5_Wire
  imports Ipc_Schema
begin

unbundle bit_operations_syntax

text \<open>
  The byte layouts of src/injectee/socks5.hpp: greeting, request, RFC 1929 login, and the UDP
  datagram header. A builder that returns 0 and writes nothing is \<open>None\<close>; one that returns n
  is \<open>Some\<close> of the n bytes it wrote. An address argument is the bytes at the pointer,
  \<open>None\<close> for null.
\<close>

section \<open>Constants\<close>

definition SOCKS_VERSION :: u8 where "SOCKS_VERSION = 5"
definition SOCKS_NO_AUTHENTICATION :: u8 where "SOCKS_NO_AUTHENTICATION = 0"
definition SOCKS_USERNAME_PASSWORD :: u8 where "SOCKS_USERNAME_PASSWORD = 2"
definition SOCKS_CONNECT :: u8 where "SOCKS_CONNECT = 1"
definition SOCKS_UDP_ASSOCIATE :: u8 where "SOCKS_UDP_ASSOCIATE = 3"
definition SOCKS_IPV4 :: u8 where "SOCKS_IPV4 = 1"
definition SOCKS_DOMAINNAME :: u8 where "SOCKS_DOMAINNAME = 3"
definition SOCKS_IPV6 :: u8 where "SOCKS_IPV6 = 4"
definition SOCKS_SUCCESS :: u8 where "SOCKS_SUCCESS = 0"
definition SOCKS_GENERAL_FAILURE :: u8 where "SOCKS_GENERAL_FAILURE = 4"
definition SOCKS_FRAG_NOT :: u8 where "SOCKS_FRAG_NOT = 0"
definition SOCKS_AUTH_VERSION :: u8 where "SOCKS_AUTH_VERSION = 1"
definition SOCKS_AUTH_FAILURE :: u8 where "SOCKS_AUTH_FAILURE = 0xFF"
definition SOCKS_DOMAIN_MAX_LENGTH :: nat where "SOCKS_DOMAIN_MAX_LENGTH = 255"
definition SOCKS_NMETHODS_MAX :: nat where "SOCKS_NMETHODS_MAX = 255"
definition SOCKS_REQUEST_MAX_SIZE :: nat where "SOCKS_REQUEST_MAX_SIZE = 4 + 1 + SOCKS_DOMAIN_MAX_LENGTH + 2"
definition SOCKS_AUTH_MAX_SIZE :: nat where "SOCKS_AUTH_MAX_SIZE = 1 + 1 + 255 + 1 + 255"

definition SOCKS_UDP_HEADER_MAX :: nat where "SOCKS_UDP_HEADER_MAX = 4 + 1 + SOCKS_DOMAIN_MAX_LENGTH + 2"
definition SOCKS_GREETING_MAX_SIZE :: nat where "SOCKS_GREETING_MAX_SIZE = 2 + SOCKS_NMETHODS_MAX"

lemmas socks_consts = SOCKS_VERSION_def SOCKS_NO_AUTHENTICATION_def SOCKS_USERNAME_PASSWORD_def
  SOCKS_CONNECT_def SOCKS_UDP_ASSOCIATE_def SOCKS_IPV4_def SOCKS_DOMAINNAME_def SOCKS_IPV6_def
  SOCKS_SUCCESS_def SOCKS_GENERAL_FAILURE_def SOCKS_FRAG_NOT_def SOCKS_AUTH_VERSION_def
  SOCKS_AUTH_FAILURE_def SOCKS_DOMAIN_MAX_LENGTH_def SOCKS_NMETHODS_MAX_def
  SOCKS_REQUEST_MAX_SIZE_def SOCKS_AUTH_MAX_SIZE_def

section \<open>Credentials\<close>

record socks5_credentials =
  cr_username :: string
  cr_password :: string

definition credentials_enabled :: "socks5_credentials \<Rightarrow> bool" where
  "credentials_enabled c = (cr_username c \<noteq> [] \<or> cr_password c \<noteq> [])"

definition socks5_credentials_from :: "InjectorConfig \<Rightarrow> socks5_credentials" where
  "socks5_credentials_from cfg =
     \<lparr>cr_username = (case cf_username cfg of Some user \<Rightarrow> user | None \<Rightarrow> []),
      cr_password = (case cf_password cfg of Some pass \<Rightarrow> pass | None \<Rightarrow> [])\<rparr>"

definition char_bytes :: "string \<Rightarrow> u8 list" where
  "char_bytes s = map of_char s"

section \<open>Builders\<close>

definition socks5_build_greeting :: "u8 list option \<Rightarrow> u8 list option" where
  "socks5_build_greeting methods =
     (case methods of
        None \<Rightarrow> None
      | Some ms \<Rightarrow>
          if length ms = 0 \<or> length ms > SOCKS_NMETHODS_MAX then None
          else Some (SOCKS_VERSION # of_nat (length ms) # ms))"

definition socks5_write_atyp_addr :: "u8 \<Rightarrow> u8 list option \<Rightarrow> u8 list option" where
  "socks5_write_atyp_addr atyp addr_bytes =
     (case addr_bytes of
        None \<Rightarrow> None
      | Some src \<Rightarrow>
          if atyp = SOCKS_IPV4 then Some (atyp # take 4 src)
          else if atyp = SOCKS_IPV6 then Some (atyp # take 16 src)
          else if atyp = SOCKS_DOMAINNAME then
            (let name = takeWhile (\<lambda>c. c \<noteq> 0) src in
             if length name = 0 \<or> length name > SOCKS_DOMAIN_MAX_LENGTH then None
             else Some (atyp # of_nat (length name) # name))
          else None)"

definition socks5_write_port :: "u16 \<Rightarrow> u8 list" where
  "socks5_write_port port = [ucast (drop_bit 8 port AND 0xFF), ucast (port AND 0xFF)]"

definition socks5_build_request_cmd :: "u8 \<Rightarrow> u8 \<Rightarrow> u8 list option \<Rightarrow> u16 \<Rightarrow> u8 list option" where
  "socks5_build_request_cmd cmd atyp addr_bytes port =
     (case socks5_write_atyp_addr atyp addr_bytes of
        None \<Rightarrow> None
      | Some field \<Rightarrow> Some ([SOCKS_VERSION, cmd, 0] @ field @ socks5_write_port port))"

definition socks5_build_request :: "u8 \<Rightarrow> u8 list option \<Rightarrow> u16 \<Rightarrow> u8 list option" where
  "socks5_build_request atyp addr_bytes port = socks5_build_request_cmd SOCKS_CONNECT atyp addr_bytes port"

definition socks5_build_request_from_sockaddr_cmd :: "u8 \<Rightarrow> u8 list option \<Rightarrow> u8 list option" where
  "socks5_build_request_from_sockaddr_cmd cmd addr =
     (case addr of
        None \<Rightarrow> None
      | Some sa \<Rightarrow>
          if sa_family sa = AF_INET then
            socks5_build_request_cmd cmd SOCKS_IPV4 (Some (drop 4 sa)) (sockaddr_port sa)
          else if sa_family sa = AF_INET6 then
            socks5_build_request_cmd cmd SOCKS_IPV6 (Some (drop 8 sa)) (sockaddr_port sa)
          else None)"

definition socks5_build_request_from_sockaddr :: "u8 list option \<Rightarrow> u8 list option" where
  "socks5_build_request_from_sockaddr addr = socks5_build_request_from_sockaddr_cmd SOCKS_CONNECT addr"

definition socks5_build_associate_from_sockaddr :: "u8 list option \<Rightarrow> u8 list option" where
  "socks5_build_associate_from_sockaddr bind_hint = socks5_build_request_from_sockaddr_cmd SOCKS_UDP_ASSOCIATE bind_hint"

definition socks5_build_request_from_ip_addr :: "IpAddr \<Rightarrow> u8 list option" where
  "socks5_build_request_from_ip_addr addr =
     (case ia_port addr of
        None \<Rightarrow> None
      | Some port_field \<Rightarrow>
          let port = ucast port_field in
          (case ia_v4_addr addr of
             Some host_order \<Rightarrow>
               socks5_build_request SOCKS_IPV4
                 (Some [ucast (drop_bit 24 host_order AND 0xFF), ucast (drop_bit 16 host_order AND 0xFF),
                        ucast (drop_bit 8 host_order AND 0xFF), ucast (host_order AND 0xFF)]) port
           | None \<Rightarrow>
               (case ia_v6_addr addr of
                  Some v6 \<Rightarrow> if length v6 \<noteq> 16 then None else socks5_build_request SOCKS_IPV6 (Some v6) port
                | None \<Rightarrow>
                    (case ia_domain addr of
                       Some domain \<Rightarrow>
                         if length domain > SOCKS_DOMAIN_MAX_LENGTH then None
                         else socks5_build_request SOCKS_DOMAINNAME (Some (char_bytes domain @ [0])) port
                     | None \<Rightarrow> None))))"

definition socks5_build_auth :: "string \<Rightarrow> string \<Rightarrow> u8 list option" where
  "socks5_build_auth user pass =
     (if length user > 0xFF \<or> length pass > 0xFF then None
      else Some ([SOCKS_AUTH_VERSION, of_nat (length user)] @ char_bytes user @
                 [of_nat (length pass)] @ char_bytes pass))"

definition socks5_build_udp_header :: "u8 \<Rightarrow> u8 list option \<Rightarrow> u16 \<Rightarrow> u8 \<Rightarrow> u8 list option" where
  "socks5_build_udp_header atyp addr_bytes port frag =
     (case socks5_write_atyp_addr atyp addr_bytes of
        None \<Rightarrow> None
      | Some field \<Rightarrow> Some ([0, 0, frag] @ field @ socks5_write_port port))"

section \<open>The datagram header parser\<close>

record socks5_udp_datagram =
  ud_atyp :: u8
  ud_addr :: "u8 list"
  ud_port :: u16
  ud_header_size :: nat

text \<open>Where the address octets start and how many there are, for the parser's \<open>atyp\<close> cases.\<close>

definition udp_addr_field :: "u8 list \<Rightarrow> nat \<Rightarrow> (nat \<times> nat) option" where
  "udp_addr_field bytes sz =
     (let atyp = bytes ! 3 in
      if atyp = SOCKS_IPV4 then Some (4, 4)
      else if atyp = SOCKS_IPV6 then Some (4, 16)
      else if atyp = SOCKS_DOMAINNAME then
        (if sz < 5 then None
         else let name_len = unat (bytes ! 4) in
           if name_len = 0 \<or> name_len > 16 \<or> sz < 5 + name_len + 2 then None
           else Some (5, name_len))
      else None)"

definition socks5_parse_udp_header :: "u8 list option \<Rightarrow> nat \<Rightarrow> socks5_udp_datagram option" where
  "socks5_parse_udp_header data sz =
     (case data of
        None \<Rightarrow> None
      | Some bytes \<Rightarrow>
          if sz < 4 then None
          else if bytes ! 2 \<noteq> SOCKS_FRAG_NOT then None
          else
            (case udp_addr_field bytes sz of
               None \<Rightarrow> None
             | Some (addr_at, addr_size) \<Rightarrow>
                 let port_at = addr_at + addr_size in
                 if sz < port_at + 2 then None
                 else Some \<lparr>ud_atyp = bytes ! 3,
                   ud_addr = take addr_size (drop addr_at bytes) @ replicate (16 - addr_size) 0,
                   ud_port = push_bit 8 (ucast (bytes ! port_at)) OR ucast (bytes ! (port_at + 1)),
                   ud_header_size = port_at + 2\<rparr>))"

section \<open>Lemmas on the layouts\<close>

lemma mask8_u16: "(0xFF :: u16) = mask 8"
  by (simp add: mask_eq_exp_minus_1)

lemma write_port_bytes: "socks5_write_port port = [ucast (drop_bit 8 port), ucast port]"
  unfolding socks5_write_port_def mask8_u16
  by (auto intro!: bit_word_eqI simp: bit_simps dest: bit_imp_le_length)

lemma atyp_distinct [simp]:
  "SOCKS_IPV4 \<noteq> SOCKS_IPV6" "SOCKS_IPV4 \<noteq> SOCKS_DOMAINNAME" "SOCKS_IPV6 \<noteq> SOCKS_DOMAINNAME"
  "SOCKS_IPV6 \<noteq> SOCKS_IPV4" "SOCKS_DOMAINNAME \<noteq> SOCKS_IPV4" "SOCKS_DOMAINNAME \<noteq> SOCKS_IPV6"
  by (simp_all add: socks_consts)

lemma unat_of_byte_len: "n \<le> 255 \<Longrightarrow> unat (of_nat n :: u8) = n"
  by (simp add: unat_of_nat take_bit_nat_eq_self)

text \<open>A complete address argument: as many octets as the type says, or a proper name.\<close>

definition full_addr :: "u8 \<Rightarrow> u8 list \<Rightarrow> bool" where
  "full_addr atyp a =
     (atyp = SOCKS_IPV4 \<and> length a = 4 \<or> atyp = SOCKS_IPV6 \<and> length a = 16 \<or>
      atyp = SOCKS_DOMAINNAME \<and> a \<noteq> [] \<and> length a \<le> 255 \<and> 0 \<notin> set a)"

text \<open>What the parser reads when the header it is given is one the builder wrote.\<close>

lemma takeWhile_name: "0 \<notin> set a \<Longrightarrow> takeWhile (\<lambda>c. c \<noteq> 0) (a @ 0 # r) = (a :: u8 list)"
  by (simp add: takeWhile_append2)

definition addr_arg :: "u8 \<Rightarrow> u8 list \<Rightarrow> u8 list" where
  "addr_arg atyp a = (if atyp = SOCKS_DOMAINNAME then a @ [0] else a)"

lemma write_atyp_full:
  "full_addr atyp a \<Longrightarrow> socks5_write_atyp_addr atyp (Some (addr_arg atyp a)) =
     Some (if atyp = SOCKS_DOMAINNAME then atyp # of_nat (length a) # a else atyp # a)"
  by (auto simp: full_addr_def socks5_write_atyp_addr_def addr_arg_def Let_def takeWhile_name SOCKS_DOMAIN_MAX_LENGTH_def)

lemma parse_built:
  assumes f: "full_addr atyp a" and short: "atyp = SOCKS_DOMAINNAME \<Longrightarrow> length a \<le> 16"
    and h: "socks5_build_udp_header atyp (Some (addr_arg atyp a)) port SOCKS_FRAG_NOT = Some h"
  shows "socks5_parse_udp_header (Some (h @ payload)) (length (h @ payload)) =
    Some \<lparr>ud_atyp = atyp, ud_addr = a @ replicate (16 - length a) 0, ud_port = port, ud_header_size = length h\<rparr>"
proof -
  have hh: "h = [0, 0, SOCKS_FRAG_NOT] @
      (if atyp = SOCKS_DOMAINNAME then atyp # of_nat (length a) # a else atyp # a) @ socks5_write_port port"
    using h write_atyp_full [OF f] by (simp add: socks5_build_udp_header_def)
  note port = host_port_of_bytes [of port]
  consider (v4) "atyp = SOCKS_IPV4" "length a = 4" | (v6) "atyp = SOCKS_IPV6" "length a = 16"
    | (name) "atyp = SOCKS_DOMAINNAME" "a \<noteq> []" "length a \<le> 16"
    using f short by (auto simp: full_addr_def)
  then show ?thesis
  proof cases
    case v4
    then show ?thesis using port
      by (simp add: hh write_port_bytes socks5_parse_udp_header_def udp_addr_field_def nth_append)
  next
    case v6
    then show ?thesis using port
      by (simp add: hh write_port_bytes socks5_parse_udp_header_def udp_addr_field_def nth_append)
  next
    case name
    then show ?thesis using port
      by (simp add: hh write_port_bytes socks5_parse_udp_header_def udp_addr_field_def nth_append unat_of_byte_len Let_def)
  qed
qed

section \<open>Properties\<close>

text \<open>C31: A datagram header the builder writes (whole datagrams, names of up to 16 octets) is read
  back by the parser with the same type, address and port, and with the payload starting
  exactly where the header ends.\<close>

theorem udp_header_roundtrip:
  assumes "full_addr atyp a" and "atyp = SOCKS_DOMAINNAME \<Longrightarrow> length a \<le> 16"
    and "socks5_build_udp_header atyp (Some (addr_arg atyp a)) port SOCKS_FRAG_NOT = Some h"
  shows "socks5_parse_udp_header (Some (h @ payload)) (length (h @ payload)) =
    Some \<lparr>ud_atyp = atyp, ud_addr = a @ replicate (16 - length a) 0, ud_port = port, ud_header_size = length h\<rparr>"
  using assms by (rule parse_built)

lemma udp_header_roundtrip_witness:
  "\<exists>h. socks5_build_udp_header SOCKS_IPV4 (Some [10, 0, 0, 1]) 53 SOCKS_FRAG_NOT = Some h \<and>
     socks5_parse_udp_header (Some (h @ [7, 7])) (length (h @ [7, 7])) =
       Some \<lparr>ud_atyp = SOCKS_IPV4, ud_addr = [10, 0, 0, 1] @ replicate 12 0, ud_port = 53, ud_header_size = length h\<rparr>"
proof -
  have f: "full_addr SOCKS_IPV4 [10, 0, 0, 1]" by (simp add: full_addr_def)
  obtain h where h: "socks5_build_udp_header SOCKS_IPV4 (Some (addr_arg SOCKS_IPV4 [10, 0, 0, 1])) 53 SOCKS_FRAG_NOT = Some h"
    by (auto simp: socks5_build_udp_header_def write_atyp_full [OF f])
  from udp_header_roundtrip [OF f _ h, of "[7, 7]"] h show ?thesis by (simp add: addr_arg_def)
qed

lemma udp_addr_field_cases:
  "udp_addr_field b n = Some (at, sz) \<Longrightarrow> 0 < sz \<and> sz \<le> 16 \<and>
     (at = 4 \<and> b ! 3 \<noteq> SOCKS_DOMAINNAME \<and> 4 \<le> sz \<or> at = 5 \<and> b ! 3 = SOCKS_DOMAINNAME \<and> sz = unat (b ! 4))"
  by (auto simp: udp_addr_field_def Let_def split: if_splits)

text \<open>C32: The parser accepts only whole headers and reads nothing behind them: what it accepts lies
  inside the buffer, is not a fragment, and any other payload behind the same header gives the
  same answer.\<close>

theorem udp_header_bounds:
  assumes p: "socks5_parse_udp_header (Some b) (length b) = Some d"
  shows "ud_header_size d \<le> length b \<and> length (ud_addr d) = 16 \<and> b ! 2 = SOCKS_FRAG_NOT \<and>
    socks5_parse_udp_header (Some (take (ud_header_size d) b @ x)) (ud_header_size d + length x) = Some d"
proof -
  have g: "4 \<le> length b" "b ! 2 = SOCKS_FRAG_NOT"
    using p by (auto simp: socks5_parse_udp_header_def split: if_splits)
  then obtain at sz where s: "udp_addr_field b (length b) = Some (at, sz)"
    using p by (auto simp: socks5_parse_udp_header_def split: option.splits)
  note at = udp_addr_field_cases [OF s]
  have d: "at + sz + 2 \<le> length b" "d = \<lparr>ud_atyp = b ! 3, ud_addr = take sz (drop at b) @ replicate (16 - sz) 0,
      ud_port = push_bit 8 (ucast (b ! (at + sz))) OR ucast (b ! (at + sz + 1)), ud_header_size = at + sz + 2\<rparr>"
    using p g by (auto simp: socks5_parse_udp_header_def s Let_def split: if_splits)
  define h where "h = at + sz + 2"
  define c where "c = take h b @ x"
  have nth: "c ! i = b ! i" if "i < h" for i using that d(1) by (simp add: nth_append c_def h_def)
  have low: "2 < h" "3 < h" "4 < h" "at + sz < h" "at + sz + 1 < h" "4 \<le> h" "h \<le> length b"
    using at d(1) by (auto simp: h_def)
  have field: "udp_addr_field c (h + length x) = Some (at, sz)"
    using s at nth [OF low(2)] nth [OF low(3)] by (auto simp: udp_addr_field_def Let_def h_def split: if_splits)
  have sl: "take sz (drop at c) = take sz (drop at b)"
    using d(1) by (intro nth_equalityI) (auto simp: nth_append c_def h_def)
  have "socks5_parse_udp_header (Some c) (h + length x) = Some d"
    using field sl d(2) low g(2) nth [OF low(1)] nth [OF low(2)] nth [OF low(4)] nth [OF low(5)]
    by (simp add: socks5_parse_udp_header_def Let_def h_def)
  moreover have "ud_header_size d = h" using d(2) by (simp add: h_def)
  ultimately show ?thesis using d g at low(7) by (auto simp: c_def)
qed

lemma udp_header_bounds_witness:
  "\<exists>d. ud_header_size d = 10 \<and> socks5_parse_udp_header (Some (take 10 [0, 0, 0, 1, 10, 0, 0, 1, 0, 53, 1, 2, 3] @ [9])) (10 + length [9 :: u8]) = Some d"
proof -
  let ?b = "[0, 0, 0, 1, 10, 0, 0, 1, 0, 53, 1, 2, 3] :: u8 list"
  let ?d = "\<lparr>ud_atyp = 1, ud_addr = [10, 0, 0, 1] @ replicate 12 0, ud_port = 53, ud_header_size = 10\<rparr>"
  have p: "socks5_parse_udp_header (Some ?b) (length ?b) = Some ?d" by code_simp
  from udp_header_bounds [OF p, of "[9]"] show ?thesis by (intro exI [of _ ?d]) simp
qed

lemma u32_octet: "(ucast (drop_bit k u AND 0xFF) :: u8) = ucast (drop_bit k (u :: u32))"
proof -
  have m: "(0xFF :: u32) = mask 8" by (simp add: mask_eq_exp_minus_1)
  show ?thesis unfolding m
  by (auto intro!: bit_word_eqI simp: bit_simps dest: bit_imp_le_length)
qed

text \<open>The two ways to ask for an address agree byte for byte: a live sockaddr, whose octets are
  in network order, and the IPC form of the same address, whose v4 address and port are host
  order integers and whose v6 octets are in wire order.\<close>

theorem requests_agree:
  "socks5_build_request_from_sockaddr (Some (sockaddr_in_bytes
      (ucast (drop_bit 24 v4), ucast (drop_bit 16 v4), ucast (drop_bit 8 v4), ucast v4) port)) =
   socks5_build_request_from_ip_addr (from_asio (AddressV4 v4) port) \<and>
   (length v6 = 16 \<longrightarrow>
    socks5_build_request_from_sockaddr (Some (sockaddr_in6_bytes v6 port)) =
    socks5_build_request_from_ip_addr (from_asio (AddressV6 v6) port))"
proof -
  have f4: "sa_family (sockaddr_in_bytes v port) = AF_INET" for v
    by (simp add: sockaddr_in_bytes_def split: prod.split)
  have f6: "sa_family (sockaddr_in6_bytes v6 port) = AF_INET6"
    by (simp add: sockaddr_in6_bytes_def)
  have p: "ucast (ucast port :: u32) = port"
    by (auto intro!: bit_word_eqI simp: bit_simps dest: bit_imp_le_length)
  have o8: "ucast (u AND 0xFF) = (ucast u :: u8)" for u :: u32
    using u32_octet [of 0 u] by simp
  show ?thesis
    by (simp add: socks5_build_request_from_sockaddr_def socks5_build_request_from_sockaddr_cmd_def f4 f6
        socks5_build_request_from_ip_addr_def from_asio_def socks5_build_request_def p u32_octet o8
        socks5_build_request_cmd_def socks5_write_atyp_addr_def)
      (simp add: sockaddr_in_bytes_def sockaddr_in6_bytes_def)
qed

lemma requests_agree_witness:
  "socks5_build_request_from_sockaddr (Some (sockaddr_in6_bytes (replicate 15 0 @ [1]) 1080)) =
    socks5_build_request_from_ip_addr (from_asio (AddressV6 (replicate 15 0 @ [1])) 1080)"
  using requests_agree [of 0 1080 "replicate 15 0 @ [1]"] by simp

text \<open>An RFC 1929 server's reading of the subnegotiation.\<close>

definition read_auth :: "u8 list \<Rightarrow> (u8 list \<times> u8 list) option" where
  "read_auth b =
     (if length b < 2 \<or> b ! 0 \<noteq> 1 then None
      else let n = unat (b ! 1) in
        if length b < 3 + n then None
        else let k = unat (b ! (2 + n)) in
          if length b \<noteq> 3 + n + k then None
          else Some (take n (drop 2 b), drop (3 + n) b))"

text \<open>The login subnegotiation carries the login exactly: a server that reads it by the RFC gets
  the user name and the password, octet for octet; it is built for every pair that fits one
  length octet each, and always fits the 513-byte frame.\<close>

theorem auth_frame_roundtrip:
  "socks5_build_auth user pass =
     (if length user \<le> 255 \<and> length pass \<le> 255
      then Some (the (socks5_build_auth user pass)) else None) \<and>
   (\<forall>b. socks5_build_auth user pass = Some b \<longrightarrow>
      read_auth b = Some (char_bytes user, char_bytes pass) \<and> length b \<le> SOCKS_AUTH_MAX_SIZE)"
proof -
  have "read_auth b = Some (char_bytes user, char_bytes pass) \<and> length b \<le> 513"
    if b: "b = [1, of_nat (length user)] @ char_bytes user @ [of_nat (length pass)] @ char_bytes pass"
      and n: "length user \<le> 255" "length pass \<le> 255" for b
  proof -
    have nth: "b ! (2 + length user) = of_nat (length pass)"
      using b by (simp add: char_bytes_def nth_append)
    have u: "unat (of_nat (length user) :: u8) = length user" "unat (of_nat (length pass) :: u8) = length pass"
      using n unat_of_byte_len by blast+
    have len: "length b = 3 + length user + length pass" "b ! 0 = 1" "b ! 1 = of_nat (length user)"
      using b by (simp_all add: char_bytes_def)
    have "take (length user) (drop 2 b) = char_bytes user" "drop (3 + length user) b = char_bytes pass"
      using b by (simp_all add: char_bytes_def numeral_3_eq_3 numeral_2_eq_2)
    with len u nth n show ?thesis by (simp add: read_auth_def Let_def)
  qed
  then show ?thesis
    unfolding socks5_build_auth_def SOCKS_AUTH_VERSION_def SOCKS_AUTH_MAX_SIZE_def by (auto simp: not_less)
qed

lemma auth_frame_roundtrip_witness:
  "\<exists>b. socks5_build_auth ''bob'' ''pw'' = Some b \<and> read_auth b = Some (char_bytes ''bob'', char_bytes ''pw'')"
proof -
  have "\<exists>b. socks5_build_auth ''bob'' ''pw'' = Some b" by (simp add: socks5_build_auth_def)
  with auth_frame_roundtrip [of "''bob''" "''pw''"] show ?thesis by blast
qed

text \<open>A request never outgrows the buffers the socket layer hands to the builders.\<close>

lemma request_size: "socks5_build_request_cmd cmd atyp addr port = Some b \<Longrightarrow> length b \<le> SOCKS_REQUEST_MAX_SIZE"
  by (auto simp: socks5_build_request_cmd_def socks5_write_atyp_addr_def Let_def write_port_bytes
      SOCKS_REQUEST_MAX_SIZE_def SOCKS_DOMAIN_MAX_LENGTH_def split: option.splits if_splits)

lemma request_prefix: "socks5_build_request_cmd cmd atyp addr port = Some b \<Longrightarrow> take 3 b = [SOCKS_VERSION, cmd, 0]"
  by (auto simp: socks5_build_request_cmd_def split: option.splits)

text \<open>No builder writes past the buffer its callers give it: a greeting, a login, a request of any
  command and address type and a UDP header are never longer than the constants those buffers are
  declared with, whatever the arguments.\<close>

theorem frames_fit_their_buffers:
  "(case socks5_build_greeting methods of None \<Rightarrow> True | Some b \<Rightarrow> length b \<le> SOCKS_GREETING_MAX_SIZE) \<and>
   (case socks5_build_auth user pass of None \<Rightarrow> True | Some b \<Rightarrow> length b \<le> SOCKS_AUTH_MAX_SIZE) \<and>
   (case socks5_build_request_cmd cmd atyp addr port of None \<Rightarrow> True | Some b \<Rightarrow> length b \<le> SOCKS_REQUEST_MAX_SIZE) \<and>
   (case socks5_build_request_from_ip_addr ip of None \<Rightarrow> True | Some b \<Rightarrow> length b \<le> SOCKS_REQUEST_MAX_SIZE) \<and>
   (case socks5_build_udp_header atyp addr port frag of None \<Rightarrow> True | Some b \<Rightarrow> length b \<le> SOCKS_UDP_HEADER_MAX)"
proof -
  have greeting: "length b \<le> SOCKS_GREETING_MAX_SIZE" if "socks5_build_greeting methods = Some b" for b
    using that by (auto simp: socks5_build_greeting_def SOCKS_GREETING_MAX_SIZE_def split: option.splits if_splits)
  have auth: "length b \<le> SOCKS_AUTH_MAX_SIZE" if "socks5_build_auth user pass = Some b" for b
    using that by (auto simp: socks5_build_auth_def SOCKS_AUTH_MAX_SIZE_def char_bytes_def split: if_splits)
  have ip: "length b \<le> SOCKS_REQUEST_MAX_SIZE" if "socks5_build_request_from_ip_addr ip = Some b" for b
    using that request_size
    by (auto simp: socks5_build_request_from_ip_addr_def socks5_build_request_def Let_def split: option.splits if_splits)
  have field: "length f \<le> SOCKS_DOMAIN_MAX_LENGTH + 2" if "socks5_write_atyp_addr atyp addr = Some f" for f
    using that by (auto simp: socks5_write_atyp_addr_def SOCKS_DOMAIN_MAX_LENGTH_def Let_def split: option.splits if_splits)
  have udp: "length b \<le> SOCKS_UDP_HEADER_MAX" if "socks5_build_udp_header atyp addr port frag = Some b" for b
    using that field
    by (auto simp: socks5_build_udp_header_def SOCKS_UDP_HEADER_MAX_def write_port_bytes split: option.splits)
  show ?thesis using greeting auth request_size [of cmd atyp addr port] ip udp by (auto split: option.split)
qed

end
