(* ===== verification/Socks5_Session.thy ===== *)
theory Socks5_Session
  imports Socks5_Wire "HOL-Library.Sublist"
begin

unbundle bit_operations_syntax

text \<open>
  The socket layer of src/injectee/socks5.hpp: handshake, reply reader, requests and UDP
  ASSOCIATE on one connected socket. Winsock is a parameter: \<open>ws_send bs w\<close> returns what
  \<open>send\<close> returns, \<open>ws_recv n w\<close> returns the octets \<open>recv\<close> with MSG_WAITALL stored (the
  return value is their number), \<open>None\<close> for SOCKET_ERROR; \<open>'w\<close> is the state of the connection.
\<close>

section \<open>The socket\<close>

record 'w winsock =
  ws_send :: "u8 list \<Rightarrow> 'w \<Rightarrow> int \<times> 'w"
  ws_recv :: "nat \<Rightarrow> 'w \<Rightarrow> u8 list option \<times> 'w"

definition recv_exact :: "'w winsock \<Rightarrow> nat \<Rightarrow> 'w \<Rightarrow> u8 list option \<times> 'w" where
  "recv_exact net n w =
     (case ws_recv net n w of
        (None, w') \<Rightarrow> (None, w')
      | (Some bs, w') \<Rightarrow> (if length bs \<noteq> n then None else Some bs, w'))"

definition send_all :: "'w winsock \<Rightarrow> u8 list \<Rightarrow> 'w \<Rightarrow> bool \<times> 'w" where
  "send_all net bs w = (case ws_send net bs w of (n, w') \<Rightarrow> (n = int (length bs), w'))"

section \<open>Handshake\<close>

definition greeting_methods :: "socks5_credentials \<Rightarrow> u8 list" where
  "greeting_methods creds =
     (if credentials_enabled creds then [SOCKS_USERNAME_PASSWORD, SOCKS_NO_AUTHENTICATION]
      else [SOCKS_NO_AUTHENTICATION])"

text \<open>The RFC 1929 part, after the server picked method 2.\<close>

definition socks5_login :: "'w winsock \<Rightarrow> socks5_credentials \<Rightarrow> 'w \<Rightarrow> bool \<times> 'w" where
  "socks5_login net creds w =
     (case socks5_build_auth (cr_username creds) (cr_password creds) of
        None \<Rightarrow> (False, w)
      | Some auth \<Rightarrow>
          (case send_all net auth w of
             (False, w1) \<Rightarrow> (False, w1)
           | (True, w1) \<Rightarrow>
               (case recv_exact net 2 w1 of
                  (None, w2) \<Rightarrow> (False, w2)
                | (Some auth_res, w2) \<Rightarrow>
                    if auth_res ! 1 = SOCKS_AUTH_FAILURE then (False, w2)
                    else (auth_res ! 0 = SOCKS_AUTH_VERSION \<and> auth_res ! 1 = SOCKS_SUCCESS, w2))))"

definition socks5_handshake :: "'w winsock \<Rightarrow> socks5_credentials \<Rightarrow> 'w \<Rightarrow> bool \<times> 'w" where
  "socks5_handshake net creds w =
     (case socks5_build_greeting (Some (greeting_methods creds)) of
        None \<Rightarrow> (False, w)
      | Some req \<Rightarrow>
          (case send_all net req w of
             (False, w1) \<Rightarrow> (False, w1)
           | (True, w1) \<Rightarrow>
               (case recv_exact net 2 w1 of
                  (None, w2) \<Rightarrow> (False, w2)
                | (Some res, w2) \<Rightarrow>
                    if res ! 0 \<noteq> SOCKS_VERSION then (False, w2)
                    else if res ! 1 = SOCKS_NO_AUTHENTICATION then (True, w2)
                    else if res ! 1 \<noteq> SOCKS_USERNAME_PASSWORD \<or> \<not> credentials_enabled creds then (False, w2)
                    else socks5_login net creds w2)))"

section \<open>Replies\<close>

datatype socks5_reply = reply_ok | refused_rep | protocol_error | truncated | bnd_is_a_name

record socks5_relay_endpoint =
  re_atyp :: u8
  re_addr :: "u8 list"
  re_addr_size :: nat
  re_port :: u16
  re_name :: "u8 list"
  re_name_size :: nat
  re_bound :: "u8 list"

definition relay_endpoint_init :: socks5_relay_endpoint where
  "relay_endpoint_init = \<lparr>re_atyp = 0, re_addr = replicate 16 0, re_addr_size = 0, re_port = 0,
     re_name = [], re_name_size = 0, re_bound = replicate 128 0\<rparr>"

text \<open>The endpoint of a granted reply; \<open>part\<close> is the address followed by the port.\<close>

definition relay_endpoint :: "u8 \<Rightarrow> bool \<Rightarrow> nat \<Rightarrow> u8 list \<Rightarrow> socks5_relay_endpoint" where
  "relay_endpoint atyp named field part =
     (let port = push_bit 8 (ucast (part ! field)) OR ucast (part ! (field + 1));
          out = relay_endpoint_init\<lparr>re_atyp := atyp, re_port := port\<rparr>
      in if named then out\<lparr>re_name_size := field, re_name := take field part\<rparr>
         else out\<lparr>re_addr_size := field, re_addr := take field part @ replicate (16 - field) 0,
           re_bound := (if atyp = SOCKS_IPV4
             then sockaddr_in_bytes (part ! 0, part ! 1, part ! 2, part ! 3) port @ replicate 112 0
             else sockaddr_in6_bytes (take 16 part) port @ replicate 100 0)\<rparr>)"

text \<open>The address field a reply promises: \<open>None\<close> for a protocol error.\<close>

definition reply_field :: "'w winsock \<Rightarrow> u8 \<Rightarrow> 'w \<Rightarrow> (bool \<times> nat) option \<times> 'w" where
  "reply_field net atyp w =
     (if atyp = SOCKS_IPV4 then (Some (False, 4), w)
      else if atyp = SOCKS_IPV6 then (Some (False, 16), w)
      else if atyp = SOCKS_DOMAINNAME then
        (case recv_exact net 1 w of
           (None, w') \<Rightarrow> (None, w')
         | (Some len_octet, w') \<Rightarrow>
             if len_octet ! 0 = 0 then (None, w') else (Some (True, unat (len_octet ! 0)), w'))
      else (None, w))"

text \<open>
  Verdict, the REP octet if it was stored, the endpoint if it was stored, and the socket. What
  is not stored keeps the caller's value.
\<close>

definition socks5_read_reply ::
  "'w winsock \<Rightarrow> 'w \<Rightarrow> (socks5_reply \<times> u8 option \<times> socks5_relay_endpoint option) \<times> 'w" where
  "socks5_read_reply net w =
     (case recv_exact net 4 w of
        (None, w1) \<Rightarrow> ((protocol_error, None, None), w1)
      | (Some head, w1) \<Rightarrow>
          if head ! 0 \<noteq> SOCKS_VERSION then ((protocol_error, None, None), w1)
          else let rep = head ! 1 in
            if rep \<noteq> SOCKS_SUCCESS then ((refused_rep, Some rep, None), w1)
            else
              (case reply_field net (head ! 3) w1 of
                 (None, w2) \<Rightarrow> ((protocol_error, Some rep, None), w2)
               | (Some (named, field), w2) \<Rightarrow>
                   (case recv_exact net (field + 2) w2 of
                      (None, w3) \<Rightarrow> ((truncated, Some rep, None), w3)
                    | (Some part, w3) \<Rightarrow>
                        ((if named then bnd_is_a_name else reply_ok, Some rep,
                          Some (relay_endpoint (head ! 3) named field part)), w3))))"

section \<open>Requests\<close>

definition socks5_request_ex ::
  "'w winsock \<Rightarrow> u8 list option \<Rightarrow> 'w \<Rightarrow> (u8 \<times> socks5_relay_endpoint option) \<times> 'w" where
  "socks5_request_ex net buf w =
     (case buf of
        None \<Rightarrow> ((SOCKS_GENERAL_FAILURE, None), w)
      | Some b \<Rightarrow>
          if length b = 0 then ((SOCKS_GENERAL_FAILURE, None), w)
          else
            (case send_all net b w of
               (False, w1) \<Rightarrow> ((SOCKS_GENERAL_FAILURE, None), w1)
             | (True, w1) \<Rightarrow>
                 (case socks5_read_reply net w1 of
                    ((verdict, rep, bnd), w2) \<Rightarrow>
                      ((if verdict = reply_ok then SOCKS_SUCCESS
                        else if verdict = refused_rep then
                          (case rep of Some r \<Rightarrow> r | None \<Rightarrow> SOCKS_GENERAL_FAILURE)
                        else SOCKS_GENERAL_FAILURE, bnd), w2))))"

definition socks5_request_send :: "'w winsock \<Rightarrow> u8 list option \<Rightarrow> 'w \<Rightarrow> u8 \<times> 'w" where
  "socks5_request_send net buf w = (case socks5_request_ex net buf w of ((rep, _), w') \<Rightarrow> (rep, w'))"

definition socks5_request_sockaddr :: "'w winsock \<Rightarrow> u8 list option \<Rightarrow> 'w \<Rightarrow> u8 \<times> 'w" where
  "socks5_request_sockaddr net addr w =
     (case socks5_build_request_from_sockaddr addr of
        None \<Rightarrow> (SOCKS_GENERAL_FAILURE, w)
      | Some buf \<Rightarrow> socks5_request_send net (Some buf) w)"

definition socks5_request_ip_addr :: "'w winsock \<Rightarrow> IpAddr \<Rightarrow> 'w \<Rightarrow> u8 \<times> 'w" where
  "socks5_request_ip_addr net addr w =
     (case socks5_build_request_from_ip_addr addr of
        None \<Rightarrow> (SOCKS_GENERAL_FAILURE, w)
      | Some buf \<Rightarrow> socks5_request_send net (Some buf) w)"

text \<open>\<open>any\<close> in \<open>socks5_associate\<close>: a zeroed sockaddr_in of family AF_INET.\<close>

definition sockaddr_any :: "u8 list" where
  "sockaddr_any = sockaddr_in_bytes (0, 0, 0, 0) 0"

definition associate_request :: "u8 list \<Rightarrow> u8 list option" where
  "associate_request app_bind_hint =
     (case socks5_build_associate_from_sockaddr (Some app_bind_hint) of
        Some buf \<Rightarrow> Some buf
      | None \<Rightarrow> socks5_build_associate_from_sockaddr (Some sockaddr_any))"

definition socks5_associate ::
  "'w winsock \<Rightarrow> socks5_credentials \<Rightarrow> u8 list \<Rightarrow> 'w \<Rightarrow> (socks5_reply \<times> u8 \<times> socks5_relay_endpoint) \<times> 'w" where
  "socks5_associate net creds app_bind_hint w =
     (case socks5_handshake net creds w of
        (False, w1) \<Rightarrow> ((refused_rep, SOCKS_GENERAL_FAILURE, relay_endpoint_init), w1)
      | (True, w1) \<Rightarrow>
          (case associate_request app_bind_hint of
             None \<Rightarrow> ((protocol_error, SOCKS_GENERAL_FAILURE, relay_endpoint_init), w1)
           | Some buf \<Rightarrow>
               (case send_all net buf w1 of
                  (False, w2) \<Rightarrow> ((protocol_error, SOCKS_GENERAL_FAILURE, relay_endpoint_init), w2)
                | (True, w2) \<Rightarrow>
                    (case socks5_read_reply net w2 of
                       ((verdict, rep, bnd), w3) \<Rightarrow>
                         ((verdict,
                           (case rep of Some r \<Rightarrow> r | None \<Rightarrow> SOCKS_GENERAL_FAILURE),
                           (case bnd of Some e \<Rightarrow> e | None \<Rightarrow> relay_endpoint_init)), w3)))))"

section \<open>What is known about a stream socket\<close>

text \<open>
  \<open>inq w\<close> is what the peer will still deliver on the stream, \<open>outq w\<close> what was sent so far. A
  full \<open>recv\<close> takes the next octets; a \<open>send\<close> that fails may have sent a part.
\<close>

definition stream_law :: "'w winsock \<Rightarrow> ('w \<Rightarrow> u8 list) \<Rightarrow> ('w \<Rightarrow> u8 list) \<Rightarrow> bool" where
  "stream_law net inq outq \<longleftrightarrow>
     (\<forall>bs w. inq (snd (ws_send net bs w)) = inq w \<and>
        (fst (ws_send net bs w) = int (length bs) \<longrightarrow> outq (snd (ws_send net bs w)) = outq w @ bs) \<and>
        (\<exists>p. prefix p bs \<and> outq (snd (ws_send net bs w)) = outq w @ p)) \<and>
     (\<forall>n w bs. outq (snd (ws_recv net n w)) = outq w \<and>
        (fst (ws_recv net n w) = Some bs \<longrightarrow> length bs = n \<longrightarrow> inq w = bs @ inq (snd (ws_recv net n w))))"

lemma stream_send:
  assumes "stream_law net inq outq" "send_all net bs w = (b, w')"
  shows "inq w' = inq w \<and> (b \<longrightarrow> outq w' = outq w @ bs) \<and> (\<exists>p. prefix p bs \<and> outq w' = outq w @ p)"
proof (cases "ws_send net bs w")
  case (Pair n v)
  with assms(2) have "b = (n = int (length bs))" "w' = v" by (simp_all add: send_all_def)
  with assms(1) Pair show ?thesis unfolding stream_law_def by (metis fst_conv snd_conv)
qed

lemma stream_recv:
  assumes "stream_law net inq outq" "recv_exact net n w = (r, w')"
  shows "outq w' = outq w \<and> (\<forall>bs. r = Some bs \<longrightarrow> length bs = n \<and> inq w = bs @ inq w')"
proof (cases "ws_recv net n w")
  case (Pair o' v)
  with assms(2) have v: "w' = v" by (auto simp: recv_exact_def split: option.splits)
  have "r = Some bs \<Longrightarrow> o' = Some bs \<and> length bs = n" for bs
    using assms(2) Pair by (auto simp: recv_exact_def split: option.splits if_splits)
  with assms(1) Pair v show ?thesis unfolding stream_law_def by (metis fst_conv snd_conv)
qed

text \<open>A socket that satisfies the law: the state is the two streams, nothing fails.\<close>

definition ideal_socket :: "(u8 list \<times> u8 list) winsock" where
  "ideal_socket = \<lparr>ws_send = (\<lambda>bs w. (int (length bs), (fst w, snd w @ bs))),
     ws_recv = (\<lambda>n w. (Some (take n (fst w)), (drop n (fst w), snd w)))\<rparr>"

lemma ideal_socket_law: "stream_law ideal_socket fst snd"
  by (auto simp: stream_law_def ideal_socket_def)


section \<open>What the exchanges consume and send\<close>

definition greeting_bytes :: "socks5_credentials \<Rightarrow> u8 list" where
  "greeting_bytes creds = [5, of_nat (length (greeting_methods creds))] @ greeting_methods creds"

lemma build_greeting: "socks5_build_greeting (Some (greeting_methods creds)) = Some (greeting_bytes creds)"
  by (simp add: socks5_build_greeting_def greeting_methods_def greeting_bytes_def socks_consts)

lemma two_octets: "length (bs :: u8 list) = 2 \<Longrightarrow> bs = [bs ! 0, bs ! 1]"
  by (rule nth_equalityI) (auto simp: less_Suc_eq numeral_2_eq_2)

lemma four_octets: "length (bs :: u8 list) = 4 \<Longrightarrow> bs = [bs ! 0, bs ! 1, bs ! 2, bs ! 3]"
  by (cases bs; cases "tl bs"; cases "tl (tl bs)"; cases "tl (tl (tl bs))") auto

lemma split_port: "length (bs :: u8 list) = n + 2 \<Longrightarrow> bs = take n bs @ [bs ! n, bs ! (n + 1)]"
  by (rule nth_equalityI) (auto simp: nth_append less_Suc_eq)

lemma login_result:
  assumes law: "stream_law net inq outq" and r: "socks5_login net creds w = (b, w')"
  shows "(b \<longrightarrow> (\<exists>a. socks5_build_auth (cr_username creds) (cr_password creds) = Some a \<and>
      inq w = [1, 0] @ inq w' \<and> outq w' = outq w @ a))"
proof
  assume b: b
  obtain a where a: "socks5_build_auth (cr_username creds) (cr_password creds) = Some a"
    using r b by (auto simp: socks5_login_def split: option.splits)
  obtain s1 w1 where s: "send_all net a w = (s1, w1)" by (cases "send_all net a w")
  obtain res w2 where v: "recv_exact net 2 w1 = (res, w2)" by (cases "recv_exact net 2 w1")
  have s1: s1 using r b a s by (cases s1) (simp_all add: socks5_login_def)
  obtain bs where bs: "res = Some bs" using r b a s s1 v by (cases res) (simp_all add: socks5_login_def)
  have ok: "bs ! 0 = 1" "bs ! 1 = 0" "w' = w2"
    using r b a s s1 v bs by (auto simp: socks5_login_def socks_consts split: if_splits)
  note ls = stream_send [OF law s] and lr = stream_recv [OF law v]
  have "bs = [1, 0]" using two_octets [of bs] lr bs ok by simp
  then show "\<exists>a. socks5_build_auth (cr_username creds) (cr_password creds) = Some a \<and>
      inq w = [1, 0] @ inq w' \<and> outq w' = outq w @ a"
    using a ls lr s1 bs ok by auto
qed

lemma read_reply_ok:
  assumes law: "stream_law net inq outq" and r: "socks5_read_reply net w = ((reply_ok, rep, bnd), w')"
  shows "\<exists>rsv atyp addr hi lo.
      inq w = [5, 0, rsv, atyp] @ addr @ [hi, lo] @ inq w' \<and>
      (atyp = SOCKS_IPV4 \<and> length addr = 4 \<or> atyp = SOCKS_IPV6 \<and> length addr = 16) \<and>
      rep = Some 0 \<and> bnd = Some (relay_endpoint atyp False (length addr) (addr @ [hi, lo])) \<and> outq w' = outq w"
proof -
  obtain h w1 where h: "recv_exact net 4 w = (h, w1)" by (cases "recv_exact net 4 w")
  obtain head where head: "h = Some head" using r h by (cases h) (simp_all add: socks5_read_reply_def)
  have v: "head ! 0 = SOCKS_VERSION" "head ! 1 = SOCKS_SUCCESS"
    using r h head by (auto simp: socks5_read_reply_def Let_def split: if_splits)
  obtain fo w2 where f: "reply_field net (head ! 3) w1 = (fo, w2)" by (cases "reply_field net (head ! 3) w1")
  obtain named field where nf: "fo = Some (named, field)"
    using r h head v f by (cases fo) (auto simp: socks5_read_reply_def Let_def)
  obtain po w3 where p: "recv_exact net (field + 2) w2 = (po, w3)" by (cases "recv_exact net (field + 2) w2")
  obtain part where part: "po = Some part" using r h head v f nf p by (cases po) (simp_all add: socks5_read_reply_def Let_def)
  have res: "\<not> named" "rep = Some 0" "bnd = Some (relay_endpoint (head ! 3) False field part)" "w' = w3"
    using r h head v f nf p part by (auto simp: socks5_read_reply_def Let_def SOCKS_SUCCESS_def split: if_splits)
  have fld: "w2 = w1 \<and> (head ! 3 = SOCKS_IPV4 \<and> field = 4 \<or> head ! 3 = SOCKS_IPV6 \<and> field = 16)"
    using f nf res(1) by (auto simp: reply_field_def split: if_splits option.splits prod.splits)
  note lh = stream_recv [OF law h] and lp = stream_recv [OF law p]
  have len: "length head = 4" "length part = field + 2" using lh lp head part by simp_all
  have hd: "head = [5, 0, head ! 2, head ! 3]"
    using four_octets [OF len(1)] v by (simp add: socks_consts)
  have pt: "part = take field part @ [part ! field, part ! (field + 1)]"
    using len(2) by (rule split_port)
  have "inq w = head @ part @ inq w'" using lh lp head part fld res(4) by simp
  also have "\<dots> = [5, 0, head ! 2, head ! 3] @ part @ inq w'" using hd by simp
  also have "\<dots> = [5, 0, head ! 2, head ! 3] @ take field part @ [part ! field, part ! (field + 1)] @ inq w'"
    using pt by (metis append.assoc)
  finally have i: "inq w = [5, 0, head ! 2, head ! 3] @ take field part @ [part ! field, part ! (field + 1)] @ inq w'" .
  have tl: "length (take field part) = field" using len(2) by simp
  have bnd: "bnd = Some (relay_endpoint (head ! 3) False (length (take field part))
      (take field part @ [part ! field, part ! (field + 1)]))"
    using res(3) pt tl by simp
  have "outq w' = outq w" using lh lp fld res(4) by simp
  then show ?thesis using i bnd tl fld res(2) by blast
qed

lemma handshake_facts:
  assumes law: "stream_law net inq outq" and r: "socks5_handshake net creds w = (b, w')"
  shows "(b \<longrightarrow>
      inq w = [5, 0] @ inq w' \<and> outq w' = outq w @ greeting_bytes creds \<or>
      credentials_enabled creds \<and> (\<exists>a. socks5_build_auth (cr_username creds) (cr_password creds) = Some a \<and>
        inq w = [5, 2, 1, 0] @ inq w' \<and> outq w' = outq w @ greeting_bytes creds @ a)) \<and>
    (\<not> (credentials_enabled creds \<and> take 2 (inq w) = [5, 2]) \<longrightarrow>
      (\<exists>p. prefix p (greeting_bytes creds) \<and> outq w' = outq w @ p))"
proof -
  obtain s1 w1 where s: "send_all net (greeting_bytes creds) w = (s1, w1)"
    by (cases "send_all net (greeting_bytes creds) w")
  note ls = stream_send [OF law s]
  obtain res w2 where v: "recv_exact net 2 w1 = (res, w2)" by (cases "recv_exact net 2 w1")
  note lr = stream_recv [OF law v]
  note def = socks5_handshake_def build_greeting
  show ?thesis
  proof (cases "\<not> s1 \<or> res = None")
    case True
    then have "\<not> b \<and> (w' = w1 \<or> w' = w2)"
      using r s v by (cases s1) (auto simp: def)
    then show ?thesis using ls lr by auto
  next
    case False
    then obtain bs where bs: "s1" "res = Some bs" by auto
    then have two: "bs = [bs ! 0, bs ! 1]" and inq: "inq w = bs @ inq w2" and out: "outq w2 = outq w @ greeting_bytes creds"
      using ls lr two_octets by auto
    then have tk: "take 2 (inq w) = bs" using lr bs by simp
    consider (noauth) "bs ! 0 = 5" "bs ! 1 = 0" | (login) "bs ! 0 = 5" "bs ! 1 = 2" "credentials_enabled creds"
      | (no) "\<not> (bs ! 0 = 5 \<and> bs ! 1 = 0)" "\<not> (bs ! 0 = 5 \<and> bs ! 1 = 2 \<and> credentials_enabled creds)" by blast
    then show ?thesis
    proof cases
      case noauth
      then have "b" "w' = w2" using r s v bs by (auto simp: def socks_consts)
      then show ?thesis using noauth two inq out by (metis prefix_order.refl)
    next
      case login
      then have l: "socks5_login net creds w2 = (b, w')" using r s v bs by (simp add: def socks_consts)
      have "bs = [5, 2]" using two login by simp
      then show ?thesis using login_result [OF law l] inq out login tk by auto
    next
      case no
      then have "\<not> b" "w' = w2" using r s v bs by (auto simp: def socks_consts split: if_splits)
      then show ?thesis using out by (metis prefix_order.refl)
    qed
  qed
qed

text \<open>C30: The handshake: it succeeds only when the server picked no-authentication, or picked
  username/password, which was offered, and accepted the login; it then has sent exactly the
  greeting and, in the second case only, the login frame, and has read exactly the server's
  answers. Unless the server picked username/password, nothing but (a part of) the greeting
  ever leaves: the login is not sent to a server that did not ask for it.\<close>

theorem handshake_result:
  assumes law: "stream_law net inq outq" and r: "socks5_handshake net creds w = (b, w')"
  shows "(b \<longrightarrow>
      inq w = [5, 0] @ inq w' \<and> outq w' = outq w @ greeting_bytes creds \<or>
      credentials_enabled creds \<and> (\<exists>a. socks5_build_auth (cr_username creds) (cr_password creds) = Some a \<and>
        inq w = [5, 2, 1, 0] @ inq w' \<and> outq w' = outq w @ greeting_bytes creds @ a)) \<and>
    (\<not> (credentials_enabled creds \<and> take 2 (inq w) = [5, 2]) \<longrightarrow>
      (\<exists>p. prefix p (greeting_bytes creds) \<and> outq w' = outq w @ p))"
  using assms by (rule handshake_facts)

lemma handshake_result_witness:
  "\<exists>p. prefix p (greeting_bytes \<lparr>cr_username = ''bob'', cr_password = ''pw''\<rparr>) \<and>
     snd (snd (socks5_handshake ideal_socket \<lparr>cr_username = ''bob'', cr_password = ''pw''\<rparr> ([5, 0xFF], []))) = [] @ p"
proof -
  obtain b w' where h: "socks5_handshake ideal_socket \<lparr>cr_username = ''bob'', cr_password = ''pw''\<rparr> ([5, 0xFF], []) = (b, w')"
    by (rule prod.exhaust)
  from handshake_result [OF ideal_socket_law h] h show ?thesis by simp
qed

text \<open>A granted reply is consumed to its last octet and not one further: what follows it on the
  stream is the tunnel's data, and the endpoint handed back is the address and port the reply
  states.\<close>

theorem granted_reply_consumed:
  assumes "stream_law net inq outq" and "socks5_read_reply net w = ((reply_ok, rep, bnd), w')"
  shows "\<exists>rsv atyp addr hi lo.
      inq w = [5, 0, rsv, atyp] @ addr @ [hi, lo] @ inq w' \<and>
      (atyp = SOCKS_IPV4 \<and> length addr = 4 \<or> atyp = SOCKS_IPV6 \<and> length addr = 16) \<and>
      rep = Some 0 \<and> bnd = Some (relay_endpoint atyp False (length addr) (addr @ [hi, lo])) \<and> outq w' = outq w"
  using assms by (rule read_reply_ok)

lemma granted_reply_consumed_witness:
  "\<exists>rsv atyp addr hi lo. [5 :: u8, 0, 0, 1, 10, 0, 0, 1, 4, 56, 71, 69, 84] = [5, 0, rsv, atyp] @ addr @ [hi, lo] @ [71, 69, 84 :: u8]"
proof -
  have "socks5_read_reply ideal_socket ([5, 0, 0, 1, 10, 0, 0, 1, 4, 56, 71, 69, 84], []) =
      ((reply_ok, Some 0, Some (relay_endpoint 1 False 4 [10, 0, 0, 1, 4, 56])), ([71, 69, 84], []))"
    by (simp add: socks5_read_reply_def ideal_socket_def recv_exact_def reply_field_def socks_consts)
  from granted_reply_consumed [OF ideal_socket_law this] show ?thesis by (simp only: fst_conv) (elim exE conjE, intro exI)
qed

lemma request_facts:
  assumes law: "stream_law net inq outq" and r: "socks5_request_sockaddr net sa w = (SOCKS_SUCCESS, w')"
  shows "\<exists>buf reply. socks5_build_request_from_sockaddr sa = Some buf \<and> outq w' = outq w @ buf \<and>
      inq w = reply @ inq w' \<and> take 2 reply = [5, 0] \<and> length reply \<in> {10, 22}"
proof -
  have gf: "SOCKS_SUCCESS \<noteq> SOCKS_GENERAL_FAILURE" "SOCKS_GENERAL_FAILURE \<noteq> SOCKS_SUCCESS" by (simp_all add: socks_consts)
  obtain buf where buf: "socks5_build_request_from_sockaddr sa = Some buf"
    using r gf by (cases "socks5_build_request_from_sockaddr sa") (simp_all add: socks5_request_sockaddr_def)
  obtain s1 w1 where s: "send_all net buf w = (s1, w1)" by (cases "send_all net buf w")
  obtain v rep bnd w2 where rr: "socks5_read_reply net w1 = ((v, rep, bnd), w2)" by (metis prod.exhaust)
  have e: "fst (fst (socks5_request_ex net (Some buf) w)) = SOCKS_SUCCESS" "snd (socks5_request_ex net (Some buf) w) = w'"
    using r buf by (simp_all add: socks5_request_sockaddr_def socks5_request_send_def split: prod.splits)
  have s1: s1 using e gf s by (cases s1) (auto simp: socks5_request_ex_def split: if_splits)
  have vw: "v = reply_ok \<and> w' = w2"
  proof -
    have rep: "rep \<noteq> Some 0" if "v = refused_rep"
      using rr that by (auto simp: socks5_read_reply_def Let_def SOCKS_SUCCESS_def split: prod.splits option.splits if_splits)
    show ?thesis using e s s1 rr gf rep
      by (auto simp: socks5_request_ex_def SOCKS_SUCCESS_def split: if_splits option.splits)
  qed
  note rr' = rr [unfolded vw [THEN conjunct1] vw [THEN conjunct2, symmetric]]
  from read_reply_ok [OF law rr'] obtain rsv atyp addr hi lo where
    i: "inq w1 = [5, 0, rsv, atyp] @ addr @ [hi, lo] @ inq w'" "outq w' = outq w1"
    "atyp = SOCKS_IPV4 \<and> length addr = 4 \<or> atyp = SOCKS_IPV6 \<and> length addr = 16" by blast
  note ls = stream_send [OF law s]
  show ?thesis
    using buf i ls s1 by (intro exI [of _ buf] exI [of _ "[5, 0, rsv, atyp] @ addr @ [hi, lo]"]) auto
qed

text \<open>A connect through the proxy is reported as successful only when the request for exactly
  that address was sent in full and the server granted it with a numeric BND address; the
  reply is then gone from the stream and nothing else is.\<close>

theorem request_success:
  assumes law: "stream_law net inq outq" and r: "socks5_request_sockaddr net sa w = (SOCKS_SUCCESS, w')"
  shows "\<exists>buf reply. socks5_build_request_from_sockaddr sa = Some buf \<and> outq w' = outq w @ buf \<and>
      inq w = reply @ inq w' \<and> take 2 reply = [5, 0] \<and> length reply \<in> {10, 22}"
  using assms by (rule request_facts)

lemma request_success_witness:
  "\<exists>buf. socks5_build_request_from_sockaddr (Some (sockaddr_in_bytes (10, 0, 0, 1) 80)) = Some buf \<and>
     snd (snd (socks5_request_sockaddr ideal_socket (Some (sockaddr_in_bytes (10, 0, 0, 1) 80))
       ([5, 0, 0, 1, 0, 0, 0, 0, 0, 0], []))) = [] @ buf"
proof -
  have "fst (socks5_request_sockaddr ideal_socket (Some (sockaddr_in_bytes (10, 0, 0, 1) 80))
      ([5, 0, 0, 1, 0, 0, 0, 0, 0, 0], [])) = SOCKS_SUCCESS"
    by code_simp
  then have "socks5_request_sockaddr ideal_socket (Some (sockaddr_in_bytes (10, 0, 0, 1) 80))
      ([5, 0, 0, 1, 0, 0, 0, 0, 0, 0], []) = (SOCKS_SUCCESS, snd (socks5_request_sockaddr ideal_socket
        (Some (sockaddr_in_bytes (10, 0, 0, 1) 80)) ([5, 0, 0, 1, 0, 0, 0, 0, 0, 0], [])))"
    by (simp add: prod_eq_iff)
  from request_success [OF ideal_socket_law this] show ?thesis by auto
qed

text \<open>A relay is granted only after the handshake, for an ASSOCIATE request that was sent in
  full, and with a numeric relay address; a name in BND is never answered as granted.\<close>

theorem associate_granted:
  assumes law: "stream_law net inq outq"
    and r: "socks5_associate net creds hint w = ((reply_ok, rep, e), w')"
  shows "\<exists>w1 buf. socks5_handshake net creds w = (True, w1) \<and> take 3 buf = [5, 3, 0] \<and>
      outq w' = outq w1 @ buf \<and> rep = 0 \<and> re_atyp e \<in> {SOCKS_IPV4, SOCKS_IPV6} \<and> re_name e = []"
proof -
  obtain b w1 where h: "socks5_handshake net creds w = (b, w1)" by (cases "socks5_handshake net creds w")
  have b: b using r h by (cases b) (simp_all add: socks5_associate_def)
  obtain buf where buf: "associate_request hint = Some buf"
    using r h b by (cases "associate_request hint") (simp_all add: socks5_associate_def)
  obtain s1 w2 where s: "send_all net buf w1 = (s1, w2)" by (cases "send_all net buf w1")
  have s1: s1 using r h b buf s by (cases s1) (simp_all add: socks5_associate_def)
  obtain v ro bo w3 where rr: "socks5_read_reply net w2 = ((v, ro, bo), w3)" by (metis prod.exhaust)
  have res: "v = reply_ok" "w' = w3" "rep = (case ro of Some r \<Rightarrow> r | None \<Rightarrow> SOCKS_GENERAL_FAILURE)"
    "e = (case bo of Some e \<Rightarrow> e | None \<Rightarrow> relay_endpoint_init)"
    using r h b buf s s1 rr by (simp_all add: socks5_associate_def)
  from read_reply_ok [OF law rr [unfolded res(1)]] obtain rsv atyp addr hi lo where
    i: "atyp = SOCKS_IPV4 \<or> atyp = SOCKS_IPV6" "ro = Some 0" "outq w3 = outq w2"
    "bo = Some (relay_endpoint atyp False (length addr) (addr @ [hi, lo]))" by blast
  have pre: "take 3 buf = [5, 3, 0]"
    using buf request_prefix
    by (auto simp: associate_request_def socks5_build_associate_from_sockaddr_def
        socks5_build_request_from_sockaddr_cmd_def SOCKS_VERSION_def SOCKS_UDP_ASSOCIATE_def
        split: option.splits if_splits)
  have "outq w' = outq w1 @ buf" using stream_send [OF law s] s1 i res by simp
  then show ?thesis
    using h b pre i res by (intro exI [of _ w1] exI [of _ buf]) (auto simp: relay_endpoint_def Let_def relay_endpoint_init_def)
qed

lemma associate_granted_witness:
  "\<exists>w1 buf. socks5_handshake ideal_socket \<lparr>cr_username = [], cr_password = []\<rparr> ([5, 0, 5, 0, 0, 1, 10, 0, 0, 9, 4, 56], []) = (True, w1) \<and>
     take 3 buf = [5, 3, 0] \<and>
     snd (snd (socks5_associate ideal_socket \<lparr>cr_username = [], cr_password = []\<rparr> (replicate 16 0)
       ([5, 0, 5, 0, 0, 1, 10, 0, 0, 9, 4, 56], []))) = snd w1 @ buf"
proof -
  let ?a = "socks5_associate ideal_socket \<lparr>cr_username = [], cr_password = []\<rparr> (replicate 16 0)
      ([5, 0, 5, 0, 0, 1, 10, 0, 0, 9, 4, 56], [])"
  have "fst (fst ?a) = reply_ok" by code_simp
  then have "?a = ((reply_ok, fst (snd (fst ?a)), snd (snd (fst ?a))), snd ?a)" by (simp add: prod_eq_iff)
  from associate_granted [OF ideal_socket_law this] show ?thesis by blast
qed

text \<open>The destructor of \<open>socks5_auth_frame_scrub\<close>: the frame of a login is wiped on every way out.\<close>

definition auth_frame_scrub :: "nat \<Rightarrow> u8 list \<Rightarrow> u8 list" where
  "auth_frame_scrub n frame = replicate n 0 @ drop n frame"

lemma auth_frame_scrubbed:
  "length user \<le> 255 \<Longrightarrow> length pass \<le> 255 \<Longrightarrow> \<exists>b. socks5_build_auth user pass = Some b \<and> set (auth_frame_scrub (length b) b) \<subseteq> {0}"
  by (auto simp: socks5_build_auth_def auth_frame_scrub_def)

end
