(* ===== verification/Text_Utils.thy ===== *)
theory Text_Utils
  imports Prelude "HOL-Library.Sublist"
begin

text \<open>
  The text helpers of src/common/utils.hpp: trimming, the filename wildcard matcher (against a
  declarative glob semantics), and the slash-insensitive regex match, whose regex engine is a
  parameter. A C string is the list of its characters before the terminating NUL.
\<close>

section \<open>Trimming\<close>

definition ltrim :: "string \<Rightarrow> string" where
  "ltrim s = dropWhile is_space s"

definition rtrim :: "string \<Rightarrow> string" where
  "rtrim s = rev (dropWhile is_space (rev s))"

definition trim :: "string \<Rightarrow> string" where
  "trim s = rtrim (ltrim s)"

definition all_of_digit :: "string \<Rightarrow> bool" where
  "all_of_digit v = list_all is_digit v"

lemma rtrim_nil: "rtrim [] = []"
  by (simp add: rtrim_def)

text \<open>\<open>trim\<close> takes exactly the blanks off both ends: what it removes is blank, and what it
  leaves neither starts nor ends with a blank.\<close>

theorem trim_spec:
  "\<exists>pre post. s = pre @ trim s @ post \<and> (\<forall>c \<in> set (pre @ post). is_space c) \<and>
     (trim s \<noteq> [] \<longrightarrow> \<not> is_space (hd (trim s)) \<and> \<not> is_space (last (trim s)))"
proof -
  let ?l = "dropWhile is_space s"
  have l: "s = takeWhile is_space s @ ?l" by simp
  have r: "?l = rtrim ?l @ rev (takeWhile is_space (rev ?l))"
    unfolding rtrim_def by (metis rev_append rev_rev_ident takeWhile_dropWhile_id)
  have "s = takeWhile is_space s @ trim s @ rev (takeWhile is_space (rev ?l))"
    unfolding trim_def ltrim_def using l r by (metis append.assoc)
  moreover have "\<forall>c \<in> set (takeWhile is_space s @ rev (takeWhile is_space (rev ?l))). is_space c"
    by (auto dest: set_takeWhileD)
  moreover have "\<not> is_space (hd (trim s)) \<and> \<not> is_space (last (trim s))" if ne: "trim s \<noteq> []"
  proof
    have ne': "rtrim ?l \<noteq> []" using ne by (simp add: trim_def ltrim_def)
    then have "?l \<noteq> []" using rtrim_nil by metis
    then have "\<not> is_space (hd ?l)" by (rule hd_dropWhile)
    moreover have "hd ?l = hd (rtrim ?l)" using r ne' by (metis hd_append2)
    ultimately show "\<not> is_space (hd (trim s))" by (simp add: trim_def ltrim_def)
    have "dropWhile is_space (rev ?l) \<noteq> []" using ne' by (simp add: rtrim_def)
    then have "\<not> is_space (hd (dropWhile is_space (rev ?l)))" by (rule hd_dropWhile)
    then show "\<not> is_space (last (trim s))"
      using ne' by (simp add: trim_def ltrim_def rtrim_def last_rev)
  qed
  ultimately show ?thesis by blast
qed

section \<open>Wildcards\<close>

definition is_separator :: "char \<Rightarrow> bool" where
  "is_separator c = (c = CHR ''/'' \<or> c = CHR 0x5C)"

text \<open>\<open>wildcard_from\<close> is the inner loop over \<open>ptr\<close> of the star case.\<close>

function filename_wildcard_match :: "string \<Rightarrow> string \<Rightarrow> bool"
  and wildcard_from :: "string \<Rightarrow> string \<Rightarrow> bool" where
  "filename_wildcard_match [] str = (str = [])"
| "filename_wildcard_match (p # ps) str =
     (if p = CHR ''?'' then (case str of [] \<Rightarrow> False | c # cs \<Rightarrow> filename_wildcard_match ps cs)
      else if p = CHR ''*'' then (if ps = [] then True else wildcard_from ps str)
      else if is_separator p then
        (case str of [] \<Rightarrow> False | c # cs \<Rightarrow> if \<not> is_separator c then False else filename_wildcard_match ps cs)
      else
        (case str of [] \<Rightarrow> False
         | c # cs \<Rightarrow> if to_lower c \<noteq> to_lower p then False else filename_wildcard_match ps cs))"
| "wildcard_from ps [] = False"
| "wildcard_from ps (c # cs) =
     (if filename_wildcard_match ps (c # cs) then True else wildcard_from ps cs)"
  by pat_completeness auto
termination
  by (relation "measures [\<lambda>x. case x of Inl (p, s) \<Rightarrow> 2 * length p | Inr (p, s) \<Rightarrow> 2 * length p + 1,
        \<lambda>x. case x of Inl (p, s) \<Rightarrow> length s | Inr (p, s) \<Rightarrow> length s]") auto

text \<open>The usual meaning of a pattern: a star stands for any text, the empty one included.\<close>

inductive glob :: "string \<Rightarrow> string \<Rightarrow> bool" where
  glob_end: "glob [] []"
| glob_any: "glob ps cs \<Longrightarrow> glob (CHR ''?'' # ps) (c # cs)"
| glob_star_stop: "glob ps cs \<Longrightarrow> glob (CHR ''*'' # ps) cs"
| glob_star_skip: "glob (CHR ''*'' # ps) cs \<Longrightarrow> glob (CHR ''*'' # ps) (c # cs)"
| glob_separator: "is_separator p \<Longrightarrow> is_separator c \<Longrightarrow> glob ps cs \<Longrightarrow> glob (p # ps) (c # cs)"
| glob_char: "p \<noteq> CHR ''?'' \<Longrightarrow> p \<noteq> CHR ''*'' \<Longrightarrow> \<not> is_separator p \<Longrightarrow> to_lower c = to_lower p \<Longrightarrow>
    glob ps cs \<Longrightarrow> glob (p # ps) (c # cs)"

inductive_cases glob_nilE: "glob [] cs"
inductive_cases glob_starE: "glob (CHR ''*'' # ps) cs"
inductive_cases glob_consE: "glob (p # ps) cs"

lemma not_separator [simp]: "\<not> is_separator (CHR ''?'')" "\<not> is_separator (CHR ''*'')"
  by (simp_all add: is_separator_def)

lemma glob_star_all: "glob [CHR ''*''] cs"
  by (induction cs) (auto intro: glob.intros)

lemma glob_star_suffix: "glob ps cs \<Longrightarrow> glob (CHR ''*'' # ps) (xs @ cs)"
  by (induction xs) (auto intro: glob.intros)

lemma glob_star_iff: "glob (CHR ''*'' # ps) cs \<longleftrightarrow> (\<exists>xs ys. cs = xs @ ys \<and> glob ps ys)"
proof
  assume "glob (CHR ''*'' # ps) cs"
  then show "\<exists>xs ys. cs = xs @ ys \<and> glob ps ys"
  proof (induction "CHR ''*'' # ps" cs rule: glob.induct)
    case (glob_star_stop cs)
    then show ?case by (intro exI [of _ "[]"] exI [of _ cs]) simp
  next
    case (glob_star_skip cs c)
    then obtain xs ys where "cs = xs @ ys" "glob ps ys" by blast
    then show ?case by (intro exI [of _ "c # xs"] exI [of _ ys]) simp
  qed simp_all
next
  show "\<exists>xs ys. cs = xs @ ys \<and> glob ps ys \<Longrightarrow> glob (CHR ''*'' # ps) cs" by (auto intro: glob_star_suffix)
qed

lemma wildcard_sound:
  "filename_wildcard_match p s \<Longrightarrow> glob p s"
  "wildcard_from q t \<Longrightarrow> glob (CHR ''*'' # q) t"
proof (induction p s and q t rule: filename_wildcard_match_wildcard_from.induct)
  case (2 p ps str)
  then show ?case
    by (auto intro: glob.intros glob_star_all split: if_splits list.splits)
next
  case (4 ps c cs)
  then show ?case by (auto intro: glob.intros split: if_splits)
qed (auto intro: glob.intros)

text \<open>A pattern in which no two stars are adjacent.\<close>

definition no_double_star :: "string \<Rightarrow> bool" where
  "no_double_star p = (\<not> sublist ''**'' p)"

lemma no_double_star_tl: "no_double_star (p # ps) \<Longrightarrow> no_double_star ps"
  by (auto simp: no_double_star_def sublist_Cons_right)

lemma no_double_star_hd: "no_double_star (CHR ''*'' # ps) \<Longrightarrow> ps \<noteq> [] \<Longrightarrow> hd ps \<noteq> CHR ''*''"
  by (cases ps) (auto simp: no_double_star_def sublist_Cons_right)

lemma glob_nonempty: "glob ps [] \<Longrightarrow> ps \<noteq> [] \<Longrightarrow> hd ps = CHR ''*''"
  by (auto elim: glob.cases)

lemma wildcard_from_iff: "wildcard_from ps cs \<longleftrightarrow> (\<exists>xs ys. cs = xs @ ys \<and> ys \<noteq> [] \<and> filename_wildcard_match ps ys)"
  by (induction cs) (auto simp: Cons_eq_append_conv)

lemma wildcard_complete: "glob p s \<Longrightarrow> no_double_star p \<Longrightarrow> filename_wildcard_match p s"
proof (induction p arbitrary: s)
  case Nil
  then show ?case by (auto elim: glob_nilE)
next
  case (Cons p ps)
  note nds = no_double_star_tl [OF Cons.prems(2)]
  show ?case
  proof (cases "p = CHR ''*''")
    case True
    show ?thesis
    proof (cases "ps = []")
      case ne: False
      from Cons.prems(1) True obtain xs ys where xy: "s = xs @ ys" "glob ps ys" by (auto simp: glob_star_iff)
      have "ys \<noteq> []"
        using glob_nonempty [of ps] xy(2) no_double_star_hd [of ps] Cons.prems(2) True ne by auto
      then show ?thesis using True ne xy Cons.IH [OF xy(2) nds] by (auto simp: wildcard_from_iff)
    qed (simp add: True)
  next
    case False
    from Cons.prems(1) Cons.IH nds False show ?thesis
      by (auto elim!: glob_consE simp: is_separator_def)
  qed
qed

text \<open>C35: The matcher accepts only names the pattern describes, and it accepts all of them when
  no two stars of the pattern are adjacent; \<open>*\<close> then stands for any text, separators match
  either slash, and letters match in either case.\<close>

theorem wildcard_is_glob:
  "(filename_wildcard_match p s \<longrightarrow> glob p s) \<and>
   (no_double_star p \<longrightarrow> filename_wildcard_match p s = glob p s)"
  using wildcard_sound(1) wildcard_complete by blast

lemma wildcard_is_glob_witness:
  "filename_wildcard_match ''C:/*/*.EXE'' ''c:/tools/a.exe'' \<and> glob ''C:/*/*.EXE'' ''c:/tools/a.exe''"
proof -
  have "filename_wildcard_match ''C:/*/*.EXE'' ''c:/tools/a.exe''" by code_simp
  with wildcard_is_glob show ?thesis by blast
qed

text \<open>Adjacent stars lose the empty remainder: the recursion is only tried at non-empty suffixes.\<close>

lemma double_star_misses_empty: "glob ''a**'' ''a''" "\<not> filename_wildcard_match ''a**'' ''a''"
proof -
  have "glob [] []" by (rule glob_end)
  then have "glob ''**'' []" by (intro glob_star_stop)
  then show "glob ''a**'' ''a''" by (intro glob_char) (simp_all add: is_separator_def)
  show "\<not> filename_wildcard_match ''a**'' ''a''" by code_simp
qed

section \<open>Replacing and the regex match\<close>

text \<open>
  \<open>replace_loop what wth pre rest n\<close> is the loop of \<open>replace_all_inplace\<close> with the text before
  \<open>pos\<close> in \<open>pre\<close>. It never ends for an empty \<open>what\<close>; the value is then \<open>None\<close>.
\<close>

definition find_text :: "string \<Rightarrow> string \<Rightarrow> nat option" where
  "find_text what s = scan (\<lambda>i. take (length what) (drop i s) = what) (Suc (length s) - length what)"

partial_function (option) replace_loop :: "string \<Rightarrow> string \<Rightarrow> string \<Rightarrow> string \<Rightarrow> nat \<Rightarrow> (string \<times> nat) option" where
  "replace_loop what wth pre rest n =
     (case find_text what rest of
        None \<Rightarrow> Some (pre @ rest, n)
      | Some i \<Rightarrow> replace_loop what wth (pre @ take i rest @ wth) (drop (i + length what) rest) (n + 1))"

definition replace_all :: "string \<Rightarrow> string \<Rightarrow> string \<Rightarrow> string option" where
  "replace_all input what wth = map_option fst (replace_loop what wth [] input 0)"

lemma find_char_text: "find_text [c] s = find_char c s"
proof -
  have "take (Suc 0) (drop i s) = [c] \<longleftrightarrow> s ! i = c" if "i < length s" for i
    using that by (metis Cons_nth_drop_Suc list.inject take0 take_Suc_Cons)
  then show ?thesis
    unfolding find_text_def find_char_def by (intro scan_cong) auto
qed

lemma replace_char:
  "c \<noteq> d \<Longrightarrow> replace_loop [c] [d] pre rest n = Some (pre @ map (\<lambda>x. if x = c then d else x) rest, n + count_list rest c)"
proof (induction rest arbitrary: pre n rule: length_induct)
  case (1 rest)
  show ?case
  proof (cases "find_char c rest")
    case None
    then have "c \<notin> set rest" by simp
    then have "map (\<lambda>x. if x = c then d else x) rest = rest" "count_list rest c = 0"
      by (auto intro: map_idI simp: count_list_0_iff)
    with None show ?thesis by (subst replace_loop.simps) (simp add: find_char_text del: find_char_None)
  next
    case (Some i)
    then obtain xs ys where xy: "rest = xs @ c # ys" "c \<notin> set xs" "i = length xs" by (rule find_charE)
    then have "map (\<lambda>x. if x = c then d else x) xs = xs" "count_list xs c = 0"
      by (auto intro: map_idI simp: count_list_0_iff)
    with Some xy "1.IH" [rule_format, of ys "pre @ xs @ [d]" "n + 1"] "1.prems" show ?thesis
      by (subst replace_loop.simps) (simp add: find_char_text del: find_char_append)
  qed
qed

text \<open>
  The regex engine: \<open>regex_match pattern input\<close> is \<open>None\<close> when the pattern does not compile.
\<close>

definition regex_match_filename :: "(string \<Rightarrow> string \<Rightarrow> bool option) \<Rightarrow> string \<Rightarrow> string \<Rightarrow> bool option" where
  "regex_match_filename regex_match pattern input =
     (case replace_all input ''/'' [CHR 0x5C] of
        None \<Rightarrow> None
      | Some back \<Rightarrow>
          (case regex_match pattern back of
             None \<Rightarrow> Some False
           | Some True \<Rightarrow> Some True
           | Some False \<Rightarrow>
               (case replace_all input [CHR 0x5C] ''/'' of
                  None \<Rightarrow> None
                | Some fwd \<Rightarrow> (case regex_match pattern fwd of None \<Rightarrow> Some False | Some m \<Rightarrow> Some m))))"

definition fold_slash :: "char \<Rightarrow> string \<Rightarrow> string" where
  "fold_slash to s = map (\<lambda>x. if is_separator x then to else x) s"

text \<open>The regex match of a file name always returns, and it depends on the name only up to the
  direction of its slashes: it accepts when the pattern compiles and matches the name spelled
  with backslashes throughout or with slashes throughout.\<close>

theorem regex_match_filename_slashes:
  "regex_match_filename rm pattern input =
     Some (case rm pattern (fold_slash (CHR 0x5C) input) of
        None \<Rightarrow> False
      | Some m \<Rightarrow> m \<or> rm pattern (fold_slash (CHR ''/'') input) = Some True)"
proof -
  have b: "replace_all input ''/'' [CHR 0x5C] = Some (fold_slash (CHR 0x5C) input)"
    unfolding replace_all_def using replace_char [of "CHR ''/''" "CHR 0x5C" "[]" input 0]
    by (auto simp: fold_slash_def is_separator_def)
  have f: "replace_all input [CHR 0x5C] ''/'' = Some (fold_slash (CHR ''/'') input)"
    unfolding replace_all_def using replace_char [of "CHR 0x5C" "CHR ''/''" "[]" input 0]
    by (auto simp: fold_slash_def is_separator_def)
  show ?thesis unfolding regex_match_filename_def b f
    by (auto split: option.split bool.split)
qed

section \<open>Copies and conversions\<close>

definition ltrim_copy :: "string \<Rightarrow> string" where
  "ltrim_copy s = ltrim s"

definition rtrim_copy :: "string \<Rightarrow> string" where
  "rtrim_copy s = rtrim s"

definition trim_copy :: "string \<Rightarrow> string" where
  "trim_copy s = trim s"

text \<open>
  The conversions of Windows are parameters: the bytes or units of a text that is not empty, \<open>None\<close>
  when the conversion fails, which leaves a size of zero.
\<close>

definition utf8_encode :: "('w list \<Rightarrow> string option) \<Rightarrow> 'w list \<Rightarrow> string" where
  "utf8_encode to_multi_byte wstr =
     (if wstr = [] then [] else (case to_multi_byte wstr of None \<Rightarrow> [] | Some result \<Rightarrow> result))"

definition utf8_decode :: "(string \<Rightarrow> 'w list option) \<Rightarrow> string \<Rightarrow> 'w list" where
  "utf8_decode to_wide_char str =
     (if str = [] then [] else (case to_wide_char str of None \<Rightarrow> [] | Some result \<Rightarrow> result))"

text \<open>The two are inverse where the conversions are.\<close>

lemma utf8_roundtrip:
  assumes "\<And>s w. s \<noteq> [] \<Longrightarrow> to_wide_char s = Some w \<Longrightarrow> w \<noteq> [] \<and> to_multi_byte w = Some s"
    and "to_wide_char s \<noteq> None"
  shows "utf8_encode to_multi_byte (utf8_decode to_wide_char s) = s"
  using assms by (auto simp: utf8_encode_def utf8_decode_def)

end
