(* ===== verification/Proxy_Endpoint.thy ===== *)
theory Proxy_Endpoint
  imports Text_Utils
begin

text \<open>
  The proxy endpoint syntax \<open>[user[:pass]@]host:port\<close> and the credential redaction of
  src/common/utils.hpp. String views are lists; \<open>npos\<close> is \<open>None\<close>.
\<close>

section \<open>Parsing\<close>

record proxy_endpoint =
  px_host :: string
  px_port :: u16
  px_username :: "string option"
  px_password :: "string option"

definition proxy_credential_max_length :: nat where
  "proxy_credential_max_length = 255"

definition proxy_port_max_length :: nat where
  "proxy_port_max_length = 5"

text \<open>The userinfo and the authority: everything in front of the last \<open>@\<close>, and what follows it.\<close>

definition split_userinfo :: "string \<Rightarrow> string \<times> string" where
  "split_userinfo url =
     (case rfind_char (CHR ''@'') url of
        Some at \<Rightarrow> (take at url, drop (at + 1) url)
      | None \<Rightarrow> ([], url))"

definition split_authority :: "string \<Rightarrow> (string \<times> string) option" where
  "split_authority authority =
     (if authority \<noteq> [] \<and> hd authority = CHR ''['' then
        (case find_char (CHR '']'') authority of
           None \<Rightarrow> None
         | Some close \<Rightarrow>
             let host = take (close - 1) (drop 1 authority);
                 tail = drop (close + 1) authority
             in if tail = [] \<or> hd tail \<noteq> CHR '':'' then None
                else Some (host, drop 1 tail))
      else
        (case rfind_char (CHR '':'') authority of
           None \<Rightarrow> None
         | Some colon \<Rightarrow> Some (take colon authority, drop (colon + 1) authority)))"

fun port_digits :: "u32 \<Rightarrow> string \<Rightarrow> u32 option" where
  "port_digits port [] = Some port"
| "port_digits port (d # ds) =
     (if \<not> is_digit d then None else port_digits (port * 10 + of_nat (digit_value d)) ds)"

definition parse_port :: "string \<Rightarrow> u16 option" where
  "parse_port port_text =
     (if port_text = [] \<or> length port_text > proxy_port_max_length then None
      else (case port_digits 0 port_text of
        None \<Rightarrow> None
      | Some port \<Rightarrow> if port = 0 \<or> port > 65535 then None else Some (ucast port)))"

text \<open>The last part of the function: the credentials of a non-empty userinfo.\<close>

definition parse_credentials :: "string \<Rightarrow> proxy_endpoint \<Rightarrow> proxy_endpoint option" where
  "parse_credentials userinfo endpoint =
     (if userinfo = [] then Some endpoint
      else
        let colon = find_char (CHR '':'') userinfo;
            name = (case colon of None \<Rightarrow> userinfo | Some i \<Rightarrow> take i userinfo);
            password = (case colon of None \<Rightarrow> [] | Some i \<Rightarrow> drop (i + 1) userinfo)
        in if length name > proxy_credential_max_length \<or> length password > proxy_credential_max_length
           then None
           else if name \<noteq> [] then
             Some (endpoint\<lparr>px_username := Some name,
               px_password := (if password \<noteq> [] then Some password else None)\<rparr>)
           else Some endpoint)"

definition parse_proxy_url :: "string \<Rightarrow> proxy_endpoint option" where
  "parse_proxy_url url =
     (case split_userinfo url of (userinfo, authority) \<Rightarrow>
      (case split_authority authority of
         None \<Rightarrow> None
       | Some (host, port_text) \<Rightarrow>
           if host = [] then None
           else if list_ex (\<lambda>c. c = CHR ''['' \<or> c = CHR '']'') host then None
           else (case parse_port port_text of
             None \<Rightarrow> None
           | Some port \<Rightarrow>
               parse_credentials userinfo
                 \<lparr>px_host = host, px_port = port, px_username = None, px_password = None\<rparr>)))"

section \<open>Printing, and the endpoints that exist\<close>

definition digit_char :: "nat \<Rightarrow> char" where
  "digit_char n = char_of (48 + n)"

fun decimal :: "nat \<Rightarrow> string" where
  "decimal n = (if n < 10 then [digit_char n] else decimal (n div 10) @ [digit_char (n mod 10)])"

declare decimal.simps [simp del]

definition endpoint_valid :: "proxy_endpoint \<Rightarrow> bool" where
  "endpoint_valid e =
     (px_host e \<noteq> [] \<and> CHR ''['' \<notin> set (px_host e) \<and> CHR '']'' \<notin> set (px_host e) \<and> CHR ''@'' \<notin> set (px_host e) \<and>
      px_port e \<noteq> 0 \<and>
      (case px_username e of
         None \<Rightarrow> px_password e = None
       | Some u \<Rightarrow> u \<noteq> [] \<and> CHR '':'' \<notin> set u \<and> length u \<le> proxy_credential_max_length) \<and>
      (case px_password e of
         None \<Rightarrow> True
       | Some p \<Rightarrow> p \<noteq> [] \<and> length p \<le> proxy_credential_max_length))"

definition endpoint_url :: "proxy_endpoint \<Rightarrow> string" where
  "endpoint_url e =
     (case px_username e of
        None \<Rightarrow> []
      | Some u \<Rightarrow> u @ (case px_password e of None \<Rightarrow> [] | Some p \<Rightarrow> CHR '':'' # p) @ ''@'') @
     (if CHR '':'' \<in> set (px_host e) then ''['' @ px_host e @ '']'' else px_host e) @
     CHR '':'' # decimal (unat (px_port e))"

lemma digit_char_simps:
  assumes "n < 10"
  shows "is_digit (digit_char n)" "digit_value (digit_char n) = n"
  using assms by (simp_all add: digit_char_def is_digit_def digit_value_def take_bit_eq_mod)

lemma digits_not_special: "is_digit c \<Longrightarrow> c \<noteq> CHR '':'' \<and> c \<noteq> CHR ''@''"
  by (auto simp: is_digit_def)

lemma decimal_digits: "c \<in> set (decimal n) \<Longrightarrow> is_digit c"
  by (induction n rule: decimal.induct) (subst (asm) decimal.simps, auto simp: digit_char_simps split: if_splits)

lemma decimal_nonempty [simp]: "decimal n \<noteq> []"
  by (subst decimal.simps) simp

lemma port_digits_append:
  "port_digits p (xs @ ys) = (case port_digits p xs of None \<Rightarrow> None | Some q \<Rightarrow> port_digits q ys)"
  by (induction xs arbitrary: p) auto

lemma port_digits_decimal: "port_digits 0 (decimal n) = Some (of_nat n)"
proof (induction n rule: decimal.induct)
  case (1 n)
  have "(of_nat (n div 10) * 10 + of_nat (n mod 10) :: u32) = of_nat (n div 10 * 10 + n mod 10)"
    unfolding of_nat_add of_nat_mult of_nat_numeral ..
  also have "n div 10 * 10 + n mod 10 = n" by simp
  finally have e: "(of_nat (n div 10) * 10 + of_nat (n mod 10) :: u32) = of_nat n" .
  from 1 show ?case
    by (subst decimal.simps) (auto simp: port_digits_append digit_char_simps e)
qed

lemma decimal_length: "n < 10 ^ Suc k \<Longrightarrow> length (decimal n) \<le> Suc k"
proof (induction k arbitrary: n)
  case 0
  then show ?case by (subst decimal.simps) simp
next
  case (Suc k)
  have "n div 10 < 10 ^ Suc k" using Suc.prems by (simp add: less_mult_imp_div_less)
  from Suc.IH [OF this] show ?case by (subst decimal.simps) auto
qed

lemma parse_port_decimal: "p \<noteq> 0 \<Longrightarrow> parse_port (decimal (unat p)) = Some (p :: u16)"
proof -
  assume p: "p \<noteq> 0"
  have lt: "unat p < 65536" using unsigned_less [where 'a = nat and w = p] by simp
  have "unat p < 10 ^ Suc 4" using lt by simp
  from decimal_length [OF this] have "length (decimal (unat p)) \<le> 5" by simp
  moreover have u: "unat (of_nat (unat p) :: u32) = unat p" using lt by (simp add: unsigned_ucast_eq take_bit_nat_eq_self)
  then have "(of_nat (unat p) :: u32) \<noteq> 0" using p by (metis unat_0 unat_eq_zero)
  moreover have "\<not> 65535 < (of_nat (unat p) :: u32)" using u lt by (simp add: word_less_nat_alt)
  moreover have "ucast (of_nat (unat p) :: u32) = p"
    by (auto intro!: bit_word_eqI simp: bit_simps dest: bit_imp_le_length)
  ultimately show ?thesis
    by (simp add: parse_port_def proxy_port_max_length_def port_digits_decimal)
qed

lemma parse_port_nonzero: "parse_port s = Some p \<Longrightarrow> p \<noteq> 0"
proof -
  assume "parse_port s = Some p"
  then obtain n :: u32 where n: "n \<noteq> 0" "\<not> 65535 < n" "p = ucast n"
    by (auto simp: parse_port_def split: if_splits option.splits)
  then have "unat p = unat n" by (simp add: unsigned_ucast_eq take_bit_nat_eq_self word_less_nat_alt)
  with n(1) show "p \<noteq> 0" by (metis unat_0 unat_eq_zero)
qed

lemma split_userinfo_print:
  "CHR ''@'' \<notin> set a \<Longrightarrow> split_userinfo (u @ CHR ''@'' # a) = (u, a)"
  "CHR ''@'' \<notin> set a \<Longrightarrow> split_userinfo a = ([], a)"
proof -
  assume a: "CHR ''@'' \<notin> set a"
  then show "split_userinfo (u @ CHR ''@'' # a) = (u, a)" by (simp add: split_userinfo_def)
  from a have "rfind_char (CHR ''@'') a = None" by simp
  then show "split_userinfo a = ([], a)" unfolding split_userinfo_def by (simp only: option.case)
qed

lemma split_userinfo_no_at: "split_userinfo url = (u, a) \<Longrightarrow> CHR ''@'' \<notin> set a"
proof (cases "rfind_char (CHR ''@'') url")
  case None
  assume s: "split_userinfo url = (u, a)"
  have "CHR ''@'' \<notin> set url" using None by simp
  moreover have "a = url" using s unfolding split_userinfo_def None by simp
  ultimately show ?thesis by simp
next
  case (Some i)
  assume s: "split_userinfo url = (u, a)"
  from Some obtain xs ys where xy: "url = xs @ CHR ''@'' # ys" "CHR ''@'' \<notin> set ys" "i = length xs"
    by (rule rfind_charE)
  have "a = ys" using s Some xy(1,3) unfolding split_userinfo_def by simp
  with xy(2) show ?thesis by simp
qed

lemma split_authority_print:
  assumes "h \<noteq> []" "CHR ''['' \<notin> set h" "CHR '']'' \<notin> set h" and p: "CHR '':'' \<notin> set p"
  shows "split_authority ((if CHR '':'' \<in> set h then ''['' @ h @ '']'' else h) @ CHR '':'' # p) = Some (h, p)"
proof (cases "CHR '':'' \<in> set h")
  case True
  have "find_char (CHR '']'') ((CHR ''['' # h) @ CHR '']'' # CHR '':'' # p) = Some (Suc (length h))"
    using assms(3) by (subst find_char_append) auto
  with True show ?thesis by (simp add: split_authority_def)
next
  case False
  have "hd (h @ CHR '':'' # p) \<noteq> CHR ''[''" using assms by (cases h) auto
  with False p show ?thesis by (simp add: split_authority_def)
qed

lemma split_authority_parts: "split_authority a = Some (h, p) \<Longrightarrow> set h \<subseteq> set a"
proof -
  assume s: "split_authority a = Some (h, p)"
  then have "\<exists>n m. h = take n (drop m a)"
    unfolding split_authority_def Let_def
    by (auto split: if_splits option.splits) (metis drop0)+
  then show ?thesis by (meson set_drop_subset set_take_subset subset_trans)
qed

lemma parse_credentials_fields:
  assumes p: "parse_credentials ui \<lparr>px_host = h, px_port = n, px_username = None, px_password = None\<rparr> = Some e"
  shows "px_host e = h \<and> px_port e = n \<and>
    (case px_username e of
       None \<Rightarrow> px_password e = None
     | Some u \<Rightarrow> u \<noteq> [] \<and> CHR '':'' \<notin> set u \<and> length u \<le> proxy_credential_max_length) \<and>
    (case px_password e of None \<Rightarrow> True | Some w \<Rightarrow> w \<noteq> [] \<and> length w \<le> proxy_credential_max_length)"
proof -
  let ?n = "case find_char (CHR '':'') ui of None \<Rightarrow> ui | Some i \<Rightarrow> take i ui"
  have n: "CHR '':'' \<notin> set ?n" unfolding take_find_char by (auto dest: set_takeWhileD)
  show ?thesis
    using p n unfolding parse_credentials_def Let_def
    by (cases "?n = []") (auto split: if_splits)
qed

lemma parse_credentials_print:
  assumes "u \<noteq> []" "CHR '':'' \<notin> set u" "length u \<le> proxy_credential_max_length"
    and "\<And>w. pw = Some w \<Longrightarrow> w \<noteq> [] \<and> length w \<le> proxy_credential_max_length"
  shows "parse_credentials (u @ (case pw of None \<Rightarrow> [] | Some w \<Rightarrow> CHR '':'' # w)) e =
    Some (e\<lparr>px_username := Some u, px_password := pw\<rparr>)"
proof (cases pw)
  case None
  have "find_char (CHR '':'') u = None" using assms(2) by simp
  with None assms show ?thesis
    by (simp add: parse_credentials_def Let_def proxy_credential_max_length_def del: find_char_None)
next
  case (Some w)
  with assms(1-3) assms(4) [OF Some] show ?thesis
    by (simp add: parse_credentials_def Let_def)
qed

section \<open>Properties of the parser\<close>

text \<open>Every endpoint the parser returns is a sound one: a host without brackets or \<open>@\<close>, a port
  from 1 to 65535, a password only with a user name, and no empty or overlong credential.\<close>

theorem parse_proxy_url_sound:
  assumes "parse_proxy_url url = Some e"
  shows "endpoint_valid e"
proof -
  obtain ui a where s: "split_userinfo url = (ui, a)" by (cases "split_userinfo url")
  obtain h pt where au: "split_authority a = Some (h, pt)"
    using assms s by (auto simp: parse_proxy_url_def split: option.splits)
  have host: "h \<noteq> []" "\<not> list_ex (\<lambda>c. c = CHR ''['' \<or> c = CHR '']'') h"
    using assms by (auto simp: parse_proxy_url_def s au split: if_splits)
  then obtain port where p: "parse_port pt = Some port"
    using assms by (auto simp: parse_proxy_url_def s au split: option.splits)
  have "parse_credentials ui \<lparr>px_host = h, px_port = port, px_username = None, px_password = None\<rparr> = Some e"
    using assms host by (simp add: parse_proxy_url_def s au p)
  from parse_credentials_fields [OF this] host parse_port_nonzero [OF p]
    split_authority_parts [OF au] split_userinfo_no_at [OF s]
  show ?thesis by (auto simp: endpoint_valid_def list_ex_iff)
qed

lemma parse_proxy_url_sound_witness:
  "parse_proxy_url ''alice:p@ss:w@[2001:db8::1]:1080'' =
     Some \<lparr>px_host = ''2001:db8::1'', px_port = 1080, px_username = Some ''alice'', px_password = Some ''p@ss:w''\<rparr> \<and>
   endpoint_valid \<lparr>px_host = ''2001:db8::1'', px_port = 1080, px_username = Some ''alice'', px_password = Some ''p@ss:w''\<rparr>"
proof -
  have p: "parse_proxy_url ''alice:p@ss:w@[2001:db8::1]:1080'' =
      Some \<lparr>px_host = ''2001:db8::1'', px_port = 1080, px_username = Some ''alice'', px_password = Some ''p@ss:w''\<rparr>"
    by code_simp
  with parse_proxy_url_sound [OF p] show ?thesis by blast
qed

lemma parse_printed_url:
  assumes v: "endpoint_valid e"
  shows "parse_proxy_url (endpoint_url e) = Some e"
proof -
  obtain h p u w where e: "e = \<lparr>px_host = h, px_port = p, px_username = u, px_password = w\<rparr>" by (cases e)
  let ?a = "(if CHR '':'' \<in> set h then ''['' @ h @ '']'' else h) @ CHR '':'' # decimal (unat p)"
  have h: "h \<noteq> []" "CHR ''['' \<notin> set h" "CHR '']'' \<notin> set h" "CHR ''@'' \<notin> set h" and pz: "p \<noteq> 0"
    using v by (simp_all add: e endpoint_valid_def)
  have dig: "CHR '':'' \<notin> set (decimal (unat p))" "CHR ''@'' \<notin> set (decimal (unat p))"
    using decimal_digits digits_not_special by blast+
  have at: "CHR ''@'' \<notin> set ?a" using h(4) dig(2) by auto
  have auth: "split_authority ?a = Some (h, decimal (unat p))"
    using split_authority_print [OF h(1,2,3) dig(1)] .
  have nob: "\<not> list_ex (\<lambda>c. c = CHR ''['' \<or> c = CHR '']'') h" using h by (auto simp: list_ex_iff)
  have go: "split_userinfo url = (ui, ?a) \<Longrightarrow> parse_proxy_url url =
      parse_credentials ui \<lparr>px_host = h, px_port = p, px_username = None, px_password = None\<rparr>" for url ui
    using auth nob h(1) by (simp add: parse_proxy_url_def parse_port_decimal pz)
  show ?thesis
  proof (cases u)
    case None
    have url: "endpoint_url e = ?a" by (simp add: endpoint_url_def e None)
    have "w = None" using v by (simp add: e None endpoint_valid_def)
    with go [OF split_userinfo_print(2) [OF at]] show ?thesis
      unfolding url by (simp add: e None parse_credentials_def)
  next
    case (Some n)
    have url: "endpoint_url e = (n @ (case w of None \<Rightarrow> [] | Some x \<Rightarrow> CHR '':'' # x)) @ CHR ''@'' # ?a"
      by (simp add: endpoint_url_def e Some)
    have "w = Some x \<Longrightarrow> x \<noteq> [] \<and> length x \<le> proxy_credential_max_length" for x
      using v by (simp add: e endpoint_valid_def)
    then have "parse_credentials (n @ (case w of None \<Rightarrow> [] | Some x \<Rightarrow> CHR '':'' # x))
        \<lparr>px_host = h, px_port = p, px_username = None, px_password = None\<rparr> = Some e"
      using v by (subst parse_credentials_print) (simp_all add: e Some endpoint_valid_def)
    then show ?thesis unfolding url by (rule trans [OF go [OF split_userinfo_print(1) [OF at]]])
  qed
qed

text \<open>C33: Every sound endpoint has a spelling: printing it (IPv6 hosts in brackets, an \<open>@\<close> or \<open>:\<close>
  left as it is in the password) and parsing gives the same endpoint back.\<close>

theorem parse_proxy_url_print:
  assumes "endpoint_valid e"
  shows "parse_proxy_url (endpoint_url e) = Some e"
  by (rule parse_printed_url [OF assms])

lemma parse_proxy_url_print_witness:
  "parse_proxy_url (endpoint_url \<lparr>px_host = ''::1'', px_port = 1080, px_username = Some ''bob'', px_password = None\<rparr>) =
     Some \<lparr>px_host = ''::1'', px_port = 1080, px_username = Some ''bob'', px_password = None\<rparr>"
  by (rule parse_proxy_url_print) code_simp

section \<open>Redaction\<close>

definition option_part :: "string \<Rightarrow> string" where
  "option_part token =
     (let rest = dropWhile (\<lambda>c. c = CHR ''-'') token in
      takeWhile (\<lambda>c. c \<noteq> CHR '':'' \<and> c \<noteq> CHR ''='') rest)"

definition contains_text :: "string \<Rightarrow> string \<Rightarrow> bool" where
  "contains_text needle s = (find_text needle s \<noteq> None)"

definition is_proxy_flag_token :: "string \<Rightarrow> bool" where
  "is_proxy_flag_token token =
     (if token = [] \<or> hd token \<noteq> CHR ''-'' then False
      else
        let opt = option_part token in
        (case scan (\<lambda>i. token ! i = CHR '':'' \<or> token ! i = CHR ''='') (length token) of
           None \<Rightarrow> False
         | Some separator \<Rightarrow>
             if separator + 1 \<ge> length token then False
             else opt \<noteq> [] \<and>
               (take 1 opt = ''p'' \<and> take 4 opt \<noteq> ''path'' \<or> contains_text ''proxy'' opt)))"

definition scrub_token :: "string \<Rightarrow> string option" where
  "scrub_token token =
     (case rfind_char (CHR ''@'') token of
        Some at \<Rightarrow> Some (drop (at + 1) token)
      | None \<Rightarrow> if is_proxy_flag_token token then None else Some token)"

function scrub_message :: "string \<Rightarrow> string" where
  "scrub_message [] = []"
| "scrub_message (c # cs) =
     (if is_space c then c # scrub_message cs
      else
        (case scrub_token (takeWhile (\<lambda>x. \<not> is_space x) (c # cs)) of None \<Rightarrow> [] | Some t \<Rightarrow> t) @
        scrub_message (dropWhile (\<lambda>x. \<not> is_space x) (c # cs)))"
  by pat_completeness auto
termination
  by (relation "measure length") (auto simp: less_Suc_eq_le length_dropWhile_le)

definition sanitize_parse_error :: "string \<Rightarrow> string" where
  "sanitize_parse_error message =
     (let result = rtrim (scrub_message message) in
      if result = [] then ''Invalid argument (value redacted)'' else result)"

text \<open>A message is scrubbed piece by piece when the cut follows a blank.\<close>

lemma scrub_message_append:
  "pre = [] \<or> is_space (last pre) \<Longrightarrow> scrub_message (pre @ m) = scrub_message pre @ scrub_message m"
proof (induction pre rule: scrub_message.induct)
  case (2 c cs)
  show ?case
  proof (cases "is_space c")
    case True
    with 2 show ?thesis by (cases "cs = []") auto
  next
    case False
    let ?p = "\<lambda>x. \<not> is_space x"
    have sp: "is_space (last (c # cs))" using 2(3) by simp
    then have ex: "\<exists>x \<in> set (c # cs). \<not> ?p x" using last_in_set [of "c # cs"] by blast
    then have t: "takeWhile ?p ((c # cs) @ m) = takeWhile ?p (c # cs)"
      and d: "dropWhile ?p ((c # cs) @ m) = dropWhile ?p (c # cs) @ m"
      using takeWhile_append1 [of _ "c # cs" ?p m] dropWhile_append1 [of _ "c # cs" ?p m] by blast+
    have ne: "dropWhile ?p (c # cs) \<noteq> []" using ex by (auto simp: dropWhile_eq_Nil_conv simp del: dropWhile.simps)
    then have "last (dropWhile ?p (c # cs)) = last (c # cs)"
      by (metis last_appendR takeWhile_dropWhile_id)
    then have "dropWhile ?p (c # cs) = [] \<or> is_space (last (dropWhile ?p (c # cs)))" using sp by simp
    from "2.IH"(2) [OF False this] have "scrub_message (dropWhile ?p (c # cs) @ m) =
        scrub_message (dropWhile ?p (c # cs)) @ scrub_message m" .
    with t d False show ?thesis by (simp del: takeWhile.simps dropWhile.simps)
  qed
qed simp

lemma scrub_token_secret: "scrub_token (secret @ CHR ''@'' # t) = scrub_token (CHR ''@'' # t)"
proof (cases "CHR ''@'' \<in> set t")
  case False
  then have "rfind_char (CHR ''@'') (secret @ CHR ''@'' # t) = Some (length secret)"
    "rfind_char (CHR ''@'') ([] @ CHR ''@'' # t) = Some (length ([] :: string))"
    by (rule rfind_char_append)+
  then show ?thesis by (simp add: scrub_token_def)
next
  case True
  then obtain xs ys where t: "t = xs @ CHR ''@'' # ys" "CHR ''@'' \<notin> set ys" by (metis split_list_last)
  have "rfind_char (CHR ''@'') ((p @ CHR ''@'' # xs) @ CHR ''@'' # ys) = Some (length (p @ CHR ''@'' # xs))" for p
    by (rule rfind_char_append [OF t(2)])
  from this [of secret] this [of "[]"] show ?thesis by (simp add: scrub_token_def t(1))
qed

lemma scrub_message_secret:
  assumes "\<forall>c \<in> set secret. \<not> is_space c"
  shows "scrub_message (secret @ CHR ''@'' # m) = scrub_message (CHR ''@'' # m)"
proof -
  let ?p = "\<lambda>x. \<not> is_space x"
  have at: "?p (CHR ''@'')" by (simp add: is_space_def)
  have t: "takeWhile ?p (secret @ CHR ''@'' # m) = secret @ CHR ''@'' # takeWhile ?p m"
    and d: "dropWhile ?p (secret @ CHR ''@'' # m) = dropWhile ?p m"
    using assms at by (simp_all add: takeWhile_append2 dropWhile_append2)
  have step: "s \<noteq> [] \<Longrightarrow> ?p (hd s) \<Longrightarrow> scrub_message s =
      (case scrub_token (takeWhile ?p s) of None \<Rightarrow> [] | Some t \<Rightarrow> t) @ scrub_message (dropWhile ?p s)" for s
    by (cases s) (simp_all del: takeWhile.simps dropWhile.simps)
  have hd: "?p (hd (secret @ CHR ''@'' # m))" using assms at by (cases secret) auto
  have "scrub_message (secret @ CHR ''@'' # m) =
      (case scrub_token (secret @ CHR ''@'' # takeWhile ?p m) of None \<Rightarrow> [] | Some t \<Rightarrow> t) @ scrub_message (dropWhile ?p m)"
    using step [OF _ hd] t d by simp
  also have "\<dots> = scrub_message (CHR ''@'' # m)"
    using step [of "CHR ''@'' # m"] at by (simp add: scrub_token_secret)
  finally show ?thesis .
qed

text \<open>C34: Redaction does not leak: in a parse error, the part of a word in front of an \<open>@\<close> (the
  userinfo) has no influence on what is printed, as long as it contains no blank.\<close>

theorem userinfo_never_printed:
  assumes pre: "pre = [] \<or> is_space (last pre)"
    and s: "\<forall>c \<in> set secret. \<not> is_space c" and s': "\<forall>c \<in> set secret'. \<not> is_space c"
  shows "sanitize_parse_error (pre @ secret @ CHR ''@'' # post) = sanitize_parse_error (pre @ secret' @ CHR ''@'' # post)"
  using scrub_message_append [OF pre] scrub_message_secret [OF s] scrub_message_secret [OF s']
  by (simp add: sanitize_parse_error_def)

lemma userinfo_never_printed_witness:
  "sanitize_parse_error ''Unknown argument: -palice:pw@h:1'' = sanitize_parse_error ''Unknown argument: -pbob:other@h:1''"
  using userinfo_never_printed [of "''Unknown argument: ''" "''-palice:pw''" "''-pbob:other''" "''h:1''"]
  by (simp add: is_space_def)

text \<open>A blank inside the password defeats it: the word between the blanks is printed.\<close>

lemma blank_in_password_leaks:
  "sanitize_parse_error ''Unknown argument: -palice:se cr et@h:1'' = ''Unknown argument:  cr h:1''"
  by code_simp

end
