(* ===== verification/Report_Queue.thy ===== *)
theory Report_Queue
  imports Prelude Bounded_Fifo
begin

text \<open>
  src/common/queue.hpp, the queue between the hooks and the client's \<open>writer\<close>: a
  \<open>std::queue\<close> with an optional capacity, and a channel that carries one token per accepted
  item. The queue, its lock regions and its counters are the code's; of the channel (asio) only
  the number of tokens is kept that were sent and neither received nor aborted.
\<close>

section \<open>The queue\<close>

record 'a blocking_queue =
  bq_qu :: "'a list"
  bq_capacity :: nat
  bq_drops :: nat

definition bq_unbounded :: nat where
  "bq_unbounded = 0"

definition blocking_queue_new :: "nat \<Rightarrow> 'a blocking_queue" where
  "blocking_queue_new cap = \<lparr>bq_qu = [], bq_capacity = cap, bq_drops = 0\<rparr>"

text \<open>The result says whether a token has to be sent.\<close>

definition bq_push :: "'a \<Rightarrow> 'a blocking_queue \<Rightarrow> bool \<times> 'a blocking_queue" where
  "bq_push x q =
     (if bq_capacity q \<noteq> bq_unbounded \<and> length (bq_qu q) \<ge> bq_capacity q
      then (False, q\<lparr>bq_qu := tl (bq_qu q) @ [x], bq_drops := bq_drops q + 1\<rparr>)
      else (True, q\<lparr>bq_qu := bq_qu q @ [x]\<rparr>))"

text \<open>The locked part of \<open>pop\<close>, run once per token received.\<close>

definition bq_take :: "'a blocking_queue \<Rightarrow> 'a option \<times> 'a blocking_queue" where
  "bq_take q =
     (case bq_qu q of
        [] \<Rightarrow> (None, q)
      | x # rest \<Rightarrow> (Some x, q\<lparr>bq_qu := rest\<rparr>))"

text \<open>
  \<open>pop\<close> on the receives that complete while it runs: \<open>True\<close> for a token, \<open>False\<close> for the error
  of a cancelled receive, which is rethrown (\<open>Inl True\<close>); a receive still pending when the list
  ends leaves the coroutine parked (\<open>Inl False\<close>).
\<close>

fun bq_pop :: "bool list \<Rightarrow> 'a blocking_queue \<Rightarrow> (bool + 'a) \<times> bool list \<times> 'a blocking_queue" where
  "bq_pop [] q = (Inl False, [], q)"
| "bq_pop (False # ts) q = (Inl True, ts, q)"
| "bq_pop (True # ts) q =
     (case bq_take q of
        (Some x, q') \<Rightarrow> (Inr x, ts, q')
      | (None, q') \<Rightarrow> bq_pop ts q')"

definition bq_cancel :: "'a blocking_queue \<Rightarrow> 'a blocking_queue" where
  "bq_cancel q = q\<lparr>bq_qu := [], bq_drops := bq_drops q + length (bq_qu q)\<rparr>"

lemma bq_pop_skips_stale_tokens:
  "bq_qu q = [] \<Longrightarrow> bq_pop (replicate n True @ ts) q = bq_pop ts q"
  by (induction n) (simp_all add: bq_take_def)

section \<open>Pushes, receives and cancels in any order\<close>

text \<open>
  The lock makes each of the three regions atomic, so a concurrent run is a sequence of them. A
  receive completes only when a token is outstanding; \<open>Cancel n\<close> aborts \<open>n\<close> pending sends.
\<close>

datatype 'a bq_cmd = Push 'a | Receive | Cancel nat

record 'a bq_run =
  br_queue :: "'a blocking_queue"
  br_tokens :: nat
  br_popped :: "'a list"

fun bq_step :: "'a bq_cmd \<Rightarrow> 'a bq_run \<Rightarrow> 'a bq_run" where
  "bq_step (Push x) s =
     (let (token_needed, q) = bq_push x (br_queue s) in
      s\<lparr>br_queue := q, br_tokens := (if token_needed then br_tokens s + 1 else br_tokens s)\<rparr>)"
| "bq_step Receive s =
     (if br_tokens s = 0 then s
      else let (item, q) = bq_take (br_queue s) in
        s\<lparr>br_queue := q, br_tokens := br_tokens s - 1,
          br_popped := br_popped s @ (case item of None \<Rightarrow> [] | Some x \<Rightarrow> [x])\<rparr>)"
| "bq_step (Cancel aborted) s =
     s\<lparr>br_queue := bq_cancel (br_queue s), br_tokens := br_tokens s - aborted\<rparr>"

definition bq_exec :: "'a bq_cmd list \<Rightarrow> 'a bq_run \<Rightarrow> 'a bq_run" where
  "bq_exec cs s = fold bq_step cs s"

definition bq_start :: "nat \<Rightarrow> 'a bq_run" where
  "bq_start cap = \<lparr>br_queue = blocking_queue_new cap, br_tokens = 0, br_popped = []\<rparr>"

fun pushed_items :: "'a bq_cmd list \<Rightarrow> 'a list" where
  "pushed_items [] = []"
| "pushed_items (Push x # cs) = x # pushed_items cs"
| "pushed_items (Receive # cs) = pushed_items cs"
| "pushed_items (Cancel n # cs) = pushed_items cs"

definition no_cancel :: "'a bq_cmd list \<Rightarrow> bool" where
  "no_cancel cs = list_all (\<lambda>c. case c of Cancel _ \<Rightarrow> False | _ \<Rightarrow> True) cs"

lemma bq_exec_simps [simp]:
  "bq_exec [] s = s" "bq_exec (c # cs) s = bq_exec cs (bq_step c s)"
  by (simp_all add: bq_exec_def)

section \<open>The invariant\<close>

definition bq_ok :: "'a blocking_queue \<Rightarrow> bool" where
  "bq_ok q \<longleftrightarrow> bq_capacity q = bq_unbounded \<or> length (bq_qu q) \<le> bq_capacity q"

lemma bq_ok_new [simp]: "bq_ok (blocking_queue_new cap)"
  by (simp add: bq_ok_def blocking_queue_new_def)

lemma bq_capacity_kept [simp]:
  "bq_capacity (snd (bq_push x q)) = bq_capacity q" "bq_capacity (snd (bq_take q)) = bq_capacity q"
  "bq_capacity (bq_cancel q) = bq_capacity q"
  by (simp_all add: bq_push_def bq_take_def bq_cancel_def split: list.split)

lemma bq_ok_push: "bq_ok q \<Longrightarrow> bq_ok (snd (bq_push x q))"
  by (cases "bq_qu q") (auto simp: bq_ok_def bq_push_def bq_unbounded_def)

lemma bq_ok_take: "bq_ok q \<Longrightarrow> bq_ok (snd (bq_take q))"
  by (auto simp: bq_ok_def bq_take_def split: list.split)

lemma bq_ok_cancel: "bq_ok (bq_cancel q)"
  by (simp add: bq_ok_def bq_cancel_def)

lemma bq_ok_step: "bq_ok (br_queue s) \<Longrightarrow> bq_ok (br_queue (bq_step c s))"
  using bq_ok_push bq_ok_take bq_ok_cancel
  by (cases c) (auto simp: Let_def case_prod_beta)

interpretation report_queue: bounded_fifo bq_ok bq_qu "\<lambda>x q. snd (bq_push x q)" bq_take
proof unfold_locales
  show "bq_qu (snd (bq_push x q)) = bq_qu q \<or> (\<exists>n. bq_qu (snd (bq_push x q)) = drop n (bq_qu q) @ [x])"
    for x and q :: "'a blocking_queue"
    by (auto simp: bq_push_def drop_Suc intro: exI [of _ 0] exI [of _ "Suc 0"])
qed (auto simp: bq_ok_push bq_ok_take, auto simp: bq_take_def)

text \<open>What was pushed is popped, queued or counted as dropped; at least one token is outstanding
  per queued item.\<close>

definition bq_accounted :: "nat \<Rightarrow> 'a bq_run \<Rightarrow> bool" where
  "bq_accounted pushed s \<longleftrightarrow>
     pushed = length (br_popped s) + length (bq_qu (br_queue s)) + bq_drops (br_queue s)"

lemma push_counts:
  "length (bq_qu (snd (bq_push x q))) + bq_drops (snd (bq_push x q)) = Suc (length (bq_qu q) + bq_drops q)"
  if "bq_ok q"
  using that by (cases "bq_qu q") (auto simp: bq_push_def bq_ok_def bq_unbounded_def)

lemma push_length:
  "bq_ok q \<Longrightarrow> length (bq_qu (snd (bq_push x q))) = length (bq_qu q) + (if fst (bq_push x q) then 1 else 0)"
  by (cases "bq_qu q") (auto simp: bq_push_def bq_ok_def bq_unbounded_def)

lemma bq_accounted_step:
  assumes "bq_ok (br_queue s)" and "bq_accounted n s"
  shows "bq_accounted (n + length (pushed_items [c])) (bq_step c s)"
proof (cases c)
  case (Push x)
  with push_counts [OF assms(1), of x] assms(2) show ?thesis
    by (simp add: bq_accounted_def Let_def case_prod_beta)
next
  case Receive
  with assms(2) show ?thesis
    by (auto simp: bq_accounted_def bq_take_def split: list.split)
next
  case (Cancel k)
  with assms(2) show ?thesis by (simp add: bq_accounted_def bq_cancel_def)
qed

lemma tokens_step:
  assumes "bq_ok (br_queue s)" and "br_tokens s \<ge> length (bq_qu (br_queue s))"
  shows "br_tokens (bq_step c s) \<ge> length (bq_qu (br_queue (bq_step c s)))"
  using assms
  by (cases c) (auto simp: Let_def case_prod_beta push_length bq_take_def bq_cancel_def split: list.split)

lemma tokens_exact_step:
  assumes "no_cancel [c]" and "bq_ok (br_queue s)" and "br_tokens s = length (bq_qu (br_queue s))"
  shows "br_tokens (bq_step c s) = length (bq_qu (br_queue (bq_step c s)))"
  using assms
  by (cases c) (auto simp: no_cancel_def Let_def case_prod_beta push_length bq_take_def split: list.split)

lemma pushed_items_Cons: "length (pushed_items (c # cs)) = length (pushed_items [c]) + length (pushed_items cs)"
  by (cases c) simp_all

lemma exec_accounted:
  "\<lbrakk>bq_ok (br_queue s); bq_accounted n s; br_tokens s \<ge> length (bq_qu (br_queue s))\<rbrakk> \<Longrightarrow>
     bq_ok (br_queue (bq_exec cs s)) \<and> bq_accounted (n + length (pushed_items cs)) (bq_exec cs s) \<and>
     br_tokens (bq_exec cs s) \<ge> length (bq_qu (br_queue (bq_exec cs s)))"
proof (induction cs arbitrary: s n)
  case (Cons c cs)
  have "br_tokens (bq_step c s) \<ge> length (bq_qu (br_queue (bq_step c s)))"
    using Cons.prems by (blast intro: tokens_step)
  from Cons.IH [OF bq_ok_step bq_accounted_step this, of n] Cons.prems
  have "bq_ok (br_queue (bq_exec cs (bq_step c s))) \<and>
      bq_accounted (n + length (pushed_items [c]) + length (pushed_items cs)) (bq_exec cs (bq_step c s)) \<and>
      br_tokens (bq_exec cs (bq_step c s)) \<ge> length (bq_qu (br_queue (bq_exec cs (bq_step c s))))" by blast
  then show ?case using pushed_items_Cons [of c cs] by (simp add: add.assoc)
qed simp

lemma exec_capacity: "bq_capacity (br_queue (bq_exec cs s)) = bq_capacity (br_queue s)"
proof (induction cs arbitrary: s)
  case (Cons c cs)
  have "bq_capacity (br_queue (bq_step c s)) = bq_capacity (br_queue s)"
    by (cases c) (simp_all add: Let_def case_prod_beta)
  with Cons show ?case by simp
qed simp

lemma bq_start_ok [simp]:
  "bq_ok (br_queue (bq_start cap))" "bq_accounted 0 (bq_start cap)"
  "br_tokens (bq_start cap) = 0" "bq_qu (br_queue (bq_start cap)) = []" "bq_capacity (br_queue (bq_start cap)) = cap"
  by (simp_all add: bq_start_def bq_accounted_def blocking_queue_new_def bq_ok_def)

section \<open>Properties\<close>

text \<open>The report queue accounts for every report, however pushes, receives and cancels are
  interleaved: what was pushed equals what was popped, plus what is queued, plus the drop
  counter; a bounded queue never holds more than its capacity; and no queued report waits
  without a token that will wake the writer.\<close>

theorem reports_accounted:
  "length (pushed_items cs) = length (br_popped (bq_exec cs (bq_start cap))) +
     length (bq_qu (br_queue (bq_exec cs (bq_start cap)))) + bq_drops (br_queue (bq_exec cs (bq_start cap))) \<and>
   (cap = 0 \<or> length (bq_qu (br_queue (bq_exec cs (bq_start cap)))) \<le> cap) \<and>
   length (bq_qu (br_queue (bq_exec cs (bq_start cap)))) \<le> br_tokens (bq_exec cs (bq_start cap))"
proof -
  from exec_accounted [of "bq_start cap" 0 cs]
  have "bq_ok (br_queue (bq_exec cs (bq_start cap)))" "bq_accounted (length (pushed_items cs)) (bq_exec cs (bq_start cap))"
    "length (bq_qu (br_queue (bq_exec cs (bq_start cap)))) \<le> br_tokens (bq_exec cs (bq_start cap))" by simp_all
  then show ?thesis
    by (simp add: bq_accounted_def bq_ok_def exec_capacity bq_unbounded_def)
qed

text \<open>The writer gets reports in the order they were pushed, none twice and none invented, and
  an overflow loses only the oldest: after pushes alone, the queue holds the newest ones.\<close>

theorem reports_in_order:
  "subseq (fst (fifo_run (\<lambda>x q. snd (bq_push x q)) bq_take cs (blocking_queue_new cap))) (puts_of cs) \<and>
   bq_qu (fold (\<lambda>x q. snd (bq_push x q)) xs (blocking_queue_new (Suc n))) = drop (length xs - Suc n) xs"
proof
  have "subseq (fst (fifo_run (\<lambda>x q. snd (bq_push x q)) bq_take cs (blocking_queue_new cap)) @
      bq_qu (snd (fifo_run (\<lambda>x q. snd (bq_push x q)) bq_take cs (blocking_queue_new cap)))) (puts_of cs)"
    using report_queue.run_subseq [of "blocking_queue_new cap" cs] by (simp add: blocking_queue_new_def bq_ok_def)
  then show "subseq (fst (fifo_run (\<lambda>x q. snd (bq_push x q)) bq_take cs (blocking_queue_new cap))) (puts_of cs)"
    by (rule subseq_order.trans [OF subseq_rev_drop_many [OF subseq_order.refl]])
  let ?q = "\<lambda>xs. fold (\<lambda>x q. snd (bq_push x q)) xs (blocking_queue_new (Suc n) :: 'b blocking_queue)"
  have cap: "bq_capacity (?q xs) = Suc n" for xs
    by (induction xs rule: rev_induct) (simp_all add: blocking_queue_new_def)
  show "bq_qu (?q xs) = drop (length xs - Suc n) xs"
  proof (induction xs rule: rev_induct)
    case Nil
    then show ?case by (simp add: blocking_queue_new_def)
  next
    case (snoc x xs)
    have "bq_qu (?q (xs @ [x])) = (if length (bq_qu (?q xs)) \<ge> Suc n then tl (bq_qu (?q xs)) @ [x] else bq_qu (?q xs) @ [x])"
      using cap [of xs] by (simp add: bq_push_def bq_unbounded_def)
    moreover have "Suc (length xs - Suc n) = length xs - n" if "Suc n \<le> length xs" using that by simp
    ultimately show ?case
      using snoc by (auto simp: tl_drop drop_Suc [symmetric])
  qed
qed

text \<open>
  Until something is cancelled tokens and items agree exactly, so a channel that buffers as many
  tokens as the queue has room never parks a send. A cancel breaks that: buffered tokens
  survive it, and the queue can fill up again on top of them.
\<close>

lemma tokens_match_until_cancel:
  "\<lbrakk>no_cancel cs; bq_ok (br_queue s); br_tokens s = length (bq_qu (br_queue s))\<rbrakk> \<Longrightarrow>
     br_tokens (bq_exec cs s) = length (bq_qu (br_queue (bq_exec cs s)))"
proof (induction cs arbitrary: s)
  case (Cons c cs)
  have n: "no_cancel [c]" "no_cancel cs" using Cons.prems(1) by (simp_all add: no_cancel_def)
  show ?case
    using Cons.IH [OF n(2) bq_ok_step tokens_exact_step [OF n(1)]] Cons.prems by simp
qed simp

lemma tokens_exceed_capacity_after_cancel:
  "br_tokens (bq_exec ([Push a, Push b] @ [Cancel 0] @ [Push c, Push d]) (bq_start 2)) = 4"
  by (simp add: bq_start_def blocking_queue_new_def bq_push_def bq_cancel_def bq_unbounded_def)

section \<open>Reading the counters\<close>

definition bq_size :: "'a blocking_queue \<Rightarrow> nat" where
  "bq_size q = length (bq_qu q)"

definition bq_dropped :: "'a blocking_queue \<Rightarrow> nat" where
  "bq_dropped q = bq_drops q"

definition bq_limit :: "'a blocking_queue \<Rightarrow> nat" where
  "bq_limit q = bq_capacity q"

text \<open>A push makes the queue one longer or one report poorer, never both and never neither.\<close>

lemma push_counted:
  "bq_ok q \<Longrightarrow> bq_size (snd (bq_push x q)) + bq_dropped (snd (bq_push x q)) = bq_size q + bq_dropped q + 1 \<and>
     (bq_limit q = bq_unbounded \<or> bq_size (snd (bq_push x q)) \<le> bq_limit (snd (bq_push x q)))"
  by (cases "bq_qu q") (auto simp: bq_push_def bq_ok_def bq_unbounded_def bq_size_def bq_dropped_def bq_limit_def)

end
