(* ===== verification/Winnet.thy ===== *)
theory Winnet
  imports Fakeip_Range Ipc_Schema
begin

unbundle bit_operations_syntax

text \<open>
  src/injectee/winnet.hpp: between a caller's sockaddr (its bytes) and the \<open>IpAddr\<close> message.
  \<open>std::optional::value\<close> on an unset field throws; \<open>std::copy\<close> into the sixteen octets with a
  longer vector overruns them. Both are values of \<open>winnet_error\<close>.
\<close>

datatype winnet_error = bad_optional_access | array_overrun

text \<open>\<open>ntohl\<close> of the address octets and \<open>htonl\<close> back.\<close>

definition ntohl_octets :: "octets \<Rightarrow> u32" where
  "ntohl_octets v4 = (case v4 of (a, b, c, d) \<Rightarrow>
     push_bit 24 (ucast a) OR push_bit 16 (ucast b) OR push_bit 8 (ucast c) OR ucast d)"

definition htonl_octets :: "u32 \<Rightarrow> octets" where
  "htonl_octets u = (ucast (drop_bit 24 u), ucast (drop_bit 16 u), ucast (drop_bit 8 u), ucast u)"

definition sin_addr :: "u8 list \<Rightarrow> octets" where
  "sin_addr name = (name ! 4, name ! 5, name ! 6, name ! 7)"

definition sin6_addr :: "u8 list \<Rightarrow> u8 list" where
  "sin6_addr name = take 16 (drop 8 name)"

definition to_ip_addr :: "u8 list \<Rightarrow> IpAddr option" where
  "to_ip_addr name =
     (if sa_family name = AF_INET then
        Some \<lparr>ia_v4_addr = Some (ntohl_octets (sin_addr name)), ia_v6_addr = None, ia_domain = None,
          ia_port = Some (ucast (sockaddr_port name))\<rparr>
      else if sa_family name = AF_INET6 then
        Some \<lparr>ia_v4_addr = None, ia_v6_addr = Some (rev (sin6_addr name)), ia_domain = None,
          ia_port = Some (ucast (sockaddr_port name))\<rparr>
      else None)"

text \<open>\<open>stack\<close> is what the uninitialised array \<open>arr\<close> holds.\<close>

definition to_sockaddr :: "u8 list \<Rightarrow> IpAddr \<Rightarrow> winnet_error + u8 list" where
  "to_sockaddr stack addr =
     (case ia_v4_addr addr of
        Some v \<Rightarrow>
          (case ia_port addr of
             None \<Rightarrow> Inl bad_optional_access
           | Some port \<Rightarrow> Inr (sockaddr_in_bytes (htonl_octets v) (ucast port)))
      | None \<Rightarrow>
          (case ia_v6_addr addr of
             None \<Rightarrow> Inl bad_optional_access
           | Some v6 \<Rightarrow>
               if length v6 > 16 then Inl array_overrun
               else let arr = rev (v6 @ drop (length v6) (rev stack)) in
                 (case ia_port addr of
                    None \<Rightarrow> Inl bad_optional_access
                  | Some port \<Rightarrow> Inr (sockaddr_in6_bytes arr (ucast port)))))"

definition is_localhost :: "u8 list \<Rightarrow> bool" where
  "is_localhost name =
     (if sa_family name = AF_INET then name ! 4 = 0x7f
      else if sa_family name = AF_INET6 then
        list_all (\<lambda>k. sin6_addr name ! (2 * k) = 0 \<and> sin6_addr name ! (2 * k + 1) = 0) [0..<7] \<and>
        sin6_addr name ! 14 = 0 \<and> sin6_addr name ! 15 = 1
      else False)"

definition is_inet :: "u8 list \<Rightarrow> bool" where
  "is_inet name \<longleftrightarrow> sa_family name = AF_INET \<or> sa_family name = AF_INET6"

definition sockequal :: "u8 list \<Rightarrow> u8 list \<Rightarrow> bool" where
  "sockequal l r =
     (if sa_family l = sa_family r then
        if sa_family l = AF_INET then
          sin_addr l = sin_addr r \<and> (l ! 2, l ! 3) = (r ! 2, r ! 3)
        else if sa_family l = AF_INET6 then
          (l ! 2, l ! 3) = (r ! 2, r ! 3) \<and> sin6_addr l = sin6_addr r
        else False
      else False)"

section \<open>Lemmas\<close>

lemma octets_as_fake_ip: "ntohl_octets = fake_ip_to_u32" "htonl_octets = fake_ip_from_u32"
proof -
  have m: "ucast (u AND 0xFF) = (ucast u :: u8)" for u :: u32
    unfolding mask8_u32 by (auto intro!: bit_word_eqI simp: bit_simps dest: bit_imp_le_length)
  show "ntohl_octets = fake_ip_to_u32" by (simp add: fun_eq_iff ntohl_octets_def fake_ip_to_u32_def)
  show "htonl_octets = fake_ip_from_u32" by (simp add: fun_eq_iff htonl_octets_def fake_ip_from_u32_def m)
qed

lemma octets_inverse [simp]: "htonl_octets (ntohl_octets v4) = v4" "ntohl_octets (htonl_octets u) = u"
  by (simp_all add: octets_as_fake_ip)

lemma port_u32 [simp]: "(ucast (ucast (p :: u16) :: u32) :: u16) = p"
  by (auto intro!: bit_word_eqI simp: bit_simps dest: bit_imp_le_length)

lemma sockaddr_fields [simp]:
  "sa_family (sockaddr_in_bytes v4 port) = AF_INET" "sa_family (sockaddr_in6_bytes v6 port) = AF_INET6"
  "sin_addr (sockaddr_in_bytes v4 port) = v4" "length v6 = 16 \<Longrightarrow> sin6_addr (sockaddr_in6_bytes v6 port) = v6"
  by (simp_all add: sockaddr_in_bytes_def sockaddr_in6_bytes_def sin_addr_def sin6_addr_def split: prod.split)

lemma port_bytes_eq:
  "ucast (drop_bit 8 p) = (ucast (drop_bit 8 q) :: u8) \<and> ucast p = (ucast q :: u8) \<longleftrightarrow> p = (q :: u16)"
  by (metis host_port_of_bytes)

lemma to_ip_addr_bytes:
  "to_ip_addr (sockaddr_in_bytes v4 port) = Some (from_asio (AddressV4 (ntohl_octets v4)) port)"
  "length v6 = 16 \<Longrightarrow> to_ip_addr (sockaddr_in6_bytes v6 port) = Some (from_asio (AddressV6 (rev v6)) port)"
  by (simp_all add: to_ip_addr_def from_asio_def)

lemma to_sockaddr_from_asio:
  "to_sockaddr stack (from_asio (AddressV4 u) port) = Inr (sockaddr_in_bytes (htonl_octets u) port)"
  "length v6 = 16 \<Longrightarrow> length stack = 16 \<Longrightarrow>
     to_sockaddr stack (from_asio (AddressV6 v6) port) = Inr (sockaddr_in6_bytes (rev v6) port)"
  by (simp_all add: to_sockaddr_def from_asio_def)

lemma is_inet_cases: "is_inet name \<longleftrightarrow> to_ip_addr name \<noteq> None"
  by (simp add: is_inet_def to_ip_addr_def)

text \<open>Two canonical addresses are equal for \<open>sockequal\<close> exactly when they are the same bytes.\<close>

lemma sockequal_bytes:
  "sockequal (sockaddr_in_bytes a p) (sockaddr_in_bytes b q) \<longleftrightarrow> a = b \<and> p = q"
  "length x = 16 \<Longrightarrow> length y = 16 \<Longrightarrow>
     sockequal (sockaddr_in6_bytes x p) (sockaddr_in6_bytes y q) \<longleftrightarrow> x = y \<and> p = q"
  "\<not> sockequal (sockaddr_in_bytes a p) (sockaddr_in6_bytes y q)"
proof -
  have b4: "sockaddr_in_bytes v r ! 2 = ucast (drop_bit 8 r)" "sockaddr_in_bytes v r ! 3 = ucast r" for v r
    by (simp_all add: sockaddr_in_bytes_def split: prod.split)
  have b6: "sockaddr_in6_bytes v r ! 2 = ucast (drop_bit 8 r)" "sockaddr_in6_bytes v r ! 3 = ucast r" for v r
    by (simp_all add: sockaddr_in6_bytes_def)
  show "sockequal (sockaddr_in_bytes a p) (sockaddr_in_bytes b q) \<longleftrightarrow> a = b \<and> p = q"
    using port_bytes_eq [of p q] by (auto simp: sockequal_def b4)
  show "sockequal (sockaddr_in6_bytes x p) (sockaddr_in6_bytes y q) \<longleftrightarrow> x = y \<and> p = q"
    if "length x = 16" "length y = 16"
    using port_bytes_eq [of p q] that by (auto simp: sockequal_def b6)
  show "\<not> sockequal (sockaddr_in_bytes a p) (sockaddr_in6_bytes y q)"
    by (simp add: sockequal_def AF_INET_def AF_INET6_def)
qed

section \<open>Properties\<close>

text \<open>A destination survives the trip through the message form in either family, whatever the
  stack held; an IPv6 address configured as a proxy (\<open>from_asio\<close>, octets in wire order) does
  not: it comes out byte-reversed, so it is dialled correctly only when it is a palindrome.\<close>

theorem sockaddr_roundtrip:
  assumes "length v6 = 16" and "length stack = 16"
  shows "map_option (to_sockaddr stack) (to_ip_addr (sockaddr_in_bytes v4 port)) = Some (Inr (sockaddr_in_bytes v4 port)) \<and>
    map_option (to_sockaddr stack) (to_ip_addr (sockaddr_in6_bytes v6 port)) = Some (Inr (sockaddr_in6_bytes v6 port)) \<and>
    to_sockaddr stack (from_asio (AddressV4 u) port) = Inr (sockaddr_in_bytes (htonl_octets u) port) \<and>
    (to_sockaddr stack (from_asio (AddressV6 v6) port) = Inr (sockaddr_in6_bytes v6 port) \<longleftrightarrow> rev v6 = v6)"
  using assms
  by (simp add: to_ip_addr_bytes to_sockaddr_from_asio) (simp add: sockaddr_in6_bytes_def)

lemma sockaddr_roundtrip_witness:
  "to_sockaddr (replicate 16 0) (from_asio (AddressV6 (replicate 15 0 @ [1])) 1080)
     \<noteq> Inr (sockaddr_in6_bytes (replicate 15 0 @ [1]) 1080)"
  using sockaddr_roundtrip [of "replicate 15 0 @ [1]" "replicate 16 0" "(0, 0, 0, 0)" 1080 0]
  by (simp add: numeral_eq_Suc)

end
