(* ===== verification/Client_Config.thy ===== *)
theory Client_Config
  imports Ipc_Schema Proxy_Endpoint
begin

text \<open>
  \<open>injectee_route\<close> and \<open>injectee_config\<close> of src/injectee/client.hpp: what the connect hooks route
  by. The mutex makes each of \<open>set\<close>, \<open>get\<close> and \<open>drop\<close> atomic, so a concurrent run is a sequence
  of them. The two credential arrays are kept as what they hold, octet for octet.
\<close>

section \<open>Routes\<close>

definition credential_max :: nat where
  "credential_max = proxy_credential_max_length"

definition NUL :: char where
  "NUL = CHR 0x00"

record injectee_route =
  ro_proxy :: "IpAddr option"
  ro_log :: bool
  ro_subprocess :: bool
  ro_username :: string
  ro_password :: string
  ro_username_size :: nat
  ro_password_size :: nat

definition injectee_route_init :: injectee_route where
  "injectee_route_init = \<lparr>ro_proxy = None, ro_log = False, ro_subprocess = False,
     ro_username = replicate (credential_max + 1) NUL, ro_password = replicate (credential_max + 1) NUL,
     ro_username_size = 0, ro_password_size = 0\<rparr>"

definition route_username :: "injectee_route \<Rightarrow> string" where
  "route_username r = take (ro_username_size r) (ro_username r)"

definition route_password :: "injectee_route \<Rightarrow> string" where
  "route_password r = take (ro_password_size r) (ro_password r)"

text \<open>\<open>memcpy(dst, src, n)\<close> and \<open>SecureZeroMemory\<close> on an array.\<close>

definition memcpy_chars :: "string \<Rightarrow> string \<Rightarrow> nat \<Rightarrow> string" where
  "memcpy_chars dst src n = take n src @ drop n dst"

definition zeroed :: "string \<Rightarrow> string" where
  "zeroed arr = replicate (length arr) NUL"

text \<open>The move constructor: the new route, and what is left of the source. A moved-from
  \<open>optional\<close> keeps its state; its value is unspecified (\<open>moved\<close>).\<close>

definition route_move :: "(IpAddr \<Rightarrow> IpAddr) \<Rightarrow> injectee_route \<Rightarrow> injectee_route \<times> injectee_route" where
  "route_move moved other =
     (injectee_route_init\<lparr>ro_proxy := ro_proxy other, ro_log := ro_log other,
        ro_subprocess := ro_subprocess other,
        ro_username := memcpy_chars (ro_username injectee_route_init) (ro_username other) (ro_username_size other),
        ro_password := memcpy_chars (ro_password injectee_route_init) (ro_password other) (ro_password_size other),
        ro_username_size := ro_username_size other, ro_password_size := ro_password_size other\<rparr>,
      other\<lparr>ro_proxy := map_option moved (ro_proxy other),
        ro_username := zeroed (ro_username other), ro_password := zeroed (ro_password other),
        ro_username_size := 0, ro_password_size := 0\<rparr>)"

text \<open>The destructor: the arrays are zero when it is done.\<close>

definition route_destroy :: "injectee_route \<Rightarrow> injectee_route" where
  "route_destroy r = r\<lparr>ro_username := zeroed (ro_username r), ro_password := zeroed (ro_password r)\<rparr>"

section \<open>The configuration\<close>

record injectee_config =
  ij_cfg :: InjectorConfig
  ij_pinned :: InjectorConfig
  ij_live :: bool

definition injector_config_init :: InjectorConfig where
  "injector_config_init = \<lparr>cf_addr = None, cf_log = None, cf_subprocess = None, cf_username = None, cf_password = None\<rparr>"

definition injectee_config_init :: injectee_config where
  "injectee_config_init = \<lparr>ij_cfg = injector_config_init, ij_pinned = injector_config_init, ij_live = False\<rparr>"

definition config_set :: "InjectorConfig \<Rightarrow> injectee_config \<Rightarrow> injectee_config" where
  "config_set config c = c\<lparr>ij_cfg := config, ij_pinned := config, ij_live := True\<rparr>"

definition config_drop :: "injectee_config \<Rightarrow> injectee_config" where
  "config_drop c = c\<lparr>ij_live := False\<rparr>"

text \<open>\<open>copy_credential\<close>: the array and the size after it.\<close>

definition copy_credential :: "string \<Rightarrow> nat \<Rightarrow> string option \<Rightarrow> string \<times> nat" where
  "copy_credential dst sz value =
     (case value of
        None \<Rightarrow> (dst, sz)
      | Some text \<Rightarrow>
          let n = min (length text) (length dst - 1) in (memcpy_chars dst text n, n))"

definition config_get :: "injectee_config \<Rightarrow> injectee_route" where
  "config_get c =
     (let src = (if ij_live c then ij_cfg c else ij_pinned c);
          route = injectee_route_init;
          (user, user_size) = copy_credential (ro_username route) (ro_username_size route) (cf_username src);
          (pass, pass_size) = copy_credential (ro_password route) (ro_password_size route) (cf_password src)
      in route\<lparr>ro_proxy := cf_addr src,
           ro_log := (case cf_log src of None \<Rightarrow> False | Some b \<Rightarrow> b),
           ro_subprocess := (case cf_subprocess src of None \<Rightarrow> False | Some b \<Rightarrow> b),
           ro_username := user, ro_username_size := user_size,
           ro_password := pass, ro_password_size := pass_size\<rparr>)"

section \<open>Runs\<close>

datatype config_op = SetConfig InjectorConfig | DropConfig

fun config_step :: "config_op \<Rightarrow> injectee_config \<Rightarrow> injectee_config" where
  "config_step (SetConfig f) c = config_set f c"
| "config_step DropConfig c = config_drop c"

definition config_run :: "config_op list \<Rightarrow> injectee_config" where
  "config_run ops = fold config_step ops injectee_config_init"

text \<open>The last configuration pushed, whatever was dropped since.\<close>

fun last_config :: "config_op list \<Rightarrow> InjectorConfig \<Rightarrow> InjectorConfig" where
  "last_config [] f = f"
| "last_config (SetConfig g # ops) f = last_config ops g"
| "last_config (DropConfig # ops) f = last_config ops f"

definition credential_text :: "string option \<Rightarrow> string" where
  "credential_text v = take credential_max (case v of None \<Rightarrow> [] | Some t \<Rightarrow> t)"

definition config_ok :: "injectee_config \<Rightarrow> bool" where
  "config_ok c \<longleftrightarrow> (ij_live c \<longrightarrow> ij_cfg c = ij_pinned c)"

lemma config_step_pin:
  "config_ok c \<Longrightarrow> config_ok (config_step op c) \<and> ij_pinned (config_step op c) = last_config [op] (ij_pinned c)"
  by (cases op) (simp_all add: config_ok_def config_set_def config_drop_def)

lemma last_config_Cons: "last_config (op # ops) f = last_config ops (last_config [op] f)"
  by (cases op) simp_all

lemma config_run_pin:
  "config_ok c \<Longrightarrow> config_ok (fold config_step ops c) \<and> ij_pinned (fold config_step ops c) = last_config ops (ij_pinned c)"
proof (induction ops arbitrary: c)
  case (Cons op ops)
  from config_step_pin [OF Cons.prems, of op] Cons.IH [of "config_step op c"] show ?case
    by (simp add: last_config_Cons [of op ops])
qed simp

interpretation config_steps: invariant_steps config_step config_ok injectee_config_init
  by unfold_locales (simp_all add: config_step_pin, simp add: config_ok_def injectee_config_init_def)

lemma config_ok_src: "config_ok c \<Longrightarrow> (if ij_live c then ij_cfg c else ij_pinned c) = ij_pinned c"
  by (simp add: config_ok_def)

lemma copied_credential:
  assumes "length dst = credential_max + 1"
  shows "take (snd (copy_credential dst 0 v)) (fst (copy_credential dst 0 v)) = credential_text v \<and>
    snd (copy_credential dst 0 v) \<le> credential_max \<and> length (fst (copy_credential dst 0 v)) = credential_max + 1"
  using assms
  by (cases v) (auto simp: copy_credential_def memcpy_chars_def credential_text_def Let_def min_def)

lemma config_get_route:
  assumes "config_ok c"
  defines "src \<equiv> ij_pinned c"
  shows "ro_proxy (config_get c) = cf_addr src \<and> ro_log (config_get c) = (cf_log src = Some True) \<and>
    ro_subprocess (config_get c) = (cf_subprocess src = Some True) \<and>
    route_username (config_get c) = credential_text (cf_username src) \<and>
    route_password (config_get c) = credential_text (cf_password src)"
proof -
  have len: "length (ro_username injectee_route_init) = credential_max + 1"
    "length (ro_password injectee_route_init) = credential_max + 1"
    "ro_username_size injectee_route_init = 0" "ro_password_size injectee_route_init = 0"
    by (simp_all add: injectee_route_init_def)
  show ?thesis
    unfolding config_get_def config_ok_src [OF assms(1)] src_def Let_def case_prod_beta
    using copied_credential [OF len(1)] copied_credential [OF len(2)]
    by (simp add: route_username_def route_password_def len(3,4) split: option.split)
qed

section \<open>Properties\<close>

text \<open>C10: Routing fails closed: after any sequence of configurations arriving and sessions dropping,
  the hooks route by the last configuration that ever arrived; losing the session changes
  neither the proxy nor the login, and the login is the configured one up to 255 octets.\<close>

theorem routing_stays_pinned:
  "ro_proxy (config_get (config_run ops)) = cf_addr (last_config ops injector_config_init) \<and>
   route_username (config_get (config_run ops)) = credential_text (cf_username (last_config ops injector_config_init)) \<and>
   route_password (config_get (config_run ops)) = credential_text (cf_password (last_config ops injector_config_init)) \<and>
   config_get (config_run (ops @ [DropConfig])) = config_get (config_run ops)"
proof -
  have init: "config_ok injectee_config_init" "ij_pinned injectee_config_init = injector_config_init"
    by (simp_all add: config_ok_def injectee_config_init_def)
  have ok: "config_ok (config_run ops)" unfolding config_run_def by (rule config_steps.always_inv)
  have pin: "ij_pinned (config_run ops) = last_config ops injector_config_init"
    using config_run_pin [OF init(1), of ops] init(2) by (simp add: config_run_def)
  have "config_get (config_drop (config_run ops)) = config_get (config_run ops)"
    using ok by (simp add: config_get_def config_drop_def config_ok_src config_ok_def)
  then show ?thesis
    using config_get_route [OF ok] pin by (simp add: config_run_def)
qed

text \<open>A moved route shows the same login, and nothing of it stays in the source; a destroyed route
  holds zeros only.\<close>

theorem route_wiped:
  assumes "length (ro_username r) = credential_max + 1" "length (ro_password r) = credential_max + 1"
    and "ro_username_size r \<le> credential_max" "ro_password_size r \<le> credential_max"
  shows "route_username (fst (route_move moved r)) = route_username r \<and>
    route_password (fst (route_move moved r)) = route_password r \<and>
    set (ro_username (snd (route_move moved r)) @ ro_password (snd (route_move moved r))) = {NUL} \<and>
    set (ro_username (route_destroy r) @ ro_password (route_destroy r)) = {NUL}"
  using assms
  by (simp add: route_move_def route_destroy_def route_username_def route_password_def memcpy_chars_def zeroed_def
      injectee_route_init_def set_replicate_conv_if)

lemma route_wiped_witness:
  "route_password (fst (route_move id (config_get (config_set
     (injector_config_init\<lparr>cf_username := Some ''bob'', cf_password := Some ''pw''\<rparr>) injectee_config_init)))) = ''pw''"
proof -
  let ?c = "config_set (injector_config_init\<lparr>cf_username := Some ''bob'', cf_password := Some ''pw''\<rparr>) injectee_config_init"
  have g: "config_get ?c = injectee_route_init\<lparr>ro_username := ''bob'' @ drop 3 (ro_username injectee_route_init),
      ro_username_size := 3, ro_password := ''pw'' @ drop 2 (ro_password injectee_route_init), ro_password_size := 2\<rparr>"
    by (simp add: config_get_def config_set_def injector_config_init_def copy_credential_def memcpy_chars_def
        injectee_route_init_def credential_max_def proxy_credential_max_length_def)
  have "length (ro_username (config_get ?c)) = credential_max + 1" "length (ro_password (config_get ?c)) = credential_max + 1"
    "ro_username_size (config_get ?c) \<le> credential_max" "ro_password_size (config_get ?c) \<le> credential_max"
    by (simp_all add: g injectee_route_init_def credential_max_def proxy_credential_max_length_def)
  from route_wiped [OF this] show ?thesis by (simp add: g route_password_def)
qed

end
