(* ===== verification/Client_Session.thy ===== *)
theory Client_Session
  imports Client_Config Report_Queue
begin

text \<open>
  \<open>injectee_client\<close> of src/injectee/client.hpp: the session with the injector and its
  reconnect schedule. One thread runs the io_context, so the client advances handler by
  handler; what completes when, and with which result, is the environment's choice. Times are
  milliseconds of the steady clock.
\<close>

definition kBackoffStart :: nat where
  "kBackoffStart = 1000"

definition kBackoffCap :: nat where
  "kBackoffCap = 10000"

definition kReconnectBudget :: nat where
  "kReconnectBudget = 60000"

lemmas client_consts = kBackoffStart_def kBackoffCap_def kReconnectBudget_def

text \<open>The timer: no wait pending (\<open>expires_at\<close> the end of time), or a wait until a time.\<close>

datatype session_timer = Parked | Armed nat

record injectee_client =
  ec_open :: bool
  ec_readers :: nat
  ec_writers :: nat
  ec_attempting :: bool
  ec_timer :: session_timer
  ec_backoff :: nat
  ec_deadline :: nat
  ec_reconnecting :: bool
  ec_now :: nat
  ec_queue :: "InjecteeMessage blocking_queue"
  ec_config :: injectee_config
  ec_token :: "u8 list"

definition injectee_client_new ::
  "InjecteeMessage blocking_queue \<Rightarrow> injectee_config \<Rightarrow> u8 list \<Rightarrow> nat \<Rightarrow> injectee_client" where
  "injectee_client_new queue config token now = \<lparr>ec_open = False, ec_readers = 0, ec_writers = 0,
     ec_attempting = False, ec_timer = Parked, ec_backoff = kBackoffStart, ec_deadline = 0,
     ec_reconnecting = False, ec_now = now, ec_queue = queue, ec_config = config, ec_token = token\<rparr>"

text \<open>\<open>open_session\<close> that succeeds, and the introduction it has sent.\<close>

definition session_hello :: "u32 \<Rightarrow> injectee_client \<Rightarrow> InjecteeMessage" where
  "session_hello pid c = (create_message_pid pid)\<lparr>im_token := Some (ec_token c)\<rparr>"

definition open_session :: "u32 \<Rightarrow> injectee_client \<Rightarrow> InjecteeMessage \<times> injectee_client" where
  "open_session pid c = (session_hello pid c, c\<lparr>ec_open := True\<rparr>)"

definition close_socket :: "injectee_client \<Rightarrow> injectee_client" where
  "close_socket c = c\<lparr>ec_open := False\<rparr>"

definition session_stop :: "injectee_client \<Rightarrow> injectee_client" where
  "session_stop c = close_socket (c\<lparr>ec_queue := bq_cancel (ec_queue c), ec_config := config_drop (ec_config c)\<rparr>)"

definition arm :: "nat \<Rightarrow> injectee_client \<Rightarrow> injectee_client" where
  "arm delay c = c\<lparr>ec_timer := Armed (ec_now c + delay)\<rparr>"

definition begin_reconnect :: "injectee_client \<Rightarrow> injectee_client" where
  "begin_reconnect c =
     (if ec_reconnecting c then c
      else arm kBackoffStart (c\<lparr>ec_reconnecting := True, ec_backoff := kBackoffStart,
             ec_deadline := ec_now c + kReconnectBudget\<rparr>))"

definition give_up :: "injectee_client \<Rightarrow> injectee_client" where
  "give_up c = c\<lparr>ec_timer := Parked\<rparr>"

definition spawn_both :: "injectee_client \<Rightarrow> injectee_client" where
  "spawn_both c = c\<lparr>ec_readers := ec_readers c + 1, ec_writers := ec_writers c + 1\<rparr>"

section \<open>Handlers\<close>

definition session_start :: "u32 \<Rightarrow> bool \<Rightarrow> injectee_client \<Rightarrow> injectee_client" where
  "session_start pid ok c =
     (if ok then spawn_both (snd (open_session pid c)) else begin_reconnect (session_stop c))"

definition reader_fails :: "injectee_client \<Rightarrow> injectee_client" where
  "reader_fails c = begin_reconnect (session_stop (c\<lparr>ec_readers := ec_readers c - 1\<rparr>))"

definition writer_fails :: "injectee_client \<Rightarrow> injectee_client" where
  "writer_fails c = begin_reconnect (session_stop (c\<lparr>ec_writers := ec_writers c - 1\<rparr>))"

definition process_message :: "InjectorMessage \<Rightarrow> injectee_client \<Rightarrow> injectee_client" where
  "process_message msg c =
     (case compare_message_config msg of
        None \<Rightarrow> c
      | Some v \<Rightarrow> c\<lparr>ec_config := config_set v (ec_config c)\<rparr>)"

text \<open>The timer's handler without an error: \<open>attempt\<close> is under way.\<close>

definition timer_fires :: "injectee_client \<Rightarrow> injectee_client" where
  "timer_fires c = c\<lparr>ec_timer := Parked, ec_attempting := True\<rparr>"

definition attempt_fails :: "injectee_client \<Rightarrow> injectee_client" where
  "attempt_fails c =
     (let c1 = close_socket (c\<lparr>ec_attempting := False\<rparr>) in
      if ec_now c1 \<ge> ec_deadline c1 then give_up c1
      else let c2 = c1\<lparr>ec_backoff := min (ec_backoff c1 * 2) kBackoffCap\<rparr> in arm (ec_backoff c2) c2)"

definition attempt_succeeds :: "u32 \<Rightarrow> injectee_client \<Rightarrow> injectee_client" where
  "attempt_succeeds pid c =
     spawn_both ((snd (open_session pid (c\<lparr>ec_attempting := False\<rparr>)))
       \<lparr>ec_reconnecting := False, ec_backoff := kBackoffStart\<rparr>)"

section \<open>Steps\<close>

inductive client_step :: "injectee_client \<Rightarrow> injectee_client \<Rightarrow> bool" where
  time_passes: "client_step c (c\<lparr>ec_now := ec_now c + d\<rparr>)"
| reader_lost: "ec_readers c > 0 \<Longrightarrow> client_step c (reader_fails c)"
| writer_lost: "ec_writers c > 0 \<Longrightarrow> client_step c (writer_fails c)"
| message_read: "ec_readers c > 0 \<Longrightarrow> client_step c (process_message msg c)"
| hook_reports: "client_step c (c\<lparr>ec_queue := snd (bq_push m (ec_queue c))\<rparr>)"
| report_taken: "ec_writers c > 0 \<Longrightarrow> client_step c (c\<lparr>ec_queue := snd (bq_take (ec_queue c))\<rparr>)"
| timer_due: "ec_timer c = Armed t \<Longrightarrow> t \<le> ec_now c \<Longrightarrow> client_step c (timer_fires c)"
| attempt_failed: "ec_attempting c \<Longrightarrow> client_step c (attempt_fails c)"
| attempt_done: "ec_attempting c \<Longrightarrow> client_step c (attempt_succeeds pid c)"

inductive_cases client_stepE: "client_step c c'"

inductive client_reach :: "injectee_client \<Rightarrow> injectee_client \<Rightarrow> bool" where
  started: "client_reach c0 (session_start pid ok c0)"
| stepped: "client_reach c0 c \<Longrightarrow> client_step c c' \<Longrightarrow> client_reach c0 c'"

section \<open>The schedule\<close>

text \<open>
  At most one of timer and attempt is under way, and only while reconnecting; a reconnecting
  client without either has used up its budget. The delays stay within the two constants.
\<close>

definition gave_up :: "injectee_client \<Rightarrow> bool" where
  "gave_up c \<longleftrightarrow> ec_reconnecting c \<and> ec_timer c = Parked \<and> \<not> ec_attempting c"

definition schedule_ok :: "injectee_client \<Rightarrow> bool" where
  "schedule_ok c \<longleftrightarrow>
     (ec_attempting c \<longrightarrow> ec_timer c = Parked) \<and>
     (\<not> ec_reconnecting c \<longrightarrow> ec_timer c = Parked \<and> \<not> ec_attempting c) \<and>
     (gave_up c \<longrightarrow> ec_deadline c \<le> ec_now c) \<and>
     (case ec_timer c of Parked \<Rightarrow> True | Armed t \<Rightarrow> t \<le> ec_now c + ec_backoff c \<and> t \<le> ec_deadline c + kBackoffCap) \<and>
     kBackoffStart \<le> ec_backoff c \<and> ec_backoff c \<le> kBackoffCap"

lemmas handler_defs = reader_fails_def writer_fails_def session_start_def process_message_def timer_fires_def
  attempt_fails_def attempt_succeeds_def begin_reconnect_def session_stop_def close_socket_def arm_def give_up_def
  spawn_both_def open_session_def

lemma schedule_start: "schedule_ok (session_start pid ok (injectee_client_new q f tok now))"
  by (simp add: schedule_ok_def handler_defs injectee_client_new_def gave_up_def client_consts)

lemma schedule_begin: "schedule_ok c \<Longrightarrow> schedule_ok (begin_reconnect (session_stop c))"
  by (auto simp: schedule_ok_def handler_defs gave_up_def client_consts split: session_timer.splits)

lemma schedule_irrelevant:
  "schedule_ok (c\<lparr>ec_readers := n\<rparr>) = schedule_ok c" "schedule_ok (c\<lparr>ec_writers := n\<rparr>) = schedule_ok c"
  "schedule_ok (c\<lparr>ec_queue := q\<rparr>) = schedule_ok c" "schedule_ok (c\<lparr>ec_config := f\<rparr>) = schedule_ok c"
  by (simp_all add: schedule_ok_def gave_up_def split: session_timer.split)

lemma schedule_step: "client_step c c' \<Longrightarrow> schedule_ok c \<Longrightarrow> schedule_ok c'"
proof (induction rule: client_step.induct)
  case (time_passes c d)
  then show ?case by (auto simp: schedule_ok_def gave_up_def split: session_timer.splits)
next
  case (reader_lost c)
  then show ?case by (simp add: reader_fails_def schedule_begin schedule_irrelevant)
next
  case (writer_lost c)
  then show ?case by (simp add: writer_fails_def schedule_begin schedule_irrelevant)
next
  case (message_read c msg)
  then show ?case by (simp add: process_message_def schedule_irrelevant split: option.split)
next
  case (timer_due c t)
  then show ?case by (auto simp: schedule_ok_def timer_fires_def gave_up_def)
next
  case (attempt_failed c)
  then show ?case
    by (auto simp: schedule_ok_def handler_defs gave_up_def Let_def client_consts min_def)
next
  case (attempt_done c pid)
  then show ?case by (auto simp: schedule_ok_def handler_defs gave_up_def client_consts)
qed (simp_all add: schedule_irrelevant)

lemma schedule_reach:
  "client_reach c0 c \<Longrightarrow> c0 = injectee_client_new q f tok now \<Longrightarrow> schedule_ok c"
  by (induction rule: client_reach.induct) (auto intro: schedule_start schedule_step)

section \<open>Reconnecting against a dead injector\<close>

text \<open>
  The timer expires, \<open>attempt\<close> runs and fails; \<open>e\<close> is how long expiry and attempt took beyond the
  delay.
\<close>

definition failed_round :: "nat \<Rightarrow> injectee_client \<Rightarrow> injectee_client" where
  "failed_round e c =
     (case ec_timer c of
        Parked \<Rightarrow> c
      | Armed t \<Rightarrow> attempt_fails (timer_fires (c\<lparr>ec_now := max (ec_now c) t + e\<rparr>)))"

lemma failed_round_steps: "client_step\<^sup>*\<^sup>* c (failed_round e c)"
proof (cases "ec_timer c")
  case (Armed t)
  define d where "d = max (ec_now c) t + e - ec_now c"
  define c1 where "c1 = c\<lparr>ec_now := ec_now c + d\<rparr>"
  have c1: "c1 = c\<lparr>ec_now := max (ec_now c) t + e\<rparr>" by (simp add: c1_def d_def)
  have "client_step c c1" unfolding c1_def by (rule time_passes)
  moreover have "client_step c1 (timer_fires c1)"
    using Armed by (intro timer_due [of _ t]) (simp_all add: c1)
  moreover have "client_step (timer_fires c1) (attempt_fails (timer_fires c1))"
    by (intro attempt_failed) (simp add: timer_fires_def)
  ultimately show ?thesis using Armed by (simp add: failed_round_def c1)
qed (simp add: failed_round_def)

fun delay_of :: "nat \<Rightarrow> nat" where
  "delay_of 0 = kBackoffStart"
| "delay_of (Suc k) = min (delay_of k * 2) kBackoffCap"

fun waited :: "nat \<Rightarrow> nat" where
  "waited 0 = 0"
| "waited (Suc k) = waited k + delay_of k"

definition waiting :: "nat \<Rightarrow> nat \<Rightarrow> injectee_client \<Rightarrow> bool" where
  "waiting start k c \<longleftrightarrow> ec_reconnecting c \<and> \<not> ec_attempting c \<and> ec_deadline c = start + kReconnectBudget \<and>
     (case ec_timer c of
        Parked \<Rightarrow> ec_deadline c \<le> ec_now c
      | Armed t \<Rightarrow> t = ec_now c + ec_backoff c \<and> ec_backoff c = delay_of k \<and>
          start + waited k \<le> ec_now c \<and> ec_now c < ec_deadline c)"

lemma waiting_begin:
  "\<not> ec_reconnecting c \<Longrightarrow> \<not> ec_attempting c \<Longrightarrow> waiting (ec_now c) 0 (begin_reconnect c)"
  by (simp add: waiting_def begin_reconnect_def arm_def client_consts)

lemma waiting_round: "waiting start k c \<Longrightarrow> waiting start (Suc k) (failed_round e c)"
  by (cases "ec_timer c")
    (simp_all add: waiting_def failed_round_def timer_fires_def attempt_fails_def close_socket_def
      give_up_def arm_def Let_def)

lemma waiting_rounds: "waiting start k c \<Longrightarrow> waiting start (k + length es) (fold failed_round es c)"
proof (induction es arbitrary: k c)
  case (Cons e es)
  from Cons.IH [OF waiting_round [OF Cons.prems]] show ?case by simp
qed simp

lemma waited_mono: "j \<le> k \<Longrightarrow> waited j \<le> waited k"
  by (induction k) (auto simp: le_Suc_eq)

lemma waited_nine: "waited 9 = 65000"
proof -
  have "(9 :: nat) = Suc (Suc (Suc (Suc (Suc (Suc (Suc (Suc (Suc 0))))))))" by simp
  then show ?thesis by (simp only: waited.simps delay_of.simps client_consts) simp
qed

lemma failed_round_keeps:
  "ec_config (failed_round e c) = ec_config c" "ec_queue (failed_round e c) = ec_queue c"
  by (simp_all add: failed_round_def handler_defs Let_def split: session_timer.split)

section \<open>What the handlers do to the configuration\<close>

lemma handler_config [simp]:
  "ec_config (begin_reconnect c) = ec_config c" "ec_config (session_stop c) = config_drop (ec_config c)"
  "ec_config (timer_fires c) = ec_config c" "ec_config (attempt_fails c) = ec_config c"
  "ec_config (attempt_succeeds pid c) = ec_config c"
  by (simp_all add: handler_defs Let_def)

lemma step_config:
  assumes "client_step c c'"
  shows "ec_config c' = ec_config c \<or> ec_config c' = config_drop (ec_config c) \<or>
    (\<exists>v msg. compare_message_config msg = Some v \<and> c' = process_message msg c \<and>
       ec_config c' = config_set v (ec_config c))"
  using assms
proof (cases rule: client_step.cases)
  case (message_read msg)
  show ?thesis
  proof (cases "compare_message_config msg")
    case None
    with message_read show ?thesis by (simp add: process_message_def)
  next
    case (Some v)
    then have "ec_config c' = config_set v (ec_config c)"
      using message_read by (simp add: process_message_def)
    with Some message_read(1) show ?thesis by blast
  qed
qed (auto simp: reader_fails_def writer_fails_def)

lemma config_ok_step: "client_step c c' \<Longrightarrow> config_ok (ec_config c) \<Longrightarrow> config_ok (ec_config c')"
  using step_config [of c c'] by (auto simp: config_ok_def config_drop_def config_set_def)

lemma config_ok_reach:
  "client_reach c0 c \<Longrightarrow> ec_config c0 = injectee_config_init \<Longrightarrow> config_ok (ec_config c)"
proof (induction rule: client_reach.induct)
  case (started c0 pid ok)
  then show ?case
    by (simp add: session_start_def spawn_both_def open_session_def config_ok_def injectee_config_init_def config_drop_def)
qed (blast intro: config_ok_step)

lemma config_get_drop: "config_ok f \<Longrightarrow> config_get (config_drop f) = config_get f"
  by (simp add: config_get_def config_drop_def config_ok_src config_ok_def)

section \<open>Properties\<close>

text \<open>C21: Reconnecting ends: against an injector that never answers, nine attempts at most use up the
  sixty second budget and the client gives up, never before the budget is spent; giving up
  leaves the routing configuration as it was.\<close>

theorem reconnect_gives_up:
  assumes "\<not> ec_reconnecting c" and "\<not> ec_attempting c" and "9 \<le> length es"
  shows "gave_up (fold failed_round es (begin_reconnect c)) \<and>
    ec_now c + kReconnectBudget \<le> ec_now (fold failed_round es (begin_reconnect c)) \<and>
    ec_config (fold failed_round es (begin_reconnect c)) = ec_config c"
proof -
  let ?c = "fold failed_round es (begin_reconnect c)"
  have w: "waiting (ec_now c) (length es) ?c"
    using waiting_rounds [OF waiting_begin [OF assms(1,2)], of es] by simp
  have "65000 \<le> waited (length es)" using waited_mono [OF assms(3)] waited_nine by simp
  with w have p: "ec_timer ?c = Parked"
    by (cases "ec_timer ?c") (simp_all add: waiting_def kReconnectBudget_def)
  have "ec_config (fold failed_round es d) = ec_config d" for d
    by (induction es arbitrary: d) (simp_all add: failed_round_keeps)
  then show ?thesis
    using w p by (simp add: waiting_def gave_up_def begin_reconnect_def arm_def)
qed

lemma reconnect_gives_up_witness:
  "gave_up (fold failed_round (replicate 9 5) (begin_reconnect
     (injectee_client_new (blocking_queue_new 1024) injectee_config_init [] 7)))"
  using reconnect_gives_up [of "injectee_client_new (blocking_queue_new 1024) injectee_config_init [] 7" "replicate 9 5"]
  by (simp add: injectee_client_new_def)

text \<open>There is one reconnect schedule: in every reachable state at most one of a pending timer and
  a running attempt exists, and neither while the session is up; the delay stays between one
  and ten seconds; a client that gave up has spent its budget, and stays given up.\<close>

theorem one_reconnect_schedule:
  assumes "client_reach (injectee_client_new q f tok now) c"
  shows "(ec_attempting c \<longrightarrow> ec_timer c = Parked) \<and>
    (\<not> ec_reconnecting c \<longrightarrow> ec_timer c = Parked \<and> \<not> ec_attempting c) \<and>
    kBackoffStart \<le> ec_backoff c \<and> ec_backoff c \<le> kBackoffCap \<and>
    (gave_up c \<longrightarrow> ec_deadline c \<le> ec_now c \<and> (\<forall>c'. client_step c c' \<longrightarrow> gave_up c'))"
proof -
  have "gave_up c \<Longrightarrow> client_step c c' \<Longrightarrow> gave_up c'" for c'
    by (erule client_stepE) (auto simp: gave_up_def handler_defs split: option.split)
  with schedule_reach [OF assms refl] show ?thesis by (auto simp: schedule_ok_def)
qed

lemma one_reconnect_schedule_witness:
  "ec_backoff (session_start 4 False (injectee_client_new (blocking_queue_new 2) injectee_config_init [] 0)) \<le> kBackoffCap"
  using one_reconnect_schedule [OF started [of "injectee_client_new (blocking_queue_new 2) injectee_config_init [] 0" 4 False]]
  by simp

text \<open>C22: Nothing but a configuration message changes how the hooks route: losing the session, a
  failed attempt, giving up and coming back all leave the last proxy and login in force.\<close>

theorem session_keeps_route:
  assumes "client_reach (injectee_client_new q injectee_config_init tok now) c" and "client_step c c'"
  shows "config_get (ec_config c') = config_get (ec_config c) \<or>
    (\<exists>v msg. compare_message_config msg = Some v \<and> c' = process_message msg c \<and>
       ec_config c' = config_set v (ec_config c))"
proof -
  have "config_ok (ec_config c)"
    using config_ok_reach [OF assms(1)] by (simp add: injectee_client_new_def)
  then show ?thesis using step_config [OF assms(2)] config_get_drop by metis
qed

lemma session_keeps_route_witness:
  "config_get (ec_config ((session_start 4 True (injectee_client_new (blocking_queue_new 2) injectee_config_init [] 0))
      \<lparr>ec_now := 0 + 5\<rparr>)) =
   config_get (ec_config (session_start 4 True (injectee_client_new (blocking_queue_new 2) injectee_config_init [] 0)))"
proof -
  let ?c = "session_start 4 True (injectee_client_new (blocking_queue_new 2) injectee_config_init [] 0)"
  have n: "ec_now ?c = 0" by (simp add: handler_defs injectee_client_new_def)
  have "client_step ?c (?c\<lparr>ec_now := 0 + 5\<rparr>)"
    using time_passes [of ?c 5] by (simp add: n)
  from session_keeps_route [OF started this] show ?thesis by simp
qed

end
