(* ===== verification/Services.thy ===== *)
theory Services
  imports Text_Utils Ipc_Schema Proxy_Endpoint
begin

text \<open>
  src/injectee/services.inc, and the name-to-port resolution of src/injectee/hook.hpp that
  reads it. The OS services database (\<open>getservbyname\<close>, host-order ports) and asio's address
  parser are parameters.
\<close>

text \<open>The rows in the order of the file; a \<open>std::map\<close> built from them keeps the first of two equal names.\<close>

definition well_known_rows :: "(string \<times> u16) list" where
  "well_known_rows = [
    (''echo'', 7), (''echo'', 7), (''discard'', 9), (''discard'', 9), (''systat'', 11), (''systat'', 11),
    (''daytime'', 13), (''daytime'', 13), (''qotd'', 17), (''qotd'', 17), (''chargen'', 19),
    (''chargen'', 19), (''ftp-data'', 20), (''ftp'', 21), (''ssh'', 22), (''telnet'', 23), (''smtp'', 25),
    (''time'', 37), (''time'', 37), (''rlp'', 39), (''nameserver'', 42), (''nameserver'', 42),
    (''nicname'', 43), (''domain'', 53), (''domain'', 53), (''bootps'', 67), (''bootpc'', 68),
    (''tftp'', 69), (''gopher'', 70), (''finger'', 79), (''http'', 80), (''hosts2-ns'', 81),
    (''hosts2-ns'', 81), (''kerberos'', 88), (''kerberos'', 88), (''hostname'', 101), (''iso-tsap'', 102),
    (''rtelnet'', 107), (''pop2'', 109), (''pop3'', 110), (''sunrpc'', 111), (''sunrpc'', 111),
    (''auth'', 113), (''uucp-path'', 117), (''sqlserv'', 118), (''nntp'', 119), (''ntp'', 123),
    (''epmap'', 135), (''epmap'', 135), (''netbios-ns'', 137), (''netbios-ns'', 137), (''netbios-dgm'', 138),
    (''netbios-ssn'', 139), (''imap'', 143), (''sql-net'', 150), (''sqlsrv'', 156), (''pcmail-srv'', 158),
    (''snmp'', 161), (''snmptrap'', 162), (''print-srv'', 170), (''bgp'', 179), (''irc'', 194),
    (''ipx'', 213), (''rtsps'', 322), (''rtsps'', 322), (''mftp'', 349), (''mftp'', 349), (''ldap'', 389),
    (''https'', 443), (''https'', 443), (''microsoft-ds'', 445), (''microsoft-ds'', 445), (''kpasswd'', 464),
    (''kpasswd'', 464), (''isakmp'', 500), (''crs'', 507), (''crs'', 507), (''exec'', 512), (''biff'', 512),
    (''login'', 513), (''who'', 513), (''cmd'', 514), (''syslog'', 514), (''printer'', 515), (''talk'', 517),
    (''ntalk'', 518), (''efs'', 520), (''router'', 520), (''ulp'', 522), (''ulp'', 522), (''timed'', 525),
    (''tempo'', 526), (''irc-serv'', 529), (''irc-serv'', 529), (''courier'', 530), (''conference'', 531),
    (''netnews'', 532), (''netwall'', 533), (''uucp'', 540), (''klogin'', 543), (''kshell'', 544),
    (''dhcpv6-client'', 546), (''dhcpv6-client'', 546), (''dhcpv6-server'', 547), (''dhcpv6-server'', 547),
    (''afpovertcp'', 548), (''afpovertcp'', 548), (''new-rwho'', 550), (''rtsp'', 554), (''rtsp'', 554),
    (''remotefs'', 556), (''rmonitor'', 560), (''monitor'', 561), (''nntps'', 563), (''nntps'', 563),
    (''whoami'', 565), (''whoami'', 565), (''ms-shuttle'', 568), (''ms-shuttle'', 568), (''ms-rome'', 569),
    (''ms-rome'', 569), (''http-rpc-epmap'', 593), (''http-rpc-epmap'', 593), (''hmmp-ind'', 612),
    (''hmmp-ind'', 612), (''hmmp-op'', 613), (''hmmp-op'', 613), (''ldaps'', 636), (''doom'', 666),
    (''doom'', 666), (''msexch-routing'', 691), (''msexch-routing'', 691), (''kerberos-adm'', 749),
    (''kerberos-adm'', 749), (''kerberos-iv'', 750), (''mdbs_daemon'', 800), (''mdbs_daemon'', 800),
    (''ftps-data'', 989), (''ftps'', 990), (''telnets'', 992), (''imaps'', 993), (''ircs'', 994),
    (''pop3s'', 995), (''pop3s'', 995)]"

definition registered_rows :: "(string \<times> u16) list" where
  "registered_rows = [
    (''kpop'', 1109), (''nfsd-status'', 1110),
    (''nfsd-keepalive'', 1110), (''nfa'', 1155), (''nfa'', 1155), (''activesync'', 1034), (''phone'', 1167),
    (''opsmgr'', 1270), (''opsmgr'', 1270), (''ms-sql-s'', 1433), (''ms-sql-s'', 1433), (''ms-sql-m'', 1434),
    (''ms-sql-m'', 1434), (''ms-sna-server'', 1477), (''ms-sna-server'', 1477), (''ms-sna-base'', 1478),
    (''ms-sna-base'', 1478), (''wins'', 1512), (''wins'', 1512), (''ingreslock'', 1524), (''stt'', 1607),
    (''stt'', 1607), (''l2tp'', 1701), (''pptconference'', 1711), (''pptconference'', 1711),
    (''pptp'', 1723), (''msiccp'', 1731), (''msiccp'', 1731), (''remote-winsock'', 1745),
    (''remote-winsock'', 1745), (''ms-streaming'', 1755), (''ms-streaming'', 1755), (''msmq'', 1801),
    (''msmq'', 1801), (''radius'', 1812), (''radacct'', 1813), (''msnp'', 1863), (''msnp'', 1863),
    (''ssdp'', 1900), (''ssdp'', 1900), (''close-combat'', 1944), (''close-combat'', 1944), (''nfsd'', 2049),
    (''knetd'', 2053), (''mzap'', 2106), (''mzap'', 2106), (''qwave'', 2177), (''qwave'', 2177),
    (''directplay'', 2234), (''directplay'', 2234), (''ms-olap3'', 2382), (''ms-olap3'', 2382),
    (''ms-olap4'', 2383), (''ms-olap4'', 2383), (''ms-olap1'', 2393), (''ms-olap1'', 2393),
    (''ms-olap2'', 2394), (''ms-olap2'', 2394), (''ms-theater'', 2460), (''ms-theater'', 2460),
    (''wlbs'', 2504), (''wlbs'', 2504), (''ms-v-worlds'', 2525), (''ms-v-worlds'', 2525),
    (''sms-rcinfo'', 2701), (''sms-rcinfo'', 2701), (''sms-xfer'', 2702), (''sms-xfer'', 2702),
    (''sms-chat'', 2703), (''sms-chat'', 2703), (''sms-remctrl'', 2704), (''sms-remctrl'', 2704),
    (''msolap-ptp2'', 2725), (''msolap-ptp2'', 2725), (''icslap'', 2869), (''icslap'', 2869),
    (''cifs'', 3020), (''cifs'', 3020), (''xbox'', 3074), (''xbox'', 3074), (''ms-dotnetster'', 3126),
    (''ms-dotnetster'', 3126), (''ms-rule-engine'', 3132), (''ms-rule-engine'', 3132), (''msft-gc'', 3268),
    (''msft-gc'', 3268), (''msft-gc-ssl'', 3269), (''msft-gc-ssl'', 3269), (''ms-cluster-net'', 3343),
    (''ms-cluster-net'', 3343), (''ms-wbt-server'', 3389), (''ms-wbt-server'', 3389), (''ms-la'', 3535),
    (''ms-la'', 3535), (''pnrp-port'', 3540), (''pnrp-port'', 3540), (''teredo'', 3544), (''teredo'', 3544),
    (''p2pgroup'', 3587), (''p2pgroup'', 3587), (''ws-discovery'', 3702), (''ws-discovery'', 3702),
    (''dvcprov-port'', 3776), (''dvcprov-port'', 3776), (''msfw-control'', 3847), (''msdts1'', 3882),
    (''sdp-portmapper'', 3935), (''sdp-portmapper'', 3935), (''net-device'', 4350), (''net-device'', 4350),
    (''ipsec-msft'', 4500), (''ipsec-msft'', 4500), (''llmnr'', 5355), (''llmnr'', 5355), (''wsd'', 5357),
    (''wsd'', 5358), (''rrac'', 5678), (''rrac'', 5678), (''dccm'', 5679), (''dccm'', 5679),
    (''ms-licensing'', 5720), (''ms-licensing'', 5720), (''directplay8'', 6073), (''directplay8'', 6073),
    (''ms-do'', 7680), (''ms-do'', 7680), (''man'', 9535), (''rasadv'', 9753), (''rasadv'', 9753),
    (''imip-channels'', 11320), (''imip-channels'', 11320), (''directplaysrvr'', 47624),
    (''directplaysrvr'', 47624)]"

definition service_rows :: "(string \<times> u16) list" where
  "service_rows = well_known_rows @ registered_rows"

definition service_map :: "string \<Rightarrow> u16 option" where
  "service_map = map_of service_rows"

text \<open>The decimal value of a digit string, in 32 bits.\<close>

fun service_number :: "string \<Rightarrow> u32 \<Rightarrow> u32" where
  "service_number [] port = port"
| "service_number (digit # ds) port = service_number ds (port * 10 + of_nat (digit_value digit))"

definition numeric_service :: "string \<Rightarrow> u16 option" where
  "numeric_service servicename =
     (if servicename \<noteq> [] \<and> length servicename \<le> proxy_port_max_length \<and> all_of_digit servicename then
        (let port = service_number servicename 0 in
         if port > 0 \<and> port \<le> 65535 then Some (ucast port) else None)
      else None)"

definition fold_service :: "string \<Rightarrow> string" where
  "fold_service servicename = map (\<lambda>c. if is_upper c then char_of ((of_char c :: nat) + 32) else c) servicename"

definition service_to_port :: "(string \<Rightarrow> u16 option) \<Rightarrow> string \<Rightarrow> u16 option" where
  "service_to_port getservbyname servicename =
     (case numeric_service servicename of
        Some port \<Rightarrow> Some port
      | None \<Rightarrow>
          (case service_map (fold_service servicename) of
             Some port \<Rightarrow> Some port
           | None \<Rightarrow>
               (case getservbyname servicename of
                  Some port \<Rightarrow> if port \<noteq> 0 then Some port else None
                | None \<Rightarrow> None)))"

definition ipaddr_from_name ::
  "(string \<Rightarrow> u16 option) \<Rightarrow> (string \<Rightarrow> ip_address option) \<Rightarrow> string \<Rightarrow> string \<Rightarrow> IpAddr option" where
  "ipaddr_from_name getservbyname make_address nodename servicename =
     (case service_to_port getservbyname servicename of
        None \<Rightarrow> None
      | Some port \<Rightarrow>
          (case make_address nodename of
             Some addr \<Rightarrow> Some (from_asio addr port)
           | None \<Rightarrow> Some \<lparr>ia_v4_addr = None, ia_v6_addr = None, ia_domain = Some nodename, ia_port = Some (ucast port)\<rparr>))"

section \<open>Properties\<close>

lemma port_digits_number: "list_all is_digit s \<Longrightarrow> port_digits p s = Some (service_number s p)"
  by (induction s arbitrary: p) simp_all

lemma port_digits_nondigit: "\<not> list_all is_digit s \<Longrightarrow> port_digits p s = None"
  by (induction s arbitrary: p) auto

lemma numeric_service_parse_port: "numeric_service s = parse_port s"
proof (cases "list_all is_digit s")
  case True
  then show ?thesis
    by (auto simp: numeric_service_def parse_port_def all_of_digit_def port_digits_number Let_def word_gt_0 not_less)
next
  case False
  then show ?thesis
    by (auto simp: numeric_service_def parse_port_def all_of_digit_def port_digits_nondigit)
qed

lemma service_rows_nonzero: "list_all (\<lambda>(name, port). port \<noteq> 0) service_rows"
  by (simp add: service_rows_def well_known_rows_def registered_rows_def)

lemma service_map_nonzero: "service_map s \<noteq> Some 0"
proof
  assume "service_map s = Some 0"
  then have "(s, 0) \<in> set service_rows" unfolding service_map_def by (rule map_of_SomeD)
  with service_rows_nonzero show False by (auto simp: list_all_iff)
qed

text \<open>Service names: the numeric form is read exactly as the port of a proxy URL is, port 0 is
  never the answer, and a service is unknown only when it is neither a port number, nor in the
  compiled-in table in any capitalisation, nor in the services database.\<close>

theorem service_resolution:
  "numeric_service s = parse_port s \<and> service_to_port getservbyname s \<noteq> Some 0 \<and>
   (service_to_port getservbyname s = None \<longleftrightarrow>
      parse_port s = None \<and> service_map (fold_service s) = None \<and>
      (getservbyname s = None \<or> getservbyname s = Some 0))"
  using parse_port_nonzero [of s] service_map_nonzero [of "fold_service s"]
  by (auto simp: service_to_port_def numeric_service_parse_port split: option.splits if_splits)

end
