(* ===== verification/Hook_Env.thy ===== *)
theory Hook_Env
  imports Client_Config Report_Queue Socks5_Session Winnet
begin

text \<open>
  The parts of src/injectee/hook.hpp that every detour uses: the process globals, the map of
  non-blocking sockets, \<open>blocking_scope\<close>, the refusal of a proxied connect, the socket-type
  question, and the installation of the hooks. The real winsock functions behind the hooks are
  the parameter \<open>hook_env\<close>; \<open>'w\<close> is the state of the machine's sockets, last error included.
\<close>

type_synonym SOCKET = uintptr

definition SOCKET_ERROR :: int where
  "SOCKET_ERROR = - 1"

definition SOCK_STREAM :: int where
  "SOCK_STREAM = 1"

definition WSAETIMEDOUT :: int where
  "WSAETIMEDOUT = 10060"

definition WSAECONNREFUSED :: int where
  "WSAECONNREFUSED = 10061"

text \<open>
  \<open>he_so_type\<close>: \<open>getsockopt\<close> of SO_TYPE, \<open>None\<close> when it fails. \<open>he_timeouts\<close>: SO_RCVTIMEO and
  SO_SNDTIMEO, each \<open>None\<close> when the query fails. \<open>he_sockname\<close>: the bytes \<open>getsockname\<close> leaves in a
  sixteen byte \<open>sockaddr\<close>. \<open>he_stack\<close>: what an uninitialised sixteen byte array holds.
\<close>

record 'w hook_env =
  he_winsock :: "SOCKET \<Rightarrow> 'w winsock"
  he_connect :: "SOCKET \<Rightarrow> u8 list \<Rightarrow> 'w \<Rightarrow> int \<times> 'w"
  he_so_type :: "SOCKET \<Rightarrow> 'w \<Rightarrow> int option \<times> 'w"
  he_timeouts :: "SOCKET \<Rightarrow> 'w \<Rightarrow> u32 option \<times> u32 option"
  he_set_timeouts :: "SOCKET \<Rightarrow> u32 \<Rightarrow> u32 \<Rightarrow> 'w \<Rightarrow> 'w"
  he_set_nonblocking :: "SOCKET \<Rightarrow> bool \<Rightarrow> 'w \<Rightarrow> 'w"
  he_last_error :: "'w \<Rightarrow> int"
  he_set_last_error :: "int \<Rightarrow> 'w \<Rightarrow> 'w"
  he_shutdown :: "SOCKET \<Rightarrow> 'w \<Rightarrow> 'w"
  he_sockname :: "SOCKET \<Rightarrow> 'w \<Rightarrow> u8 list \<times> 'w"
  he_stack :: "u8 list"

text \<open>The scope-bound globals, each unbound or bound; one detour reads each of them once.\<close>

record 'w process =
  ps_queue :: "InjecteeMessage blocking_queue option"
  ps_config :: "injectee_config option"
  ps_nbio :: "(SOCKET \<rightharpoonup> bool) option"
  ps_net :: 'w

section \<open>Non-blocking sockets\<close>

definition nbio_store :: "SOCKET \<Rightarrow> bool \<Rightarrow> 'w process \<Rightarrow> 'w process" where
  "nbio_store s nb p = (case ps_nbio p of None \<Rightarrow> p | Some m \<Rightarrow> p\<lparr>ps_nbio := Some (m(s \<mapsto> nb))\<rparr>)"

definition nbio_load :: "SOCKET \<Rightarrow> 'w process \<Rightarrow> bool option" where
  "nbio_load s p = (case ps_nbio p of None \<Rightarrow> None | Some m \<Rightarrow> m s)"

definition nbio_erase :: "SOCKET \<Rightarrow> 'w process \<Rightarrow> 'w process" where
  "nbio_erase s p = (case ps_nbio p of None \<Rightarrow> p | Some m \<Rightarrow> p\<lparr>ps_nbio := Some (m(s := None))\<rparr>)"

definition FIONBIO :: u32 where
  "FIONBIO = 0x8004667E"

text \<open>The four small detours; \<open>original\<close> is the function behind the hook.\<close>

definition ioctlsocket_detour ::
  "(SOCKET \<Rightarrow> u32 \<Rightarrow> u32 \<Rightarrow> 'w \<Rightarrow> int \<times> 'w) \<Rightarrow> SOCKET \<Rightarrow> u32 \<Rightarrow> u32 \<Rightarrow> 'w process \<Rightarrow> int \<times> 'w process" where
  "ioctlsocket_detour original s cmd arg p =
     (let p1 = (if cmd = FIONBIO then nbio_store s (arg \<noteq> 0) p else p);
          (ret, w) = original s cmd arg (ps_net p1)
      in (ret, p1\<lparr>ps_net := w\<rparr>))"

definition async_select_detour ::
  "(SOCKET \<Rightarrow> 'w \<Rightarrow> int \<times> 'w) \<Rightarrow> SOCKET \<Rightarrow> 'w process \<Rightarrow> int \<times> 'w process" where
  "async_select_detour original s p =
     (let p1 = nbio_store s True p; (ret, w) = original s (ps_net p1) in (ret, p1\<lparr>ps_net := w\<rparr>))"

definition event_select_detour ::
  "(SOCKET \<Rightarrow> 'w \<Rightarrow> int \<times> 'w) \<Rightarrow> SOCKET \<Rightarrow> 'w process \<Rightarrow> int \<times> 'w process" where
  "event_select_detour original s p =
     (let p1 = nbio_store s True p; (ret, w) = original s (ps_net p1) in (ret, p1\<lparr>ps_net := w\<rparr>))"

definition closesocket_detour ::
  "(SOCKET \<Rightarrow> 'w \<Rightarrow> int \<times> 'w) \<Rightarrow> SOCKET \<Rightarrow> 'w process \<Rightarrow> int \<times> 'w process" where
  "closesocket_detour original s p =
     (let p1 = nbio_erase s p; (ret, w) = original s (ps_net p1) in (ret, p1\<lparr>ps_net := w\<rparr>))"

section \<open>The blocking scope\<close>

definition SOCKS_HANDSHAKE_TIMEOUT_MS :: u32 where
  "SOCKS_HANDSHAKE_TIMEOUT_MS = 3000"

text \<open>The old timeouts stay 0 when they could not be read.\<close>

definition scope_enter :: "'w hook_env \<Rightarrow> SOCKET \<Rightarrow> u32 \<Rightarrow> 'w \<Rightarrow> (u32 \<times> u32) \<times> 'w" where
  "scope_enter env s timeout_ms w =
     (case he_timeouts env s w of (rcvtimeo, sndtimeo) \<Rightarrow>
        (((case rcvtimeo of None \<Rightarrow> 0 | Some t \<Rightarrow> t), (case sndtimeo of None \<Rightarrow> 0 | Some t \<Rightarrow> t)),
         he_set_nonblocking env s False (he_set_timeouts env s timeout_ms timeout_ms w)))"

definition scope_leave :: "'w hook_env \<Rightarrow> SOCKET \<Rightarrow> bool option \<Rightarrow> u32 \<times> u32 \<Rightarrow> 'w \<Rightarrow> 'w" where
  "scope_leave env s saved old w =
     (let nb = (case saved of None \<Rightarrow> False | Some b \<Rightarrow> b)
      in he_set_timeouts env s (fst old) (snd old) (he_set_nonblocking env s nb w))"

definition in_blocking_scope ::
  "'w hook_env \<Rightarrow> SOCKET \<Rightarrow> bool option \<Rightarrow> ('w \<Rightarrow> 'a \<times> 'w) \<Rightarrow> 'w \<Rightarrow> 'a \<times> 'w" where
  "in_blocking_scope env s saved body w =
     (let (old, w1) = scope_enter env s SOCKS_HANDSHAKE_TIMEOUT_MS w;
          (r, w2) = body w1
      in (r, scope_leave env s saved old w2))"

definition fail_proxied_connect :: "'w hook_env \<Rightarrow> SOCKET \<Rightarrow> 'a \<Rightarrow> 'w \<Rightarrow> 'a \<times> 'w" where
  "fail_proxied_connect env s ret w =
     (let err = he_last_error env w;
          w1 = he_shutdown env s w
      in (ret, he_set_last_error env (if err = WSAETIMEDOUT then WSAETIMEDOUT else WSAECONNREFUSED) w1))"

section \<open>Is it a stream socket?\<close>

datatype socket_stream_verdict = stream | not_stream | unknown

definition socket_stream_type :: "'w hook_env \<Rightarrow> SOCKET \<Rightarrow> 'w \<Rightarrow> socket_stream_verdict \<times> 'w" where
  "socket_stream_type env s w =
     (case he_so_type env s w of
        (None, w') \<Rightarrow> (unknown, w')
      | (Some ty, w') \<Rightarrow> (if ty = SOCK_STREAM then stream else not_stream, w'))"

section \<open>Reports\<close>

definition report_connect ::
  "string \<Rightarrow> SOCKET \<Rightarrow> IpAddr \<Rightarrow> IpAddr option \<Rightarrow> 'w process \<Rightarrow> 'w process" where
  "report_connect syscall s v proxy p =
     (case ps_queue p of
        None \<Rightarrow> p
      | Some q \<Rightarrow> p\<lparr>ps_queue := Some (snd (bq_push (create_message_connect
          \<lparr>ic_handle = Some (ucast s), ic_addr = Some v, ic_proxy = proxy, ic_syscall = Some syscall\<rparr>) q))\<rparr>)"

text \<open>\<open>CreateProcess\<close>: the child is reported when the call succeeded and subprocesses are wanted.\<close>

definition create_process_detour ::
  "('w \<Rightarrow> (bool \<times> u32) \<times> 'w) \<Rightarrow> 'w process \<Rightarrow> bool \<times> 'w process" where
  "create_process_detour original p =
     (let ((res, child), w) = original (ps_net p);
          p1 = p\<lparr>ps_net := w\<rparr>
      in case ps_config p1 of
           Some bound \<Rightarrow>
             if res then
               (case ps_queue p1 of
                  Some q \<Rightarrow>
                    if ro_subprocess (config_get bound)
                    then (res, p1\<lparr>ps_queue := Some (snd (bq_push (create_message_subpid child) q))\<rparr>)
                    else (res, p1)
                | None \<Rightarrow> (res, p1))
             else (res, p1)
         | None \<Rightarrow> (res, p1))"

section \<open>Installing the hooks\<close>

text \<open>
  \<open>create_hooks<T, Ts...>\<close> on the list of hooks; \<open>create\<close> says whether MinHook accepted one. What
  is created is the set of hooks; an error status is the hook it came from.
\<close>

fun create_hooks :: "('h \<Rightarrow> bool) \<Rightarrow> 'h list \<Rightarrow> 'h set \<Rightarrow> 'h option \<times> 'h set" where
  "create_hooks create [] created = (None, created)"
| "create_hooks create (t # ts) created =
     (if \<not> create t then (Some t, created)
      else (case create_hooks create ts (insert t created) of
              (Some err, created') \<Rightarrow> (Some err, created' - {t})
            | (None, created') \<Rightarrow> (None, created')))"

datatype hook_name = Hook_connect | Hook_WSAConnect | Hook_WSAConnectByList | Hook_WSAConnectByNameA
  | Hook_WSAConnectByNameW | Hook_CreateProcessA | Hook_CreateProcessW | Hook_ioctlsocket
  | Hook_WSAAsyncSelect | Hook_WSAEventSelect | Hook_closesocket | Hook_ConnectEx

definition all_hooks :: "hook_name list" where
  "all_hooks = [Hook_connect, Hook_WSAConnect, Hook_WSAConnectByList, Hook_WSAConnectByNameA,
     Hook_WSAConnectByNameW, Hook_CreateProcessA, Hook_CreateProcessW, Hook_ioctlsocket,
     Hook_WSAAsyncSelect, Hook_WSAEventSelect, Hook_closesocket, Hook_ConnectEx]"

definition hook_create_all :: "(hook_name \<Rightarrow> bool) \<Rightarrow> hook_name set \<Rightarrow> hook_name option \<times> hook_name set" where
  "hook_create_all create created = create_hooks create all_hooks created"

lemma create_hooks_result:
  assumes "distinct ts" and "set ts \<inter> created = {}"
  shows "create_hooks create ts created =
    (case find (\<lambda>t. \<not> create t) ts of None \<Rightarrow> (None, created \<union> set ts) | Some t \<Rightarrow> (Some t, created))"
  using assms
proof (induction ts arbitrary: created)
  case (Cons t ts)
  have "set ts \<inter> insert t created = {}" using Cons.prems by auto
  with Cons.IH [of "insert t created"] Cons.prems show ?case
    by (auto split: option.split)
qed simp

text \<open>The hook set is installed whole or not at all: either every hook was accepted and all twelve
  are there, or the first refusal is reported and none of them is left behind.\<close>

theorem hooks_all_or_nothing:
  "hook_create_all create {} =
     (case find (\<lambda>t. \<not> create t) all_hooks of None \<Rightarrow> (None, UNIV) | Some t \<Rightarrow> (Some t, {}))"
proof -
  have "h \<in> set all_hooks" for h by (cases h) (simp_all add: all_hooks_def)
  then have "set all_hooks = UNIV" by auto
  then show ?thesis
    unfolding hook_create_all_def
    by (subst create_hooks_result) (simp_all add: all_hooks_def split: option.split)
qed

end
