(* ===== verification/Hook_Connect.thy ===== *)
theory Hook_Connect
  imports Hook_Env Services
begin

text \<open>
  The four connect detours of src/injectee/hook.hpp: \<open>connect\<close>/\<open>WSAConnect\<close>,
  \<open>WSAConnectByList\<close>, \<open>WSAConnectByName\<close> and \<open>ConnectEx\<close>. The original function is an argument.
  A detour can end by an exception that leaves it or by a write through a null pointer the
  caller passed; both end the host process and are values of \<open>detour_crash\<close>.
\<close>

datatype detour_crash = threw winnet_error | null_write

section \<open>What the detours share\<close>

definition route_creds :: "injectee_route \<Rightarrow> socks5_credentials" where
  "route_creds route = \<lparr>cr_username = route_username route, cr_password = route_password route\<rparr>"

text \<open>\<open>q && log\<close>.\<close>

definition reporting :: "injectee_route \<Rightarrow> 'w process \<Rightarrow> bool" where
  "reporting route p \<longleftrightarrow> ps_queue p \<noteq> None \<and> ro_log route"

datatype stream_gate = gate_original | gate_refuse | gate_go

text \<open>The question is asked only when a proxy or a report depends on the answer.\<close>

definition ask_stream :: "'w hook_env \<Rightarrow> SOCKET \<Rightarrow> bool \<Rightarrow> bool \<Rightarrow> 'w \<Rightarrow> stream_gate \<times> 'w" where
  "ask_stream env s proxied reports w =
     (if proxied \<or> reports then
        (case socket_stream_type env s w of
           (not_stream, w') \<Rightarrow> (gate_original, w')
         | (unknown, w') \<Rightarrow> (if proxied then gate_refuse else gate_original, w')
         | (stream, w') \<Rightarrow> (gate_go, w'))
      else (gate_go, w))"

datatype 'a dial = dial_error int | dial_refused | dial_granted 'a

text \<open>Inside the blocking scope: dial the proxy, shake hands, ask for the destination, then
  \<open>granted\<close>.\<close>

definition proxied_connect ::
  "'w hook_env \<Rightarrow> SOCKET \<Rightarrow> socks5_credentials \<Rightarrow> ('w \<Rightarrow> int \<times> 'w) \<Rightarrow> ('w \<Rightarrow> u8 \<times> 'w) \<Rightarrow>
     ('w \<Rightarrow> 'a \<times> 'w) \<Rightarrow> 'w \<Rightarrow> 'a dial \<times> 'w" where
  "proxied_connect env s creds connect request granted w =
     (case connect w of
        (ret, w1) \<Rightarrow>
          if ret \<noteq> 0 then (dial_error ret, w1)
          else
            (case socks5_handshake (he_winsock env s) creds w1 of
               (False, w2) \<Rightarrow> fail_proxied_connect env s dial_refused w2
             | (True, w2) \<Rightarrow>
                 (case request w2 of
                    (rep, w3) \<Rightarrow>
                      if rep \<noteq> SOCKS_SUCCESS then fail_proxied_connect env s dial_refused w3
                      else (case granted w3 of (a, w4) \<Rightarrow> (dial_granted a, w4)))))"

text \<open>The same with the scope around it, on the process state.\<close>

definition proxied_in_scope ::
  "'w hook_env \<Rightarrow> SOCKET \<Rightarrow> socks5_credentials \<Rightarrow> ('w \<Rightarrow> int \<times> 'w) \<Rightarrow> ('w \<Rightarrow> u8 \<times> 'w) \<Rightarrow>
     ('w \<Rightarrow> 'a \<times> 'w) \<Rightarrow> 'w process \<Rightarrow> 'a dial \<times> 'w process" where
  "proxied_in_scope env s creds connect request granted p =
     (let (r, w) = in_blocking_scope env s (nbio_load s p)
            (proxied_connect env s creds connect request granted) (ps_net p)
      in (r, p\<lparr>ps_net := w\<rparr>))"

text \<open>A call on the sockets from the process state.\<close>

definition on_net :: "('w \<Rightarrow> 'a \<times> 'w) \<Rightarrow> 'w process \<Rightarrow> 'a \<times> 'w process" where
  "on_net f p = (let (r, w) = f (ps_net p) in (r, p\<lparr>ps_net := w\<rparr>))"

text \<open>\<open>*len = min(*len, size); memcpy(out, bytes, *len)\<close>, with the caller's pointer possibly null.\<close>

definition copy_out :: "nat option \<Rightarrow> u8 list \<Rightarrow> detour_crash + u8 list" where
  "copy_out len bytes = (case len of None \<Rightarrow> Inl null_write | Some n \<Rightarrow> Inr (take n bytes))"

section \<open>connect and WSAConnect\<close>

definition pass_connect ::
  "(u8 list \<Rightarrow> 'w \<Rightarrow> int \<times> 'w) \<Rightarrow> u8 list \<Rightarrow> 'w process \<Rightarrow> (detour_crash + int) \<times> 'w process" where
  "pass_connect original name p = (let (ret, p') = on_net (original name) p in (Inr ret, p'))"

text \<open>The part behind the report.\<close>

definition connect_by_proxy ::
  "'w hook_env \<Rightarrow> (u8 list \<Rightarrow> 'w \<Rightarrow> int \<times> 'w) \<Rightarrow> SOCKET \<Rightarrow> u8 list \<Rightarrow> injectee_route \<Rightarrow> 'w process \<Rightarrow>
     (detour_crash + int) \<times> 'w process" where
  "connect_by_proxy env original s name route p =
     (case ro_proxy route of
        None \<Rightarrow> pass_connect original name p
      | Some px \<Rightarrow>
          (case to_sockaddr (he_stack env) px of
             Inl e \<Rightarrow> (Inl (threw e), p)
           | Inr addr \<Rightarrow>
               if sockequal addr name then pass_connect original name p
               else
                 (case proxied_in_scope env s (route_creds route) (original addr)
                    (socks5_request_sockaddr (he_winsock env s) (Some name)) (Pair ()) p of
                    (dial_error ret, p1) \<Rightarrow> (Inr ret, p1)
                  | (dial_refused, p1) \<Rightarrow> (Inr SOCKET_ERROR, p1)
                  | (dial_granted _, p1) \<Rightarrow> (Inr 0, p1))))"

definition connect_detour ::
  "'w hook_env \<Rightarrow> (u8 list \<Rightarrow> 'w \<Rightarrow> int \<times> 'w) \<Rightarrow> string \<Rightarrow> SOCKET \<Rightarrow> u8 list \<Rightarrow> 'w process \<Rightarrow>
     (detour_crash + int) \<times> 'w process" where
  "connect_detour env original syscall s name p =
     (case ps_config p of
        None \<Rightarrow> pass_connect original name p
      | Some bound \<Rightarrow>
          if \<not> (is_inet name \<and> \<not> is_localhost name) then pass_connect original name p
          else
            let route = config_get bound; proxy = ro_proxy route; reports = reporting route p;
                (gate, p1) = on_net (ask_stream env s (proxy \<noteq> None) reports) p
            in case gate of
                 gate_original \<Rightarrow> pass_connect original name p1
               | gate_refuse \<Rightarrow> (let (ret, p2) = on_net (fail_proxied_connect env s SOCKET_ERROR) p1 in (Inr ret, p2))
               | gate_go \<Rightarrow>
                   (case to_ip_addr name of
                      None \<Rightarrow> pass_connect original name p1
                    | Some v \<Rightarrow>
                        connect_by_proxy env original s name route
                          (if reports then report_connect syscall s v proxy p1 else p1)))"

section \<open>WSAConnectByList\<close>

text \<open>
  The result is the BOOL and, when the detour itself wrote them, the remote and local address.
  \<open>*verdict = ...\<close> assigns through an empty \<open>optional\<close>, which stores the value without engaging
  it (the standard calls it undefined): the question is asked again at every address.
\<close>

definition list_outputs ::
  "'w hook_env \<Rightarrow> SOCKET \<Rightarrow> nat option \<Rightarrow> nat option \<Rightarrow> u8 list \<Rightarrow> 'w \<Rightarrow>
     (detour_crash + u8 list \<times> u8 list) \<times> 'w" where
  "list_outputs env s remote_len local_len remote_bytes w =
     (case copy_out remote_len remote_bytes of
        Inl e \<Rightarrow> (Inl e, w)
      | Inr remote \<Rightarrow>
          (case he_sockname env s w of
             (local_bytes, w1) \<Rightarrow>
               (case copy_out local_len local_bytes of
                  Inl e \<Rightarrow> (Inl e, w1)
                | Inr local \<Rightarrow> (Inr (remote, local), w1))))"

fun by_list_loop ::
  "'w hook_env \<Rightarrow> ('w \<Rightarrow> int \<times> 'w) \<Rightarrow> SOCKET \<Rightarrow> nat option \<Rightarrow> nat option \<Rightarrow> injectee_route \<Rightarrow> u8 list list \<Rightarrow>
     'w process \<Rightarrow> (detour_crash + int \<times> (u8 list \<times> u8 list) option) \<times> 'w process" where
  "by_list_loop env original s remote_len local_len route [] p =
     (if ro_proxy route \<noteq> None then (Inr (0, None), p)
      else (let (ret, p') = on_net original p in (Inr (ret, None), p')))"
| "by_list_loop env original s remote_len local_len route (name # names) p =
     (if \<not> (is_inet name \<and> \<not> is_localhost name) then by_list_loop env original s remote_len local_len route names p
      else
        let proxy = ro_proxy route; reports = reporting route p;
            (gate, p1) = on_net (ask_stream env s (proxy \<noteq> None) reports) p
        in case gate of
             gate_original \<Rightarrow> (let (ret, p') = on_net original p1 in (Inr (ret, None), p'))
           | gate_refuse \<Rightarrow> (let (ret, p2) = on_net (fail_proxied_connect env s 0) p1 in (Inr (ret, None), p2))
           | gate_go \<Rightarrow>
               (case to_ip_addr name of
                  None \<Rightarrow> by_list_loop env original s remote_len local_len route names p1
                | Some v \<Rightarrow>
                    let p2 = (if reports then report_connect ''WSAConnectByList'' s v proxy p1 else p1) in
                    case proxy of
                      None \<Rightarrow> by_list_loop env original s remote_len local_len route names p2
                    | Some px \<Rightarrow>
                        (case to_sockaddr (he_stack env) px of
                           Inl e \<Rightarrow> (Inl (threw e), p2)
                         | Inr addr \<Rightarrow>
                             if sockequal addr name then by_list_loop env original s remote_len local_len route names p2
                             else
                               (case proxied_in_scope env s (route_creds route) (he_connect env s addr)
                                  (socks5_request_sockaddr (he_winsock env s) (Some name))
                                  (list_outputs env s remote_len local_len addr) p2 of
                                  (dial_error ret, p3) \<Rightarrow> (Inr (ret, None), p3)
                                | (dial_refused, p3) \<Rightarrow>
                                    by_list_loop env original s remote_len local_len route names p3
                                | (dial_granted (Inl e), p3) \<Rightarrow> (Inl e, p3)
                                | (dial_granted (Inr out), p3) \<Rightarrow> (Inr (1, Some out), p3)))))"

definition connect_by_list_detour ::
  "'w hook_env \<Rightarrow> ('w \<Rightarrow> int \<times> 'w) \<Rightarrow> SOCKET \<Rightarrow> nat option \<Rightarrow> nat option \<Rightarrow> u8 list list \<Rightarrow> 'w process \<Rightarrow>
     (detour_crash + int \<times> (u8 list \<times> u8 list) option) \<times> 'w process" where
  "connect_by_list_detour env original s remote_len local_len names p =
     (case ps_config p of
        None \<Rightarrow> (let (ret, p') = on_net original p in (Inr (ret, None), p'))
      | Some bound \<Rightarrow> by_list_loop env original s remote_len local_len (config_get bound) names p)"

section \<open>WSAConnectByName\<close>

text \<open>\<open>resolve\<close> is \<open>ipaddr_from_name\<close> for the character type at hand; a null name is \<open>None\<close>. The
  remote address handed back is the one \<open>getsockname\<close> reports.\<close>

definition name_outputs ::
  "'w hook_env \<Rightarrow> SOCKET \<Rightarrow> nat option \<Rightarrow> nat option \<Rightarrow> 'w \<Rightarrow> (detour_crash + u8 list \<times> u8 list) \<times> 'w" where
  "name_outputs env s remote_len local_len w =
     (case he_sockname env s w of
        (peer, w1) \<Rightarrow> list_outputs env s remote_len local_len peer w1)"

definition connect_by_name_detour ::
  "'w hook_env \<Rightarrow> ('w \<Rightarrow> int \<times> 'w) \<Rightarrow> (string \<Rightarrow> string \<Rightarrow> IpAddr option) \<Rightarrow> string \<Rightarrow> SOCKET \<Rightarrow> nat option \<Rightarrow> nat option \<Rightarrow>
     string option \<Rightarrow> string option \<Rightarrow> 'w process \<Rightarrow>
     (detour_crash + int \<times> (u8 list \<times> u8 list) option) \<times> 'w process" where
  "connect_by_name_detour env original resolve syscall s remote_len local_len nodename servicename p =
     (let pass = (\<lambda>p. let (ret, p') = on_net original p in (Inr (ret, None), p'));
          refuse = (\<lambda>p. let (ret, p') = on_net (fail_proxied_connect env s 0) p in (Inr (ret, None), p')) in
      case ps_config p of
        None \<Rightarrow> pass p
      | Some bound \<Rightarrow>
          let route = config_get bound; proxy = ro_proxy route; reports = reporting route p;
              (gate, p1) = on_net (ask_stream env s (proxy \<noteq> None) reports) p
          in case gate of
               gate_original \<Rightarrow> pass p1
             | gate_refuse \<Rightarrow> refuse p1
             | gate_go \<Rightarrow>
                 (case (case (nodename, servicename) of (Some n, Some sv) \<Rightarrow> resolve n sv | _ \<Rightarrow> None) of
                    None \<Rightarrow> if proxy \<noteq> None then refuse p1 else pass p1
                  | Some addr \<Rightarrow>
                      let p2 = (if reports then report_connect syscall s addr proxy p1 else p1) in
                      case proxy of
                        None \<Rightarrow> pass p2
                      | Some px \<Rightarrow>
                          (case to_sockaddr (he_stack env) px of
                             Inl e \<Rightarrow> (Inl (threw e), p2)
                           | Inr proxysa \<Rightarrow>
                               (case proxied_in_scope env s (route_creds route) (he_connect env s proxysa)
                                  (socks5_request_ip_addr (he_winsock env s) addr)
                                  (name_outputs env s remote_len local_len) p2 of
                                  (dial_error ret, p3) \<Rightarrow> (Inr (ret, None), p3)
                                | (dial_refused, p3) \<Rightarrow> (Inr (0, None), p3)
                                | (dial_granted (Inl e), p3) \<Rightarrow> (Inl e, p3)
                                | (dial_granted (Inr out), p3) \<Rightarrow> (Inr (1, Some out), p3)))))"

section \<open>ConnectEx\<close>

text \<open>The send buffer goes out after the grant; the result is the BOOL and the count stored in
  \<open>*lpdwBytesSent\<close>.\<close>

definition send_first ::
  "'w hook_env \<Rightarrow> SOCKET \<Rightarrow> u8 list option \<Rightarrow> 'w \<Rightarrow> (int \<times> int option) \<times> 'w" where
  "send_first env s buffer w =
     (case buffer of
        None \<Rightarrow> ((1, None), w)
      | Some bs \<Rightarrow>
          (case ws_send (he_winsock env s) bs w of
             (n, w1) \<Rightarrow> if n = SOCKET_ERROR then ((0, None), he_shutdown env s w1) else ((1, Some n), w1)))"

definition connect_ex_detour ::
  "'w hook_env \<Rightarrow> ('w \<Rightarrow> int \<times> 'w) \<Rightarrow> SOCKET \<Rightarrow> u8 list \<Rightarrow> u8 list option \<Rightarrow> 'w process \<Rightarrow>
     (detour_crash + int \<times> int option) \<times> 'w process" where
  "connect_ex_detour env original s name buffer p =
     (let pass = (\<lambda>p. let (ret, p') = on_net original p in (Inr (ret, None), p')) in
      case ps_config p of
        None \<Rightarrow> pass p
      | Some bound \<Rightarrow>
          if \<not> (is_inet name \<and> \<not> is_localhost name) then pass p
          else
            let route = config_get bound; proxy = ro_proxy route; reports = reporting route p;
                (gate, p1) = on_net (ask_stream env s (proxy \<noteq> None) reports) p
            in case gate of
                 gate_original \<Rightarrow> pass p1
               | gate_refuse \<Rightarrow> (let (ret, p2) = on_net (fail_proxied_connect env s 0) p1 in (Inr (ret, None), p2))
               | gate_go \<Rightarrow>
                   (case to_ip_addr name of
                      None \<Rightarrow> pass p1
                    | Some v \<Rightarrow>
                        let p2 = (if reports then report_connect ''ConnectEx'' s v proxy p1 else p1) in
                        case proxy of
                          None \<Rightarrow> pass p2
                        | Some px \<Rightarrow>
                            (case to_sockaddr (he_stack env) px of
                               Inl e \<Rightarrow> (Inl (threw e), p2)
                             | Inr addr \<Rightarrow>
                                 if sockequal addr name then pass p2
                                 else
                                   (case proxied_in_scope env s (route_creds route) (he_connect env s addr)
                                      (socks5_request_sockaddr (he_winsock env s) (Some name))
                                      (send_first env s buffer) p2 of
                                      (dial_error ret, p3) \<Rightarrow> (Inr (ret, None), p3)
                                    | (dial_refused, p3) \<Rightarrow> (Inr (0, None), p3)
                                    | (dial_granted out, p3) \<Rightarrow> (Inr out, p3)))))"

section \<open>Lemmas\<close>

lemma on_net_fields [simp]:
  "ps_queue (snd (on_net f p)) = ps_queue p" "ps_config (snd (on_net f p)) = ps_config p"
  "ps_nbio (snd (on_net f p)) = ps_nbio p" "fst (on_net f p) = fst (f (ps_net p))"
  by (simp_all add: on_net_def case_prod_beta Let_def)

lemma scope_fields [simp]:
  "ps_queue (snd (proxied_in_scope env s creds c r g p)) = ps_queue p"
  by (simp add: proxied_in_scope_def case_prod_beta Let_def)

lemma ask_gate:
  "fst (ask_stream env s proxied reports w) = gate_original \<longleftrightarrow>
     (proxied \<or> reports) \<and> (fst (socket_stream_type env s w) = not_stream \<or>
        fst (socket_stream_type env s w) = unknown \<and> \<not> proxied)"
  "fst (ask_stream env s proxied reports w) = gate_refuse \<longleftrightarrow>
     proxied \<and> fst (socket_stream_type env s w) = unknown"
  by (auto simp: ask_stream_def split: prod.split socket_stream_verdict.split)

lemma gate_go_iff:
  "fst (ask_stream env s proxied reports w) = gate_go \<longleftrightarrow>
     \<not> (proxied \<or> reports) \<or> fst (socket_stream_type env s w) = stream"
  by (auto simp: ask_stream_def split: prod.split socket_stream_verdict.split)

text \<open>With a proxy, only a socket known not to be a stream reaches the original function.\<close>

lemma gate_proxied:
  "fst (socket_stream_type env s w) \<noteq> not_stream \<Longrightarrow> fst (ask_stream env s True reports w) \<noteq> gate_original"
  by (simp add: ask_gate)

lemma proxied_connect_granted:
  assumes "proxied_connect env s creds connect request granted w = (dial_granted a, w')"
  shows "\<exists>w1 w2 w3. connect w = (0, w1) \<and> socks5_handshake (he_winsock env s) creds w1 = (True, w2) \<and>
    request w2 = (SOCKS_SUCCESS, w3) \<and> granted w3 = (a, w')"
  using assms
  by (auto simp: proxied_connect_def fail_proxied_connect_def Let_def split: prod.splits if_splits bool.splits)

lemma proxied_in_scope_granted:
  assumes "proxied_in_scope env s creds connect request granted p = (dial_granted a, p')"
  shows "\<exists>old w0 w1 w2 w3 w4. scope_enter env s SOCKS_HANDSHAKE_TIMEOUT_MS (ps_net p) = (old, w0) \<and> connect w0 = (0, w1) \<and>
    socks5_handshake (he_winsock env s) creds w1 = (True, w2) \<and> request w2 = (SOCKS_SUCCESS, w3) \<and> granted w3 = (a, w4) \<and>
    ps_net p' = scope_leave env s (nbio_load s p) old w4"
proof -
  obtain old w0 where e: "scope_enter env s SOCKS_HANDSHAKE_TIMEOUT_MS (ps_net p) = (old, w0)" by (rule prod.exhaust)
  obtain r w4 where r: "proxied_connect env s creds connect request granted w0 = (r, w4)" by (rule prod.exhaust)
  have "r = dial_granted a" "ps_net p' = scope_leave env s (nbio_load s p) old w4"
    using assms e r by (auto simp: proxied_in_scope_def in_blocking_scope_def)
  with proxied_connect_granted [of env s creds connect request granted w0 a w4] r e show ?thesis by blast
qed

lemma dial_error_nonzero:
  "fst (proxied_in_scope env s creds connect request granted p) \<noteq> dial_error 0"
  by (auto simp: proxied_in_scope_def in_blocking_scope_def proxied_connect_def fail_proxied_connect_def Let_def
      split: prod.splits bool.splits)

lemma report_connect_fields [simp]:
  "ps_config (report_connect sys s v proxy p) = ps_config p" "ps_net (report_connect sys s v proxy p) = ps_net p"
  by (simp_all add: report_connect_def split: option.split)

section \<open>Properties\<close>

lemma connect_through_proxy:
  assumes "ps_config p = Some bound" and "ro_proxy (config_get bound) = Some px"
    and "to_sockaddr (he_stack env) px = Inr addr" and "\<not> sockequal addr name"
    and "is_inet name" and "\<not> is_localhost name"
    and "fst (socket_stream_type env s (ps_net p)) \<noteq> not_stream"
    and "original addr = original' addr"
  shows "connect_detour env original syscall s name p = connect_detour env original' syscall s name p \<and>
    (fst (connect_detour env original syscall s name p) = Inr 0 \<longrightarrow>
      (\<exists>old w0 w1 w2 w3. scope_enter env s SOCKS_HANDSHAKE_TIMEOUT_MS (snd (socket_stream_type env s (ps_net p))) = (old, w0) \<and>
        original addr w0 = (0, w1) \<and>
        socks5_handshake (he_winsock env s) (route_creds (config_get bound)) w1 = (True, w2) \<and>
        socks5_request_sockaddr (he_winsock env s) (Some name) w2 = (SOCKS_SUCCESS, w3) \<and>
        ps_net (snd (connect_detour env original syscall s name p)) = scope_leave env s (nbio_load s p) old w3))"
proof -
  obtain gate p1 where g: "on_net (ask_stream env s True (reporting (config_get bound) p)) p = (gate, p1)"
    by (cases "on_net (ask_stream env s True (reporting (config_get bound) p)) p")
  have gate: "gate \<noteq> gate_original"
    using gate_proxied [OF assms(7), of "reporting (config_get bound) p"] g by (metis fst_conv on_net_fields(4))
  obtain v where v: "to_ip_addr name = Some v" using assms(5) by (auto simp: is_inet_cases)
  define p2 where "p2 = (if reporting (config_get bound) p then report_connect syscall s v (Some px) p1 else p1)"
  obtain r p3 where d: "proxied_in_scope env s (route_creds (config_get bound)) (original addr)
      (socks5_request_sockaddr (he_winsock env s) (Some name)) (Pair ()) p2 = (r, p3)"
    by (cases "proxied_in_scope env s (route_creds (config_get bound)) (original addr)
      (socks5_request_sockaddr (he_winsock env s) (Some name)) (Pair ()) p2")
  have detour: "connect_detour env f syscall s name p =
      (if gate = gate_refuse then
         (let (ret, p2) = on_net (fail_proxied_connect env s SOCKET_ERROR) p1 in (Inr ret, p2))
       else (case r of dial_error ret \<Rightarrow> (Inr ret, p3) | dial_refused \<Rightarrow> (Inr SOCKET_ERROR, p3)
                     | dial_granted _ \<Rightarrow> (Inr 0, p3)))"
    if "f addr = original addr" for f
    using assms(1-6) g gate v d that
    by (cases gate; cases r; cases "reporting (config_get bound) p") (simp_all add: connect_detour_def connect_by_proxy_def Let_def p2_def)
  have z: "r \<noteq> dial_error 0" using dial_error_nonzero d by (metis fst_conv)
  have refused: "fst (let (ret, p2) = on_net (fail_proxied_connect env s SOCKET_ERROR) p1 in (Inr ret, p2) :: (detour_crash + int) \<times> _)
      \<noteq> Inr 0"
    by (simp add: on_net_def fail_proxied_connect_def SOCKET_ERROR_def Let_def)
  have "\<exists>a. r = dial_granted a" if "fst (connect_detour env original syscall s name p) = Inr 0"
    using that z refused detour [of original]
    by (cases r) (auto simp: SOCKET_ERROR_def split: if_splits)
  have p2: "ps_net p2 = snd (socket_stream_type env s (ps_net p))" "nbio_load s p2 = nbio_load s p"
    using g by (auto simp: p2_def on_net_def ask_stream_def nbio_load_def report_connect_def Let_def
        split: prod.splits socket_stream_verdict.splits option.splits)
  have "\<exists>old w0 w1 w2 w3. scope_enter env s SOCKS_HANDSHAKE_TIMEOUT_MS (snd (socket_stream_type env s (ps_net p))) = (old, w0) \<and>
        original addr w0 = (0, w1) \<and>
        socks5_handshake (he_winsock env s) (route_creds (config_get bound)) w1 = (True, w2) \<and>
        socks5_request_sockaddr (he_winsock env s) (Some name) w2 = (SOCKS_SUCCESS, w3) \<and>
        ps_net (snd (connect_detour env original syscall s name p)) = scope_leave env s (nbio_load s p) old w3"
    if ok: "fst (connect_detour env original syscall s name p) = Inr 0"
  proof -
    obtain a where a: "r = dial_granted a"
      using ok \<open>fst (connect_detour env original syscall s name p) = Inr 0 \<Longrightarrow> \<exists>a. r = dial_granted a\<close> by blast
    have "gate \<noteq> gate_refuse" using ok refused detour [of original] by auto
    then have final: "snd (connect_detour env original syscall s name p) = p3" using detour [of original] a by simp
    from d a have "proxied_in_scope env s (route_creds (config_get bound)) (original addr)
        (socks5_request_sockaddr (he_winsock env s) (Some name)) (Pair ()) p2 = (dial_granted a, p3)" by simp
    from proxied_in_scope_granted [OF this] show ?thesis unfolding p2 final by blast
  qed
  moreover have "connect_detour env original syscall s name p = connect_detour env original' syscall s name p"
    using detour [of original] detour [of original'] assms(8) by simp
  ultimately show ?thesis by blast
qed

text \<open>An environment in which everything succeeds, for the examples.\<close>

definition ideal_env :: "(u8 list \<times> u8 list) hook_env" where
  "ideal_env = \<lparr>he_winsock = (\<lambda>s. ideal_socket), he_connect = (\<lambda>s a w. (0, w)), he_so_type = (\<lambda>s w. (Some SOCK_STREAM, w)),
     he_timeouts = (\<lambda>s w. (None, None)), he_set_timeouts = (\<lambda>s a b w. w), he_set_nonblocking = (\<lambda>s b w. w),
     he_last_error = (\<lambda>w. 0), he_set_last_error = (\<lambda>e w. w), he_shutdown = (\<lambda>s w. w),
     he_sockname = (\<lambda>s w. (replicate 16 0, w)), he_stack = replicate 16 0\<rparr>"

definition proxied_process :: "(u8 list \<times> u8 list) process" where
  "proxied_process = \<lparr>ps_queue = None, ps_config = Some (config_set
       (injector_config_init\<lparr>cf_addr := Some (from_asio (AddressV4 0x0A000001) 1080)\<rparr>) injectee_config_init),
     ps_nbio = None, ps_net = ([], [])\<rparr>"

lemma ideal_env_facts:
  "ps_config proxied_process = Some (config_set
     (injector_config_init\<lparr>cf_addr := Some (from_asio (AddressV4 0x0A000001) 1080)\<rparr>) injectee_config_init)"
  "ro_proxy (config_get (config_set
     (injector_config_init\<lparr>cf_addr := Some (from_asio (AddressV4 0x0A000001) 1080)\<rparr>) injectee_config_init)) =
   Some (from_asio (AddressV4 0x0A000001) 1080)"
  "to_sockaddr (he_stack ideal_env) (from_asio (AddressV4 0x0A000001) 1080) =
   Inr (sockaddr_in_bytes (10, 0, 0, 1) 1080)"
  "\<not> sockequal (sockaddr_in_bytes (10, 0, 0, 1) 1080) (sockaddr_in_bytes (93, 184, 216, 34) 443)"
  "is_inet (sockaddr_in_bytes (93, 184, 216, 34) 443)" "\<not> is_localhost (sockaddr_in_bytes (93, 184, 216, 34) 443)"
  "fst (socket_stream_type ideal_env s w) \<noteq> not_stream"
proof -
  have h: "htonl_octets 0x0A000001 = (10, 0, 0, 1)" by code_simp
  show "to_sockaddr (he_stack ideal_env) (from_asio (AddressV4 0x0A000001) 1080) =
      Inr (sockaddr_in_bytes (10, 0, 0, 1) 1080)"
    by (simp add: to_sockaddr_from_asio h)
qed (simp_all add: proxied_process_def config_get_def config_set_def injector_config_init_def Let_def
    case_prod_beta sockequal_bytes is_inet_def is_localhost_def ideal_env_def socket_stream_type_def,
  simp_all add: sockaddr_in_bytes_def)

text \<open>C8: connect and WSAConnect fail closed: with a proxy configured, a routable destination and a
  socket not known to be a datagram one, the real function is called with the proxy's address
  or not at all, never with the destination; and the detour reports success only after the
  proxy accepted the handshake and granted a request for exactly that destination.\<close>

theorem connect_fails_closed:
  assumes "ps_config p = Some bound" and "ro_proxy (config_get bound) = Some px"
    and "to_sockaddr (he_stack env) px = Inr addr" and "\<not> sockequal addr name"
    and "is_inet name" and "\<not> is_localhost name"
    and "fst (socket_stream_type env s (ps_net p)) \<noteq> not_stream"
    and "original addr = original' addr"
  shows "connect_detour env original syscall s name p = connect_detour env original' syscall s name p \<and>
    (fst (connect_detour env original syscall s name p) = Inr 0 \<longrightarrow>
      (\<exists>old w0 w1 w2 w3. scope_enter env s SOCKS_HANDSHAKE_TIMEOUT_MS (snd (socket_stream_type env s (ps_net p))) = (old, w0) \<and>
        original addr w0 = (0, w1) \<and>
        socks5_handshake (he_winsock env s) (route_creds (config_get bound)) w1 = (True, w2) \<and>
        socks5_request_sockaddr (he_winsock env s) (Some name) w2 = (SOCKS_SUCCESS, w3) \<and>
        ps_net (snd (connect_detour env original syscall s name p)) = scope_leave env s (nbio_load s p) old w3))"
  using assms by (rule connect_through_proxy)

lemma connect_fails_closed_witness:
  "connect_detour ideal_env (\<lambda>a w. (0, w)) ''connect'' 7 (sockaddr_in_bytes (93, 184, 216, 34) 443) proxied_process =
   connect_detour ideal_env (\<lambda>a w. if a = sockaddr_in_bytes (10, 0, 0, 1) 1080 then (0, w) else (10061, w))
     ''connect'' 7 (sockaddr_in_bytes (93, 184, 216, 34) 443) proxied_process"
  using connect_fails_closed [OF ideal_env_facts(1-7), of "\<lambda>a w. (0, w)"
      "\<lambda>a w. if a = sockaddr_in_bytes (10, 0, 0, 1) 1080 then (0, w) else (10061, w)" "''connect''" 7]
  by simp

section \<open>The other three sites\<close>

text \<open>Only the real \<open>connect\<close> is exchanged.\<close>

lemma with_connect_parts:
  "socket_stream_type (env\<lparr>he_connect := c\<rparr>) = socket_stream_type env"
  "scope_enter (env\<lparr>he_connect := c\<rparr>) = scope_enter env"
  "scope_leave (env\<lparr>he_connect := c\<rparr>) = scope_leave env"
  "fail_proxied_connect (env\<lparr>he_connect := c\<rparr>) = fail_proxied_connect env"
  "list_outputs (env\<lparr>he_connect := c\<rparr>) = list_outputs env"
  "send_first (env\<lparr>he_connect := c\<rparr>) = send_first env"
  by (intro ext; simp add: socket_stream_type_def scope_enter_def scope_leave_def fail_proxied_connect_def list_outputs_def
      send_first_def cong: sum.case_cong option.case_cong if_cong)+

lemma with_connect [simp]:
  "ask_stream (env\<lparr>he_connect := c\<rparr>) = ask_stream env"
  "name_outputs (env\<lparr>he_connect := c\<rparr>) = name_outputs env"
  "proxied_in_scope (env\<lparr>he_connect := c\<rparr>) = proxied_in_scope env"
  by (intro ext; simp add: ask_stream_def name_outputs_def proxied_in_scope_def in_blocking_scope_def proxied_connect_def
      with_connect_parts cong: if_cong bool.case_cong)+

text \<open>
  From the sockets \<open>w\<close> to the sockets \<open>w'\<close>: the proxy is dialled inside the blocking scope, accepts the
  handshake and grants the request, and then \<open>finish\<close> answers \<open>a\<close>.
\<close>

definition granted_through ::
  "'w hook_env \<Rightarrow> SOCKET \<Rightarrow> socks5_credentials \<Rightarrow> u8 list \<Rightarrow> ('w \<Rightarrow> u8 \<times> 'w) \<Rightarrow> ('w \<Rightarrow> 'a \<times> 'w) \<Rightarrow> bool option \<Rightarrow>
     'w \<Rightarrow> 'a \<Rightarrow> 'w \<Rightarrow> bool" where
  "granted_through env s creds addr request finish saved w a w' \<longleftrightarrow>
     (\<exists>old w0 w1 w2 w3 w4. scope_enter env s SOCKS_HANDSHAKE_TIMEOUT_MS w = (old, w0) \<and> he_connect env s addr w0 = (0, w1) \<and>
       socks5_handshake (he_winsock env s) creds w1 = (True, w2) \<and> request w2 = (SOCKS_SUCCESS, w3) \<and> finish w3 = (a, w4) \<and>
       w' = scope_leave env s saved old w4)"

lemma in_scope_granted:
  assumes "proxied_in_scope env s creds (he_connect env s addr) request finish p = (dial_granted a, p')"
  shows "granted_through env s creds addr request finish (nbio_load s p) (ps_net p) a (ps_net p')"
  using proxied_in_scope_granted [OF assms] unfolding granted_through_def by blast

lemma report_nbio [simp]: "nbio_load s (report_connect sys s' v proxy p) = nbio_load s p"
  by (simp add: nbio_load_def report_connect_def split: option.split)

lemma asked_net [simp]:
  "ps_net (snd (on_net (ask_stream env s True reports) p)) = snd (socket_stream_type env s (ps_net p))"
  "nbio_load s' (snd (on_net f p)) = nbio_load s' p"
  by (simp_all add: on_net_def ask_stream_def nbio_load_def split: prod.split socket_stream_verdict.split)

lemma dial_error_returned:
  assumes "proxied_in_scope env s creds connect request finish p = (dial_error e, p')"
  shows "\<exists>w. fst (connect w) = e"
proof -
  obtain old w0 where e: "scope_enter env s SOCKS_HANDSHAKE_TIMEOUT_MS (ps_net p) = (old, w0)" by (rule prod.exhaust)
  then have "fst (proxied_connect env s creds connect request finish w0) = dial_error e"
    using assms by (auto simp: proxied_in_scope_def in_blocking_scope_def split: prod.splits)
  then have "fst (connect w0) = e"
    by (auto simp: proxied_connect_def fail_proxied_connect_def Let_def split: prod.splits bool.splits if_splits)
  then show ?thesis by blast
qed

text \<open>A grant in the list is one for an address of it, on the run's own sockets.\<close>

lemma by_list_granted:
  assumes "by_list_loop env original s rl ll route names p = (Inr (ret, Some out), p')"
    and "ro_proxy route = Some px" and "to_sockaddr (he_stack env) px = Inr addr"
    and "\<And>w. fst (socket_stream_type env s w) \<noteq> not_stream"
  shows "\<exists>before name after q. names = before @ name # after \<and>
    by_list_loop env original s rl ll route names p = by_list_loop env original s rl ll route (name # after) q \<and>
    is_inet name \<and> \<not> is_localhost name \<and> \<not> sockequal addr name \<and> ret = 1 \<and>
    granted_through env s (route_creds route) addr (socks5_request_sockaddr (he_winsock env s) (Some name))
      (list_outputs env s rl ll addr) (nbio_load s q) (snd (socket_stream_type env s (ps_net q))) (Inr out) (ps_net p')"
  using assms(1)
proof (induction names arbitrary: p)
  case Nil
  then show ?case using assms(2) by simp
next
  case (Cons name names)
  note run = Cons.prems
  have later: ?case if "by_list_loop env original s rl ll route (name # names) p = by_list_loop env original s rl ll route names q" for q
  proof -
    from Cons.IH [of q] that run obtain before n after r where
      "names = before @ n # after" "by_list_loop env original s rl ll route names q = by_list_loop env original s rl ll route (n # after) r"
      "is_inet n \<and> \<not> is_localhost n \<and> \<not> sockequal addr n \<and> ret = 1 \<and>
       granted_through env s (route_creds route) addr (socks5_request_sockaddr (he_winsock env s) (Some n))
        (list_outputs env s rl ll addr) (nbio_load s r) (snd (socket_stream_type env s (ps_net r))) (Inr out) (ps_net p')"
      by auto
    then show ?thesis using that by (intro exI [of _ "name # before"] exI [of _ n] exI [of _ after] exI [of _ r]) simp
  qed
  obtain g p1 where g: "on_net (ask_stream env s True (reporting route p)) p = (g, p1)" by (rule prod.exhaust)
  have ng: "g \<noteq> gate_original" using gate_proxied [OF assms(4)] g by (metis fst_conv on_net_fields(4))
  have p1: "ps_net p1 = snd (socket_stream_type env s (ps_net p))" "nbio_load s p1 = nbio_load s p"
    using asked_net g by (metis snd_conv)+
  show ?case
  proof (cases "is_inet name \<and> \<not> is_localhost name")
    case False
    then show ?thesis by (intro later [of p]) simp
  next
    case True
    then obtain v where v: "to_ip_addr name = Some v" by (auto simp: is_inet_cases)
    have go: "g = gate_go" using run True g ng assms(2) by (cases g) (simp_all add: Let_def split: prod.splits)
    define p2 where "p2 = (if reporting route p then report_connect ''WSAConnectByList'' s v (Some px) p1 else p1)"
    have p2: "ps_net p2 = ps_net p1" "nbio_load s p2 = nbio_load s p1" by (simp_all add: p2_def)
    show ?thesis
    proof (cases "sockequal addr name")
      case same: True
      then show ?thesis using True g go v assms(2,3) by (intro later [of p2]) (simp add: Let_def p2_def)
    next
      case other: False
      obtain d p3 where d: "proxied_in_scope env s (route_creds route) (he_connect env s addr)
          (socks5_request_sockaddr (he_winsock env s) (Some name)) (list_outputs env s rl ll addr) p2 = (d, p3)" by (rule prod.exhaust)
      have step: "by_list_loop env original s rl ll route (name # names) p =
          (case d of dial_error e \<Rightarrow> (Inr (e, None), p3) | dial_refused \<Rightarrow> by_list_loop env original s rl ll route names p3
            | dial_granted (Inl e) \<Rightarrow> (Inl e, p3) | dial_granted (Inr o') \<Rightarrow> (Inr (1, Some o'), p3))"
        using True g go v other d assms(2,3) by (simp add: Let_def p2_def split: dial.split sum.split)
      show ?thesis
      proof (cases d)
        case (dial_error e)
        then show ?thesis using run step by simp
      next
        case dial_refused
        then show ?thesis using step by (intro later [of p3]) simp
      next
        case (dial_granted a)
        then have "a = Inr out" "ret = 1" "p' = p3" using run step by (auto split: sum.splits)
        have "proxied_in_scope env s (route_creds route) (he_connect env s addr)
            (socks5_request_sockaddr (he_winsock env s) (Some name)) (list_outputs env s rl ll addr) p2 = (dial_granted (Inr out), p')"
          using d dial_granted \<open>a = Inr out\<close> \<open>p' = p3\<close> by simp
        from in_scope_granted [OF this] p1 p2 have
          "granted_through env s (route_creds route) addr (socks5_request_sockaddr (he_winsock env s) (Some name))
            (list_outputs env s rl ll addr) (nbio_load s p) (snd (socket_stream_type env s (ps_net p))) (Inr out) (ps_net p')"
          by simp
        with True other \<open>ret = 1\<close> show ?thesis by (metis append_Nil)
      qed
    qed
  qed
qed

text \<open>What does not depend on the original function, or on the real connect at any other address.\<close>

lemma go_or_refuse:
  assumes "\<And>w. fst (socket_stream_type env s w) \<noteq> not_stream"
  obtains (refuse) p1 where "on_net (ask_stream env s True reports) p = (gate_refuse, p1)"
  | (go) p1 where "on_net (ask_stream env s True reports) p = (gate_go, p1)"
      "ps_net p1 = snd (socket_stream_type env s (ps_net p))" "nbio_load s p1 = nbio_load s p"
proof -
  obtain g p1 where g: "on_net (ask_stream env s True reports) p = (g, p1)" by (rule prod.exhaust)
  have "g \<noteq> gate_original" using gate_proxied [OF assms] g by (metis fst_conv on_net_fields(4))
  moreover have "ps_net p1 = snd (socket_stream_type env s (ps_net p))" "nbio_load s p1 = nbio_load s p"
    using asked_net g by (metis snd_conv)+
  ultimately show thesis using g refuse go by (cases g) auto
qed

lemma by_list_same:
  assumes "ro_proxy route = Some px" and "to_sockaddr (he_stack env) px = Inr addr"
    and stream: "\<And>w. fst (socket_stream_type env s w) \<noteq> not_stream"
    and "connect' s addr = he_connect env s addr"
  shows "by_list_loop env original s rl ll route names p =
    by_list_loop (env\<lparr>he_connect := connect'\<rparr>) original' s rl ll route names p"
proof (induction names arbitrary: p)
  case Nil
  then show ?case using assms(1) by simp
next
  case (Cons n names)
  show ?case
    using assms(1,2,4) Cons.IH
    by (cases rule: go_or_refuse [OF stream, of "reporting route p" p, case_names refuse go])
      (simp_all add: Let_def with_connect_parts split: option.split sum.split prod.split dial.split)
qed

lemma by_name_same:
  assumes "ps_config p = Some bound" and "ro_proxy (config_get bound) = Some px"
    and "to_sockaddr (he_stack env) px = Inr addr"
    and stream: "\<And>w. fst (socket_stream_type env s w) \<noteq> not_stream"
    and "connect' s addr = he_connect env s addr"
  shows "connect_by_name_detour env original resolve sys s rl ll node service p =
      connect_by_name_detour (env\<lparr>he_connect := connect'\<rparr>) original' resolve sys s rl ll node service p"
  using assms(1-3,5)
  by (cases rule: go_or_refuse [OF stream, of "reporting (config_get bound) p" p, case_names refuse go])
    (simp_all add: connect_by_name_detour_def Let_def with_connect_parts split: option.split)

lemma connect_ex_same:
  assumes "ps_config p = Some bound" and "ro_proxy (config_get bound) = Some px"
    and "to_sockaddr (he_stack env) px = Inr addr"
    and stream: "\<And>w. fst (socket_stream_type env s w) \<noteq> not_stream"
    and "connect' s addr = he_connect env s addr"
    and "is_inet name" "\<not> is_localhost name" "\<not> sockequal addr name"
  shows "connect_ex_detour env original s name buffer p =
      connect_ex_detour (env\<lparr>he_connect := connect'\<rparr>) original' s name buffer p"
proof -
  obtain v where "to_ip_addr name = Some v" using assms(6) by (auto simp: is_inet_cases)
  then show ?thesis
    using assms(1-3,5-8)
    by (cases rule: go_or_refuse [OF stream, of "reporting (config_get bound) p" p, case_names refuse go])
      (simp_all add: connect_ex_detour_def Let_def with_connect_parts)
qed

text \<open>Success, and what it says.\<close>

lemma by_name_granted:
  assumes "ps_config p = Some bound" and "ro_proxy (config_get bound) = Some px"
    and "to_sockaddr (he_stack env) px = Inr addr"
    and stream: "\<And>w. fst (socket_stream_type env s w) \<noteq> not_stream"
    and run: "connect_by_name_detour env original resolve sys s rl ll node service p = (Inr (ret, Some out), p')"
  shows "ret = 1 \<and> (\<exists>n sv v. node = Some n \<and> service = Some sv \<and> resolve n sv = Some v \<and>
    granted_through env s (route_creds (config_get bound)) addr (socks5_request_ip_addr (he_winsock env s) v)
      (name_outputs env s rl ll) (nbio_load s p) (snd (socket_stream_type env s (ps_net p))) (Inr out) (ps_net p'))"
proof (cases rule: go_or_refuse [OF stream, of "reporting (config_get bound) p" p, case_names refuse go])
  case (refuse p1)
  then show ?thesis using run assms(1,2) by (simp add: connect_by_name_detour_def Let_def split: prod.splits)
next
  case (go p1)
  define found where "found = (case (node, service) of (Some n, Some sv) \<Rightarrow> resolve n sv | _ \<Rightarrow> None)"
  have found: "(case node of None \<Rightarrow> None | Some n \<Rightarrow> (case service of None \<Rightarrow> None | Some sv \<Rightarrow> resolve n sv)) = found"
    by (simp add: found_def split: option.split)
  obtain v where v: "found = Some v"
    using run assms(1,2) go by (cases found) (simp_all add: connect_by_name_detour_def Let_def found split: prod.splits)
  define p2 where "p2 = (if reporting (config_get bound) p then report_connect sys s v (Some px) p1 else p1)"
  have p2: "ps_net p2 = ps_net p1" "nbio_load s p2 = nbio_load s p1" by (simp_all add: p2_def)
  obtain d p3 where d: "proxied_in_scope env s (route_creds (config_get bound)) (he_connect env s addr)
      (socks5_request_ip_addr (he_winsock env s) v) (name_outputs env s rl ll) p2 = (d, p3)" by (rule prod.exhaust)
  have "(Inr (ret, Some out), p') =
      (case d of dial_error e \<Rightarrow> (Inr (e, None), p3) | dial_refused \<Rightarrow> (Inr (0, None), p3)
        | dial_granted (Inl e) \<Rightarrow> (Inl e, p3) | dial_granted (Inr a) \<Rightarrow> (Inr (1, Some a), p3))"
    using run assms(1-3) go v d by (simp add: connect_by_name_detour_def Let_def found p2_def cong: if_cong split: dial.split sum.split)
  then have e: "d = dial_granted (Inr out)" "ret = 1" "p' = p3" by (auto split: dial.splits sum.splits)
  from in_scope_granted [OF d [unfolded e]] p2 go e(2,3) v show ?thesis
    by (auto simp: found_def split: option.splits)
qed

lemma connect_ex_granted:
  assumes "ps_config p = Some bound" and "ro_proxy (config_get bound) = Some px"
    and "to_sockaddr (he_stack env) px = Inr addr"
    and stream: "\<And>w. fst (socket_stream_type env s w) \<noteq> not_stream"
    and "is_inet name" "\<not> is_localhost name" "\<not> sockequal addr name"
    and dial: "\<And>w. fst (he_connect env s addr w) \<in> {0, SOCKET_ERROR}"
    and run: "connect_ex_detour env original s name buffer p = (Inr (1, sent), p')"
  shows "granted_through env s (route_creds (config_get bound)) addr (socks5_request_sockaddr (he_winsock env s) (Some name))
    (send_first env s buffer) (nbio_load s p) (snd (socket_stream_type env s (ps_net p))) (1, sent) (ps_net p')"
proof (cases rule: go_or_refuse [OF stream, of "reporting (config_get bound) p" p, case_names refuse go])
  case (refuse p1)
  then show ?thesis using run assms(1,2,5,6) by (simp add: connect_ex_detour_def on_net_def fail_proxied_connect_def Let_def)
next
  case (go p1)
  obtain v where v: "to_ip_addr name = Some v" using assms(5) by (auto simp: is_inet_cases)
  define p2 where "p2 = (if reporting (config_get bound) p then report_connect ''ConnectEx'' s v (Some px) p1 else p1)"
  have p2: "ps_net p2 = ps_net p1" "nbio_load s p2 = nbio_load s p1" by (simp_all add: p2_def)
  obtain d p3 where d: "proxied_in_scope env s (route_creds (config_get bound)) (he_connect env s addr)
      (socks5_request_sockaddr (he_winsock env s) (Some name)) (send_first env s buffer) p2 = (d, p3)" by (rule prod.exhaust)
  have "(Inr (1, sent), p') =
      (case d of dial_error e \<Rightarrow> (Inr (e, None), p3) | dial_refused \<Rightarrow> (Inr (0, None), p3) | dial_granted a \<Rightarrow> (Inr a, p3))"
    using run assms(1-3,5-7) go v d by (simp add: connect_ex_detour_def Let_def p2_def cong: if_cong split: dial.splits)
  moreover have "d \<noteq> dial_error 1"
  proof
    assume "d = dial_error 1"
    from dial_error_returned [OF d [unfolded this]] obtain w where "fst (he_connect env s addr w) = 1" by blast
    then show False using dial [of w] by (simp add: SOCKET_ERROR_def)
  qed
  ultimately have "d = dial_granted (1, sent)" "p' = p3" by (auto split: dial.splits)
  with in_scope_granted [of env s "route_creds (config_get bound)" addr _ _ p2 "(1, sent)" p3] d go p2 show ?thesis by simp
qed


definition proxy_only :: "SOCKET \<Rightarrow> u8 list \<Rightarrow> 'w \<Rightarrow> int \<times> 'w" where
  "proxy_only s a w = (if a = sockaddr_in_bytes (10, 0, 0, 1) 1080 then (0, w) else (SOCKET_ERROR, w))"


end
