(* ===== verification/Hook_Effects.thy ===== *)
theory Hook_Effects
  imports Hook_Connect
begin

text \<open>
  What the detours leave alone and what they leave behind: calls that are none of the capsule's
  business, the report of a connect, and the state of the caller's socket after a proxied one.
\<close>

section \<open>Calls that pass through\<close>

definition routed :: "u8 list \<Rightarrow> bool" where
  "routed name \<longleftrightarrow> is_inet name \<and> \<not> is_localhost name"

text \<open>What is not the capsule's business passes untouched: without a configuration, for loopback
  and for other address families the result, the sockets and the globals are those of the
  original call; so they are for a datagram socket, apart from the question about its type.\<close>

theorem unrouted_untouched:
  "(ps_config p = None \<or> \<not> routed name \<longrightarrow>
     connect_detour env original syscall s name p = apfst Inr (on_net (original name) p)) \<and>
   (routed name \<and> ps_config p = Some bound \<and> (ro_proxy (config_get bound) \<noteq> None \<or> reporting (config_get bound) p) \<and>
      fst (socket_stream_type env s (ps_net p)) = not_stream \<longrightarrow>
     connect_detour env original syscall s name p =
       apfst Inr (on_net (original name) (snd (on_net (socket_stream_type env s) p))))"
proof (intro conjI impI)
  assume "ps_config p = None \<or> \<not> routed name"
  then show "connect_detour env original syscall s name p = apfst Inr (on_net (original name) p)"
    by (auto simp: connect_detour_def pass_connect_def routed_def on_net_def Let_def split: option.split prod.split)
next
  assume a: "routed name \<and> ps_config p = Some bound \<and> (ro_proxy (config_get bound) \<noteq> None \<or> reporting (config_get bound) p) \<and>
      fst (socket_stream_type env s (ps_net p)) = not_stream"
  obtain w where t: "socket_stream_type env s (ps_net p) = (not_stream, w)"
    using a by (metis prod.collapse)
  have g: "on_net (ask_stream env s (ro_proxy (config_get bound) \<noteq> None) (reporting (config_get bound) p)) p
      = (gate_original, p\<lparr>ps_net := w\<rparr>)"
    using a t by (simp add: ask_stream_def on_net_def)
  show "connect_detour env original syscall s name p =
       apfst Inr (on_net (original name) (snd (on_net (socket_stream_type env s) p)))"
    using a g t by (simp add: connect_detour_def pass_connect_def routed_def on_net_def Let_def split: prod.split)
qed

lemma unrouted_untouched_witness:
  "connect_detour ideal_env (\<lambda>a w. (0, w)) ''connect'' 7 (sockaddr_in_bytes (127, 0, 0, 1) 80) proxied_process =
     (Inr 0, proxied_process)"
proof -
  have "\<not> routed (sockaddr_in_bytes (127, 0, 0, 1) 80)"
    by (simp add: routed_def is_localhost_def) (simp add: sockaddr_in_bytes_def)
  with unrouted_untouched [of proxied_process "sockaddr_in_bytes (127, 0, 0, 1) 80" ideal_env "\<lambda>a w. (0, w)" "''connect''" 7]
  show ?thesis by (simp add: on_net_def)
qed

section \<open>Reports\<close>

definition connect_report :: "string \<Rightarrow> SOCKET \<Rightarrow> u8 list \<Rightarrow> IpAddr option \<Rightarrow> InjecteeMessage" where
  "connect_report syscall s name proxy = create_message_connect
     \<lparr>ic_handle = Some (ucast s), ic_addr = to_ip_addr name, ic_proxy = proxy, ic_syscall = Some syscall\<rparr>"

lemma net_result_queue: "ps_queue (snd (case on_net f p of (ret, q) \<Rightarrow> (h ret, q))) = ps_queue p"
  by (simp add: case_prod_beta)

lemma connect_queue [simp]:
  "ps_queue (snd (pass_connect original name p)) = ps_queue p"
  "ps_queue (snd (connect_by_proxy env original s name route p)) = ps_queue p"
proof -
  show pass: "ps_queue (snd (pass_connect original name p)) = ps_queue p" for p
    by (simp add: pass_connect_def case_prod_beta)
  show "ps_queue (snd (connect_by_proxy env original s name route p)) = ps_queue p"
  proof -
    have "ps_queue q = ps_queue p" if "proxied_in_scope env s creds c r gr p = (d, q)" for creds c r and gr :: "'a \<Rightarrow> unit \<times> 'a" and d q
      using scope_fields that by (metis snd_conv)
    then show ?thesis
      by (auto simp: connect_by_proxy_def pass split: option.split sum.split prod.split dial.split)
  qed
qed

text \<open>A connect is reported once or not at all: one message, naming the destination and the proxy,
  is queued exactly when logging is on, the destination is routable and the socket is known to
  be a stream; the report does not depend on how the connect ends.\<close>

theorem one_report_per_connect:
  "ps_queue (snd (connect_detour env original syscall s name p)) =
     (case ps_config p of
        None \<Rightarrow> ps_queue p
      | Some bound \<Rightarrow>
          if routed name \<and> ro_log (config_get bound) \<and> fst (socket_stream_type env s (ps_net p)) = stream
          then map_option (\<lambda>q. snd (bq_push (connect_report syscall s name (ro_proxy (config_get bound))) q)) (ps_queue p)
          else ps_queue p)"
proof (cases "ps_config p")
  case None
  then show ?thesis by (simp add: connect_detour_def)
next
  case (Some bound)
  show ?thesis
  proof (cases "routed name")
    case False
    then show ?thesis using Some by (auto simp: connect_detour_def routed_def)
  next
    case True
    then obtain v where v: "to_ip_addr name = Some v" by (auto simp: routed_def is_inet_cases)
    let ?route = "config_get bound"
    obtain g p1 where g: "on_net (ask_stream env s (ro_proxy ?route \<noteq> None) (reporting ?route p)) p = (g, p1)"
      by (rule prod.exhaust)
    have p1: "ps_queue p1 = ps_queue p" "g = fst (ask_stream env s (ro_proxy ?route \<noteq> None) (reporting ?route p) (ps_net p))"
      using on_net_fields(1,4) g by (metis snd_conv, metis fst_conv)
    have stays: "ps_queue (snd (connect_detour env original syscall s name p)) =
        (if g = gate_go \<and> reporting ?route p
         then map_option (\<lambda>q. snd (bq_push (connect_report syscall s name (ro_proxy ?route)) q)) (ps_queue p)
         else ps_queue p)"
      using True Some g p1(1) v
      by (cases g) (simp_all add: connect_detour_def routed_def report_connect_def connect_report_def Let_def
          net_result_queue split: option.split)
    have "g = gate_go \<longleftrightarrow> fst (socket_stream_type env s (ps_net p)) = stream" if "reporting ?route p"
      using that unfolding p1(2) gate_go_iff by simp
    with True Some stays show ?thesis by (cases "ps_queue p") (auto simp: reporting_def)
  qed
qed

section \<open>The caller's socket afterwards\<close>

text \<open>
  What is known about socket options: setting the timeouts is read back, setting the mode is, and
  the mode and the timeouts are independent. \<open>mode\<close> is whether the socket is non-blocking.
\<close>

definition option_law :: "'w hook_env \<Rightarrow> SOCKET \<Rightarrow> ('w \<Rightarrow> bool) \<Rightarrow> bool" where
  "option_law env s mode \<longleftrightarrow>
     (\<forall>a b w. he_timeouts env s (he_set_timeouts env s a b w) = (Some a, Some b) \<and>
        mode (he_set_timeouts env s a b w) = mode w) \<and>
     (\<forall>nb w. mode (he_set_nonblocking env s nb w) = nb \<and>
        he_timeouts env s (he_set_nonblocking env s nb w) = he_timeouts env s w)"

text \<open>C23: The caller's socket is handed back as it was taken: whatever happened inside the blocking
  scope, afterwards the two timeouts are the ones read on entry and the mode is the one the
  hooks recorded for the socket; and the body runs on a socket that blocks, with three seconds as
  the timeout of a receive and of a send.\<close>

theorem scope_restores_socket:
  assumes "option_law env s mode" and "he_timeouts env s w = (Some r, Some t)"
  shows "he_timeouts env s (snd (in_blocking_scope env s (Some nb) body w)) = (Some r, Some t) \<and>
    mode (snd (in_blocking_scope env s (Some nb) body w)) = nb \<and>
    (\<exists>w1. scope_enter env s SOCKS_HANDSHAKE_TIMEOUT_MS w = ((r, t), w1) \<and>
      in_blocking_scope env s (Some nb) body w =
        (fst (body w1), scope_leave env s (Some nb) (r, t) (snd (body w1))) \<and>
      \<not> mode w1 \<and> he_timeouts env s w1 = (Some 3000, Some 3000))"
proof -
  let ?w1 = "he_set_nonblocking env s False (he_set_timeouts env s SOCKS_HANDSHAKE_TIMEOUT_MS SOCKS_HANDSHAKE_TIMEOUT_MS w)"
  have "scope_enter env s SOCKS_HANDSHAKE_TIMEOUT_MS w = ((r, t), ?w1)"
    using assms(2) by (simp add: scope_enter_def)
  moreover from this have "in_blocking_scope env s (Some nb) body w =
      (fst (body ?w1), scope_leave env s (Some nb) (r, t) (snd (body ?w1)))"
    by (simp add: in_blocking_scope_def case_prod_beta Let_def)
  moreover have "he_timeouts env s (scope_leave env s (Some nb) (r, t) v) = (Some r, Some t)"
    "mode (scope_leave env s (Some nb) (r, t) v) = nb" for v
    using assms(1) by (simp_all add: option_law_def scope_leave_def)
  moreover have "\<not> mode ?w1" "he_timeouts env s ?w1 = (Some 3000, Some 3000)"
    using assms(1) by (simp_all add: option_law_def SOCKS_HANDSHAKE_TIMEOUT_MS_def)
  ultimately show ?thesis by auto
qed

text \<open>An environment whose state is the two timeouts and the mode.\<close>

definition option_env :: "(u32 \<times> u32 \<times> bool) hook_env" where
  "option_env = \<lparr>he_winsock = (\<lambda>s. \<lparr>ws_send = (\<lambda>bs w. (0, w)), ws_recv = (\<lambda>n w. (None, w))\<rparr>),
     he_connect = (\<lambda>s a w. (0, w)), he_so_type = (\<lambda>s w. (Some SOCK_STREAM, w)),
     he_timeouts = (\<lambda>s (a, b, m). (Some a, Some b)), he_set_timeouts = (\<lambda>s a b (_, _, m). (a, b, m)),
     he_set_nonblocking = (\<lambda>s nb (a, b, _). (a, b, nb)), he_last_error = (\<lambda>w. 0),
     he_set_last_error = (\<lambda>e w. w), he_shutdown = (\<lambda>s w. w), he_sockname = (\<lambda>s w. ([], w)), he_stack = []\<rparr>"

lemma option_env_law: "option_law option_env s (\<lambda>w. snd (snd w))"
  by (auto simp: option_law_def option_env_def split: prod.split)

lemma scope_restores_socket_witness:
  "snd (snd (snd (in_blocking_scope option_env 7 (Some True) (\<lambda>w. (w, w)) (5, 6, True)))) \<and>
   fst (in_blocking_scope option_env 7 (Some True) (\<lambda>w. (w, w)) (5, 6, True)) = (3000, 3000, False)"
proof -
  have "he_timeouts option_env 7 (5, 6, True) = (Some 5, Some 6)" by (simp add: option_env_def)
  from scope_restores_socket [OF option_env_law this, of True "\<lambda>w. (w, w)"] show ?thesis
    by (auto simp: option_env_def)
qed

text \<open>
  A mode the hooks never saw is not restored: the socket comes back blocking.
\<close>

lemma unseen_mode_lost:
  "option_law env s mode \<Longrightarrow> \<not> mode (snd (in_blocking_scope env s None body w))"
  by (simp add: in_blocking_scope_def scope_leave_def option_law_def case_prod_beta Let_def)

section \<open>Where the detours and Winsock's contract part\<close>

text \<open>
  The three BOOL sites hand the \<open>int\<close> of a failed dial to their caller, for whom SOCKET_ERROR is
  a true BOOL.
\<close>

lemma failed_dial_reads_as_success:
  "fst (connect_ex_detour (ideal_env\<lparr>he_connect := (\<lambda>s a w. (SOCKET_ERROR, w))\<rparr>) (\<lambda>w. (0, w)) 7
     (sockaddr_in_bytes (93, 184, 216, 34) 443) None proxied_process) = Inr (SOCKET_ERROR, None)"
proof -
  have env: "he_stack (ideal_env\<lparr>he_connect := f\<rparr>) = he_stack ideal_env"
    "socket_stream_type (ideal_env\<lparr>he_connect := f\<rparr>) = socket_stream_type ideal_env" for f
    by (simp_all add: fun_eq_iff socket_stream_type_def)
  have st: "socket_stream_type ideal_env 7 w = (stream, w)" for w
    by (simp add: socket_stream_type_def ideal_env_def)
  show ?thesis
    using ideal_env_facts
    by (simp add: connect_ex_detour_def Let_def env on_net_def ask_stream_def st to_ip_addr_bytes
        proxied_in_scope_def in_blocking_scope_def scope_enter_def proxied_connect_def SOCKET_ERROR_def
        reporting_def proxied_process_def split: prod.split)
qed

text \<open>With a proxy, a list of loopback addresses only is refused without a word to the error code.\<close>

lemma loopback_list_refused:
  "list_all (\<lambda>n. \<not> routed n) names \<Longrightarrow> ps_config p = Some bound \<Longrightarrow> ro_proxy (config_get bound) \<noteq> None \<Longrightarrow>
     connect_by_list_detour env original s rl ll names p = (Inr (0, None), p)"
proof -
  assume "list_all (\<lambda>n. \<not> routed n) names" "ro_proxy (config_get bound) \<noteq> None" and b: "ps_config p = Some bound"
  then have "by_list_loop env original s rl ll (config_get bound) names p = (Inr (0, None), p)"
    by (induction names) (auto simp: routed_def)
  then show ?thesis using b by (simp add: connect_by_list_detour_def)
qed

text \<open>WSAConnectByName reports the socket's own address as the remote one.\<close>

lemma peer_is_own_address:
  assumes "\<And>w. he_sockname env s w = (local, w)"
  shows "fst (name_outputs env s (Some n) (Some n) w) = Inr (take n local, take n local)"
  using assms by (simp add: name_outputs_def list_outputs_def copy_out_def)

end
