(* ===== verification/Process_Scan.thy ===== *)
theory Process_Scan
  imports Text_Utils
begin

text \<open>
  src/common/winraii.hpp: the walks over the process snapshot, the names they are matched by, the
  watch rule, the bootstrap mapping with its descriptor, and the remote allocation. What Windows
  answers is a parameter; a callback is modelled by the list of the arguments it is called with,
  in order. \<open>encode\<close> is \<open>utf8_encode\<close> (one Win32 conversion).
\<close>

type_synonym DWORD = u32
type_synonym wchar = u16

section \<open>The snapshot\<close>

record process_entry =
  th32ProcessID :: DWORD
  th32ParentProcessID :: DWORD
  szExeFile :: "wchar list"

text \<open>\<open>None\<close>: no snapshot could be taken; \<open>Some []\<close>: it has no first entry.\<close>

definition match_process :: "process_entry list option \<Rightarrow> process_entry list" where
  "match_process snapshot = (case snapshot of None \<Rightarrow> [] | Some entries \<Rightarrow> entries)"

definition exe_suffix :: string where
  "exe_suffix = ''.exe''"

definition strip_exe :: "string \<Rightarrow> string option" where
  "strip_exe name = (if suffix exe_suffix name then Some (take (length name - 4) name) else None)"

definition get_process_name :: "(wchar list \<Rightarrow> string) \<Rightarrow> process_entry list option \<Rightarrow> DWORD \<Rightarrow> string" where
  "get_process_name encode snapshot pid =
     (let result = fold (\<lambda>entry result. if pid = th32ProcessID entry then szExeFile entry else result) (match_process snapshot) [];
          res_u8 = encode result
      in case strip_exe res_u8 of Some name \<Rightarrow> name | None \<Rightarrow> res_u8)"

definition match_process_by_name :: "(wchar list \<Rightarrow> string) \<Rightarrow> process_entry list option \<Rightarrow> (string \<times> DWORD) list" where
  "match_process_by_name encode snapshot =
     List.map_filter (\<lambda>entry. map_option (\<lambda>name. (name, th32ProcessID entry)) (strip_exe (encode (szExeFile entry))))
       (match_process snapshot)"

text \<open>\<open>filepath\<close> is \<open>QueryFullProcessImageNameW\<close> on the process, \<open>None\<close> when it fails.\<close>

definition match_process_by_path ::
  "(wchar list \<Rightarrow> string) \<Rightarrow> (DWORD \<Rightarrow> wchar list option) \<Rightarrow> process_entry list option \<Rightarrow> (string \<times> DWORD) list" where
  "match_process_by_path encode filepath snapshot =
     List.map_filter (\<lambda>entry. map_option (\<lambda>wpath. (encode wpath, th32ProcessID entry)) (filepath (th32ProcessID entry)))
       (match_process snapshot)"

definition enumerate_child_pids :: "process_entry list option \<Rightarrow> DWORD \<Rightarrow> DWORD list" where
  "enumerate_child_pids snapshot pid =
     map th32ProcessID (filter (\<lambda>entry. pid = th32ParentProcessID entry) (match_process snapshot))"

definition enumerate_pids :: "process_entry list option \<Rightarrow> DWORD list" where
  "enumerate_pids snapshot = map th32ProcessID (match_process snapshot)"

definition process_watch_diff :: "DWORD set \<Rightarrow> DWORD list \<Rightarrow> DWORD list" where
  "process_watch_diff prev now = filter (\<lambda>pid. pid \<notin> prev) (sort (remdups now))"

definition path_separator :: "wchar \<Rightarrow> bool" where
  "path_separator c \<longleftrightarrow> c = 0x5C \<or> c = 0x2F"

text \<open>The part after the last separator.\<close>

definition base_name :: "wchar list \<Rightarrow> wchar list" where
  "base_name wpath = rev (takeWhile (\<lambda>c. \<not> path_separator c) (rev wpath))"

definition process_short_name :: "(wchar list \<Rightarrow> string) \<Rightarrow> (DWORD \<Rightarrow> wchar list option) \<Rightarrow> DWORD \<Rightarrow> string option" where
  "process_short_name encode filepath pid =
     (case filepath pid of
        None \<Rightarrow> None
      | Some wpath \<Rightarrow>
          let name = map to_lower (encode (base_name wpath))
          in Some (case strip_exe name of Some stem \<Rightarrow> stem | None \<Rightarrow> name))"

section \<open>The bootstrap mapping\<close>

text \<open>
  The steps of building the descriptor: the token, the size its user record needs, the record, the
  SID text, the descriptor made from the SDDL text; then \<open>CreateFileMappingW\<close> with that text.
\<close>

record 'h mapping_env =
  me_token :: bool
  me_needed :: u32
  me_user :: bool
  me_sid :: "string option"
  me_descriptor :: "string \<Rightarrow> bool"
  me_create :: "string \<Rightarrow> u32 \<Rightarrow> string \<Rightarrow> 'h option"

text \<open>\<open>sizeof(TOKEN_USER)\<close> on the 64-bit target.\<close>

definition token_user_size :: u32 where
  "token_user_size = 16"

definition mapping_sddl :: "string \<Rightarrow> string" where
  "mapping_sddl sid_text = ''D:P(A;;GA;;;SY)(A;;GA;;;'' @ sid_text @ '')''"

definition create_mapping :: "'h mapping_env \<Rightarrow> string \<Rightarrow> u32 \<Rightarrow> 'h option" where
  "create_mapping env name buf_size =
     (if \<not> me_token env then None
      else if me_needed env < token_user_size then None
      else if \<not> me_user env then None
      else (case me_sid env of
              None \<Rightarrow> None
            | Some sid_text \<Rightarrow>
                let sddl = mapping_sddl sid_text in
                if \<not> me_descriptor env sddl then None
                else me_create env sddl buf_size name))"

section \<open>The remote allocation\<close>

text \<open>The address while it is owned, and the addresses given back to \<open>VirtualFreeEx\<close>.\<close>

record virtual_memory =
  vm_addr :: "nat option"
  vm_released :: "nat list"

definition virtual_memory_new :: "nat option \<Rightarrow> virtual_memory" where
  "virtual_memory_new allocated = \<lparr>vm_addr = allocated, vm_released = []\<rparr>"

definition vm_free :: "virtual_memory \<Rightarrow> virtual_memory" where
  "vm_free vm = (case vm_addr vm of None \<Rightarrow> vm | Some a \<Rightarrow> vm\<lparr>vm_addr := None, vm_released := vm_released vm @ [a]\<rparr>)"

definition vm_destroy :: "virtual_memory \<Rightarrow> virtual_memory" where
  "vm_destroy vm = vm_free vm"

section \<open>Lemmas\<close>

lemma strip_exe_iff: "strip_exe name = Some stem \<longleftrightarrow> name = stem @ exe_suffix"
  by (auto simp: strip_exe_def suffix_def exe_suffix_def)

lemma no_snapshot_no_calls [simp]:
  "match_process_by_name encode None = []" "match_process_by_path encode filepath None = []"
  "enumerate_child_pids None pid = []" "enumerate_pids None = []"
  by (simp_all add: match_process_by_name_def match_process_by_path_def enumerate_child_pids_def enumerate_pids_def
      match_process_def List.map_filter_def)

text \<open>A name is offered to the selectors exactly when a process runs under it with \<open>.exe\<close>.\<close>

lemma matched_names:
  "(name, pid) \<in> set (match_process_by_name encode snapshot) \<longleftrightarrow>
     (\<exists>entry \<in> set (match_process snapshot). th32ProcessID entry = pid \<and> encode (szExeFile entry) = name @ exe_suffix)"
  by (force simp: match_process_by_name_def List.map_filter_def strip_exe_iff [symmetric])

text \<open>\<open>process_watch_diff\<close> lists, in ascending order and once each, the pids that are there now and
  were not there before.\<close>

theorem watch_diff_spec:
  "set (process_watch_diff prev now) = set now - prev \<and> sorted (process_watch_diff prev now) \<and>
   distinct (process_watch_diff prev now)"
  by (auto simp: process_watch_diff_def sorted_wrt_filter)

text \<open>No mapping without the explicit descriptor: whatever fails on the way, either there is no
  mapping, or it was created with full access for SYSTEM and the current user and nobody else.\<close>

theorem mapping_fails_closed:
  "create_mapping env name n = Some h \<Longrightarrow>
     \<exists>sid_text. me_sid env = Some sid_text \<and> me_create env (''D:P(A;;GA;;;SY)(A;;GA;;;'' @ sid_text @ '')'') n name = Some h"
  by (auto simp: create_mapping_def mapping_sddl_def Let_def split: if_splits option.splits)

text \<open>The allocation goes back once, however often it is released before its destructor runs.\<close>

theorem allocation_released_once:
  "vm_released (vm_destroy ((vm_free ^^ n) (virtual_memory_new allocated))) = (case allocated of None \<Rightarrow> [] | Some a \<Rightarrow> [a])"
proof -
  have once: "(vm_free ^^ Suc n) (virtual_memory_new allocated) = vm_free (virtual_memory_new allocated)" for n
    by (induction n) (auto simp: vm_free_def virtual_memory_new_def split: option.split)
  have "vm_destroy ((vm_free ^^ n) (virtual_memory_new allocated)) = (vm_free ^^ Suc n) (virtual_memory_new allocated)"
    by (simp add: vm_destroy_def)
  then show ?thesis unfolding once by (simp add: vm_free_def virtual_memory_new_def split: option.split)
qed

end
