(* ===== verification/Injector.thy ===== *)
theory Injector
  imports Ipc_Schema Process_Scan
begin

text \<open>
  src/injector/injector.hpp: the bootstrap records (a token and an open mapping per pid), the two
  steps of an injection with every rollback, the residency test, and the process selectors.
  What Windows answers (allocation, remote thread, snapshot, ...) is a parameter of each call;
  the token mutex makes every operation on the records atomic.
\<close>

section \<open>The records\<close>

record bootstrap_store =
  bs_tokens :: "DWORD \<rightharpoonup> u8 list"
  bs_mappings :: "DWORD \<rightharpoonup> port_mapping_payload"

definition bootstrap_store_new :: bootstrap_store where
  "bootstrap_store_new = \<lparr>bs_tokens = (\<lambda>_. None), bs_mappings = (\<lambda>_. None)\<rparr>"

definition remember_token :: "DWORD \<Rightarrow> u8 list \<Rightarrow> bootstrap_store \<Rightarrow> bootstrap_store" where
  "remember_token pid token b = b\<lparr>bs_tokens := (bs_tokens b)(pid \<mapsto> token)\<rparr>"

definition forget_token :: "DWORD \<Rightarrow> bootstrap_store \<Rightarrow> bootstrap_store" where
  "forget_token pid b = b\<lparr>bs_tokens := (bs_tokens b)(pid := None), bs_mappings := (bs_mappings b)(pid := None)\<rparr>"

definition forget_bootstrap :: "DWORD \<Rightarrow> u8 list \<Rightarrow> bootstrap_store \<Rightarrow> bool \<times> bootstrap_store" where
  "forget_bootstrap pid token b =
     (case bs_tokens b pid of
        None \<Rightarrow> (False, b)
      | Some t \<Rightarrow>
          if t \<noteq> token then (False, b)
          else (True, b\<lparr>bs_tokens := (bs_tokens b)(pid := None), bs_mappings := (bs_mappings b)(pid := None)\<rparr>))"

definition token_matches :: "DWORD \<Rightarrow> u8 list option \<Rightarrow> bootstrap_store \<Rightarrow> bool" where
  "token_matches pid presented b =
     (case presented of
        None \<Rightarrow> False
      | Some got \<Rightarrow>
          (case bs_tokens b pid of
             None \<Rightarrow> False
           | Some expected \<Rightarrow>
               length expected = length got \<and> list_all2 (\<lambda>a b. a = b) expected got))"

definition token_of :: "port_mapping_payload \<Rightarrow> u8 list" where
  "token_of payload = take port_mapping_token_size (pm_token payload)"

section \<open>Publishing\<close>

text \<open>\<open>draw\<close> is the random device, \<open>mapped\<close> and \<open>viewed\<close> whether the mapping was created and viewed.\<close>

definition publish ::
  "(nat \<Rightarrow> u32 option) \<Rightarrow> bool \<Rightarrow> bool \<Rightarrow> DWORD \<Rightarrow> u16 \<Rightarrow> bootstrap_store \<Rightarrow> u8 list option \<times> bootstrap_store" where
  "publish draw mapped viewed pid port b =
     (case get_port_mapping_payload draw port of
        None \<Rightarrow> (None, b)
      | Some payload \<Rightarrow>
          if \<not> mapped then (None, b)
          else if \<not> viewed then (None, b)
          else let token = token_of payload in
            (Some token, b\<lparr>bs_tokens := (bs_tokens b)(pid \<mapsto> token), bs_mappings := (bs_mappings b)(pid \<mapsto> payload)\<rparr>))"

section \<open>Loading\<close>

text \<open>The answers of one remote load, in the order they are asked for.\<close>

record remote_load =
  rl_allocated :: bool
  rl_written :: bool
  rl_loader :: bool
  rl_thread :: bool
  rl_finished :: bool
  rl_resident :: bool
  rl_exit_code :: "u32 option"

text \<open>\<open>already\<close> is the caller's flag; the result is the BOOL, the flag and the records.\<close>

definition load_into ::
  "DWORD \<Rightarrow> u8 list \<Rightarrow> remote_load \<Rightarrow> bool \<Rightarrow> bootstrap_store \<Rightarrow> (bool \<times> bool) \<times> bootstrap_store" where
  "load_into pid token rl already b =
     (let fail = ((False, already), snd (forget_bootstrap pid token b)) in
      if \<not> rl_allocated rl then fail
      else if \<not> rl_written rl then fail
      else if \<not> rl_loader rl then fail
      else if \<not> rl_thread rl then fail
      else if \<not> rl_finished rl then
        (if rl_resident rl then ((True, True), b) else fail)
      else (case rl_exit_code rl of
              None \<Rightarrow> fail
            | Some module_handle \<Rightarrow> if module_handle = 0 then fail else ((True, already), b)))"

text \<open>What the rest of \<open>inject\<close> asks of the system.\<close>

record injection_env =
  ie_opened :: bool
  ie_wow64 :: "bool option"
  ie_resident :: bool
  ie_injectee_found :: bool
  ie_draw :: "nat \<Rightarrow> u32 option"
  ie_mapped :: bool
  ie_viewed :: bool
  ie_load :: remote_load

definition inject_process ::
  "injection_env \<Rightarrow> DWORD \<Rightarrow> u16 \<Rightarrow> bool \<Rightarrow> bootstrap_store \<Rightarrow> (bool \<times> bool) \<times> bootstrap_store" where
  "inject_process env pid port already b =
     (case publish (ie_draw env) (ie_mapped env) (ie_viewed env) pid port b of
        (None, b1) \<Rightarrow> ((False, already), b1)
      | (Some token, b1) \<Rightarrow> load_into pid token (ie_load env) already b1)"

definition injector_inject :: "injection_env \<Rightarrow> DWORD \<Rightarrow> u16 \<Rightarrow> bootstrap_store \<Rightarrow> (bool \<times> bool) \<times> bootstrap_store" where
  "injector_inject env pid port b =
     (if \<not> ie_opened env then ((False, False), b)
      else (case ie_wow64 env of
              None \<Rightarrow> ((False, False), b)
            | Some isWoW64 \<Rightarrow>
                let already = ie_resident env in
                if ie_injectee_found env then inject_process env pid port already b
                else ((False, already), b)))"

section \<open>Is the capsule resident?\<close>

definition injectee_filename :: string where
  "injectee_filename = ''encapsule-injectee.dll''"

definition injectee_wow64_filename :: string where
  "injectee_wow64_filename = ''encapsule-injectee32.dll''"

definition fold_wchar :: "wchar \<Rightarrow> wchar" where
  "fold_wchar c = (if c \<ge> 65 \<and> c \<le> 90 then c + 32 else c)"

definition widen :: "char \<Rightarrow> wchar" where
  "widen c = of_char c"

text \<open>\<open>module\<close> is the name before its terminator.\<close>

fun module_name_matches :: "wchar list \<Rightarrow> string \<Rightarrow> bool" where
  "module_name_matches module [] = (module = [])"
| "module_name_matches [] (e # es) = False"
| "module_name_matches (m # ms) (e # es) =
     (if fold_wchar m \<noteq> fold_wchar (widen e) then False else module_name_matches ms es)"

definition module_is_ours :: "wchar list \<Rightarrow> string \<Rightarrow> bool" where
  "module_is_ours module name =
     (if module_name_matches module name then True
      else let extension = ''.dll'' in
        if \<not> (length extension \<le> length name \<and> drop (length name - length extension) name = extension) then False
        else module_name_matches module (take (length name - length extension) name))"

text \<open>\<open>modules\<close> is what the snapshot enumerates, \<open>None\<close> when it cannot be taken.\<close>

definition module_resident :: "wchar list list option \<Rightarrow> bool \<Rightarrow> bool" where
  "module_resident modules is_wow64 =
     (let name = (if is_wow64 then injectee_wow64_filename else injectee_filename) in
      case modules of None \<Rightarrow> False | Some ms \<Rightarrow> list_ex (\<lambda>m. module_is_ours m name) ms)"

section \<open>Selecting processes\<close>

text \<open>The pids the callback is called with, in order.\<close>

definition pid_by_name_wildcard :: "(wchar list \<Rightarrow> string) \<Rightarrow> process_entry list option \<Rightarrow> string \<Rightarrow> DWORD list" where
  "pid_by_name_wildcard encode snapshot name =
     map snd (filter (\<lambda>(pname, pid). filename_wildcard_match name pname) (match_process_by_name encode snapshot))"

definition pid_by_name_regex ::
  "(wchar list \<Rightarrow> string) \<Rightarrow> (string \<Rightarrow> string \<Rightarrow> bool option) \<Rightarrow> process_entry list option \<Rightarrow> string \<Rightarrow> DWORD list" where
  "pid_by_name_regex encode regex_match snapshot name =
     map snd (filter (\<lambda>(pname, pid). regex_match_filename regex_match name pname = Some True)
       (match_process_by_name encode snapshot))"

definition pid_by_path_wildcard ::
  "(wchar list \<Rightarrow> string) \<Rightarrow> (DWORD \<Rightarrow> wchar list option) \<Rightarrow> process_entry list option \<Rightarrow> string \<Rightarrow> DWORD list" where
  "pid_by_path_wildcard encode filepath snapshot path =
     map snd (filter (\<lambda>(ppath, pid). filename_wildcard_match path ppath) (match_process_by_path encode filepath snapshot))"

definition pid_by_path_regex ::
  "(wchar list \<Rightarrow> string) \<Rightarrow> (DWORD \<Rightarrow> wchar list option) \<Rightarrow> (string \<Rightarrow> string \<Rightarrow> bool option) \<Rightarrow>
     process_entry list option \<Rightarrow> string \<Rightarrow> DWORD list" where
  "pid_by_path_regex encode filepath regex_match snapshot path =
     map snd (filter (\<lambda>(ppath, pid). regex_match_filename regex_match path ppath = Some True)
       (match_process_by_path encode filepath snapshot))"

section \<open>Lemmas\<close>

lemma token_matches_iff: "token_matches pid presented b \<longleftrightarrow> presented \<noteq> None \<and> bs_tokens b pid = presented"
  by (auto simp: token_matches_def list_all2_eq [symmetric] list_all2_lengthD split: option.splits)

text \<open>The two records are the halves of one publish.\<close>

definition store_ok :: "bootstrap_store \<Rightarrow> bool" where
  "store_ok b \<longleftrightarrow> (\<forall>pid. bs_tokens b pid = map_option token_of (bs_mappings b pid))"

lemma store_ok_new: "store_ok bootstrap_store_new"
  by (simp add: store_ok_def bootstrap_store_new_def)

lemma store_ok_forget: "store_ok b \<Longrightarrow> store_ok (forget_token pid b)"
  by (simp add: store_ok_def forget_token_def)

lemma forget_bootstrap_result:
  "forget_bootstrap pid token b = (if bs_tokens b pid = Some token then (True, forget_token pid b) else (False, b))"
  by (auto simp: forget_bootstrap_def forget_token_def split: option.split)

lemma publish_result:
  "publish draw mapped viewed pid port b =
     (case get_port_mapping_payload draw port of
        None \<Rightarrow> (None, b)
      | Some payload \<Rightarrow>
          if mapped \<and> viewed
          then (Some (token_of payload), b\<lparr>bs_tokens := (bs_tokens b)(pid \<mapsto> token_of payload),
                  bs_mappings := (bs_mappings b)(pid \<mapsto> payload)\<rparr>)
          else (None, b))"
  by (simp add: publish_def Let_def split: option.split)

lemma load_into_result:
  "fst (fst (load_into pid token rl already b)) \<Longrightarrow> snd (load_into pid token rl already b) = b"
  "\<not> fst (fst (load_into pid token rl already b)) \<Longrightarrow>
     snd (load_into pid token rl already b) = (if bs_tokens b pid = Some token then forget_token pid b else b)"
  by (auto simp: load_into_def Let_def forget_bootstrap_result split: option.splits if_splits)

lemma load_into_success:
  "fst (fst (load_into pid token rl already b)) \<longleftrightarrow>
     rl_allocated rl \<and> rl_written rl \<and> rl_loader rl \<and> rl_thread rl \<and>
     (if rl_finished rl then rl_exit_code rl \<noteq> None \<and> rl_exit_code rl \<noteq> Some 0 else rl_resident rl)"
  by (auto simp: load_into_def Let_def split: option.splits)

lemma forget_published:
  "forget_token pid (b\<lparr>bs_tokens := (bs_tokens b)(pid \<mapsto> t), bs_mappings := (bs_mappings b)(pid \<mapsto> m)\<rparr>) = forget_token pid b"
  by (simp add: forget_token_def)

lemma inject_cases:
  obtains (unpublished) "\<not> fst (fst (injector_inject env pid port b))" "snd (injector_inject env pid port b) = b"
  | (rolled_back) "\<not> fst (fst (injector_inject env pid port b))" "snd (injector_inject env pid port b) = forget_token pid b"
  | (published) payload where "fst (fst (injector_inject env pid port b))"
      "get_port_mapping_payload (ie_draw env) port = Some payload"
      "snd (injector_inject env pid port b) = b\<lparr>bs_tokens := (bs_tokens b)(pid \<mapsto> token_of payload),
         bs_mappings := (bs_mappings b)(pid \<mapsto> payload)\<rparr>"
proof (cases "ie_opened env \<and> ie_wow64 env \<noteq> None \<and> ie_injectee_found env")
  case False
  then show thesis by (intro unpublished) (auto simp: injector_inject_def Let_def split: option.split)
next
  case True
  then have inj: "injector_inject env pid port b = inject_process env pid port (ie_resident env) b"
    by (auto simp: injector_inject_def Let_def)
  show thesis
  proof (cases "\<exists>payload. get_port_mapping_payload (ie_draw env) port = Some payload \<and> ie_mapped env \<and> ie_viewed env")
    case False
    then show thesis
      by (intro unpublished) (auto simp: inj inject_process_def publish_result split: option.splits)
  next
    case True
    then obtain payload where p: "get_port_mapping_payload (ie_draw env) port = Some payload" "ie_mapped env" "ie_viewed env"
      by blast
    let ?b = "b\<lparr>bs_tokens := (bs_tokens b)(pid \<mapsto> token_of payload), bs_mappings := (bs_mappings b)(pid \<mapsto> payload)\<rparr>"
    have l: "injector_inject env pid port b = load_into pid (token_of payload) (ie_load env) (ie_resident env) ?b"
      using p by (simp add: inj inject_process_def publish_result)
    show thesis
    proof (cases "fst (fst (injector_inject env pid port b))")
      case True
      then show thesis using p(1) load_into_result(1) by (intro published [OF True p(1)]) (simp add: l)
    next
      case False
      then show thesis
        using load_into_result(2) [of pid "token_of payload" "ie_load env" "ie_resident env" ?b] forget_published
        by (intro rolled_back) (simp_all add: l)
    qed
  qed
qed

lemma inject_success:
  assumes "fst (fst (injector_inject env pid port b))"
  shows "rl_resident (ie_load env) \<or> rl_finished (ie_load env) \<and> rl_exit_code (ie_load env) \<notin> {None, Some 0}"
proof -
  obtain token b1 where "fst (fst (load_into pid token (ie_load env) (ie_resident env) b1))"
    using assms
    by (auto simp: injector_inject_def inject_process_def Let_def split: option.splits if_splits prod.splits)
  then show ?thesis by (auto simp: load_into_success split: if_splits)
qed

lemma store_ok_inject: "store_ok b \<Longrightarrow> store_ok (snd (injector_inject env pid port b))"
  by (rule inject_cases [of env pid port b]) (auto simp: store_ok_forget, simp add: store_ok_def)

text \<open>What the server relies on: the records of a pid change only through its own injection or
  retirement, a retired pid has no token, and no call breaks the pairing of the two records.\<close>

locale bootstrap_records =
  fixes token :: "'b \<Rightarrow> 'p \<Rightarrow> 't option"
    and inject :: "'e \<Rightarrow> 'p \<Rightarrow> 'b \<Rightarrow> 'r \<times> 'b"
    and forget :: "'p \<Rightarrow> 'b \<Rightarrow> 'b"
    and paired :: "'b \<Rightarrow> bool"
  assumes forget_token: "token (forget pid b) pid' = (if pid' = pid then None else token b pid')"
    and inject_other: "pid' \<noteq> pid \<Longrightarrow> token (snd (inject env pid b)) pid' = token b pid'"
    and forget_paired: "paired b \<Longrightarrow> paired (forget pid b)"
    and inject_paired: "paired b \<Longrightarrow> paired (snd (inject env pid b))"
begin

lemma spared_token:
  "token b pid' = Some t \<Longrightarrow> pid' \<noteq> pid \<Longrightarrow>
     token (snd (inject env pid b)) pid' = Some t \<and> token (forget pid b) pid' = Some t"
  by (simp add: inject_other forget_token)

text \<open>A retirement on overflow, when the record hands back a pid.\<close>

lemma evicted_token:
  "stale \<noteq> Some pid \<Longrightarrow> token (case stale of None \<Rightarrow> b | Some old \<Rightarrow> forget old b) pid = token b pid"
  "paired b \<Longrightarrow> paired (case stale of None \<Rightarrow> b | Some old \<Rightarrow> forget old b)"
  by (auto simp: forget_token forget_paired split: option.split)

end

lemma inject_other_tokens:
  "pid' \<noteq> pid \<Longrightarrow> bs_tokens (snd (injector_inject env pid port b)) pid' = bs_tokens b pid'"
  by (rule inject_cases [of env pid port b]) (auto simp: forget_token_def)

interpretation records: bootstrap_records bs_tokens "\<lambda>env pid b. injector_inject env pid port b" forget_token store_ok for port
  by unfold_locales (simp_all add: inject_other_tokens store_ok_inject store_ok_forget, simp add: forget_token_def)

lemma module_name_matches_iff:
  "module_name_matches m e \<longleftrightarrow> map fold_wchar m = map (fold_wchar \<circ> widen) e"
  by (induction m e rule: module_name_matches.induct) auto

section \<open>Properties\<close>

text \<open>C19: An injection succeeds whole or leaves nothing of itself: on success the pid's token and
  mapping are the two halves of the payload just drawn; on failure the records are the old
  ones, or the pid has neither token nor mapping; no other pid is touched, and a success means
  that the remote load ran to a non-zero module or was found resident.\<close>

theorem injection_all_or_nothing:
  "let r = injector_inject env pid port b in
    (if fst (fst r)
      then (\<exists>payload. get_port_mapping_payload (ie_draw env) port = Some payload \<and>
             bs_tokens (snd r) pid = Some (token_of payload) \<and> bs_mappings (snd r) pid = Some payload) \<and>
           (rl_resident (ie_load env) \<or> rl_finished (ie_load env) \<and> rl_exit_code (ie_load env) \<notin> {None, Some 0})
      else snd r = b \<or> snd r = forget_token pid b) \<and>
    (pid' \<noteq> pid \<longrightarrow> bs_tokens (snd r) pid' = bs_tokens b pid' \<and> bs_mappings (snd r) pid' = bs_mappings b pid')"
proof -
  have "rl_resident (ie_load env) \<or> rl_finished (ie_load env) \<and> rl_exit_code (ie_load env) \<notin> {None, Some 0}"
    if "fst (fst (injector_inject env pid port b))"
    using inject_success [OF that] by blast
  then show ?thesis
    unfolding Let_def
    by (rule_tac inject_cases [of env pid port b]) (auto simp: forget_token_def)
qed

lemma injection_all_or_nothing_witness:
  "bs_tokens (snd (injector_inject \<lparr>ie_opened = False, ie_wow64 = None, ie_resident = False, ie_injectee_found = False,
     ie_draw = (\<lambda>_. None), ie_mapped = False, ie_viewed = False, ie_load = \<lparr>rl_allocated = False, rl_written = False,
     rl_loader = False, rl_thread = False, rl_finished = False, rl_resident = False, rl_exit_code = None\<rparr>\<rparr> 4 80
     bootstrap_store_new)) 5 = None"
  using injection_all_or_nothing [of "\<lparr>ie_opened = False, ie_wow64 = None, ie_resident = False, ie_injectee_found = False,
     ie_draw = (\<lambda>_. None), ie_mapped = False, ie_viewed = False, ie_load = \<lparr>rl_allocated = False, rl_written = False,
     rl_loader = False, rl_thread = False, rl_finished = False, rl_resident = False, rl_exit_code = None\<rparr>\<rparr>" 4 80
     bootstrap_store_new 5]
  by (simp add: Let_def bootstrap_store_new_def)

text \<open>The residency test recognises exactly the capsule's two spellings, with and without the
  extension, in any capitalisation.\<close>

theorem capsule_module_names:
  "(module_is_ours m injectee_filename \<longleftrightarrow>
     map fold_wchar m = map widen ''encapsule-injectee.dll'' \<or> map fold_wchar m = map widen ''encapsule-injectee'') \<and>
   (module_is_ours m injectee_wow64_filename \<longleftrightarrow>
     map fold_wchar m = map widen ''encapsule-injectee32.dll'' \<or> map fold_wchar m = map widen ''encapsule-injectee32'')"
  by (simp_all add: module_is_ours_def module_name_matches_iff injectee_filename_def injectee_wow64_filename_def
      fold_wchar_def widen_def)

text \<open>
  A capsule reads its mapping once. Injecting its pid again while it has no session rotates the
  token, and the one the capsule holds is refused from then on.
\<close>

lemma reinjection_locks_out_resident_capsule:
  assumes "token_matches pid (Some t) b" and "fst (fst (injector_inject env pid port b))"
    and "get_port_mapping_payload (ie_draw env) port = Some payload" and "token_of payload \<noteq> t"
  shows "\<not> token_matches pid (Some t) (snd (injector_inject env pid port b))"
  using assms by (rule_tac inject_cases [of env pid port b]) (auto simp: token_matches_iff)

end
