(* ===== verification/Server.thy ===== *)
theory Server
  imports Injector
begin

text \<open>
  src/injector/server.hpp: the client table, the record of kept bootstraps, the injector's
  verdicts, the configuration pushed to every session, and the sessions themselves. Sessions
  are numbered; every handler and every front-end call runs as one step. \<open>sv_sent\<close> lists the
  configurations in the order their coroutines are spawned. Server_Threads takes the steps apart into
  locked regions, Config_Stream follows the bytes on each socket.
\<close>

section \<open>Client table\<close>

type_synonym clients = "(DWORD \<times> nat) list"

definition clients_insert :: "DWORD \<Rightarrow> nat \<Rightarrow> clients \<Rightarrow> bool \<times> clients" where
  "clients_insert pid sid cs =
     (if map_of cs pid \<noteq> None then (False, cs) else (True, insort_key fst (pid, sid) cs))"

definition clients_contains :: "DWORD \<Rightarrow> clients \<Rightarrow> bool" where
  "clients_contains pid cs \<longleftrightarrow> map_of cs pid \<noteq> None"

definition clients_find :: "DWORD \<Rightarrow> clients \<Rightarrow> nat option" where
  "clients_find pid cs = map_of cs pid"

definition clients_erase :: "DWORD \<Rightarrow> clients \<Rightarrow> bool \<times> clients" where
  "clients_erase pid cs = (map_of cs pid \<noteq> None, filter (\<lambda>c. fst c \<noteq> pid) cs)"

definition clients_snapshot :: "clients \<Rightarrow> nat list" where
  "clients_snapshot cs = map snd cs"

section \<open>Kept bootstraps\<close>

definition kept_cap :: nat where
  "kept_cap = 4096"

text \<open>The list, oldest first; the index map beside it finds the same elements.\<close>

definition kept_drop :: "DWORD \<Rightarrow> DWORD list \<Rightarrow> DWORD list" where
  "kept_drop pid order = filter (\<lambda>p. p \<noteq> pid) order"

definition kept_keep :: "DWORD \<Rightarrow> DWORD list \<Rightarrow> DWORD option \<times> DWORD list" where
  "kept_keep pid order =
     (let order' = kept_drop pid order @ [pid] in
      if length order' \<le> kept_cap then (None, order') else (Some (hd order'), tl order'))"

section \<open>The server\<close>

datatype session_end = lost | retired

datatype inject_verdict = attached | already_encapsulated | already_registered | not_started | failed

definition verdict_ok :: "inject_verdict \<Rightarrow> bool" where
  "verdict_ok v \<longleftrightarrow> v = attached \<or> v = already_encapsulated"

record injectee_session =
  se_pid :: DWORD
  se_opened :: bool
  se_connected :: bool

record injector_server =
  sv_clients :: clients
  sv_kept :: "DWORD list"
  sv_config :: InjectorConfig
  sv_port :: u16
  sv_store :: bootstrap_store
  sv_sessions :: "nat \<Rightarrow> injectee_session"
  sv_sent :: "(nat \<times> InjectorConfig) list"
  sv_subpids :: "(u16 \<times> bool) list"
  sv_exited :: bool

definition no_port :: u16 where
  "no_port = 0xffff"

definition session_init :: injectee_session where
  "session_init = \<lparr>se_pid = 0, se_opened = False, se_connected = True\<rparr>"

definition server_init :: injector_server where
  "server_init = \<lparr>sv_clients = [], sv_kept = [],
     sv_config = \<lparr>cf_addr = None, cf_log = None, cf_subprocess = None, cf_username = None, cf_password = None\<rparr>,
     sv_port = no_port, sv_store = bootstrap_store_new, sv_sessions = (\<lambda>_. session_init), sv_sent = [],
     sv_subpids = [], sv_exited = False\<rparr>"

definition set_port :: "u16 \<Rightarrow> injector_server \<Rightarrow> injector_server" where
  "set_port port sv = sv\<lparr>sv_port := port\<rparr>"

definition server_inject :: "injection_env \<Rightarrow> DWORD \<Rightarrow> injector_server \<Rightarrow> inject_verdict \<times> injector_server" where
  "server_inject env pid sv =
     (if sv_port sv = no_port then (not_started, sv)
      else if clients_contains pid (sv_clients sv) then (already_registered, sv)
      else
        let ((ok, resident), store) = injector_inject env pid (sv_port sv) (sv_store sv);
            sv1 = sv\<lparr>sv_store := store\<rparr>
        in if \<not> ok then (failed, sv1)
           else (if resident then already_encapsulated else attached,
                 sv1\<lparr>sv_kept := kept_drop pid (sv_kept sv1)\<rparr>))"

definition server_open :: "DWORD \<Rightarrow> nat \<Rightarrow> injector_server \<Rightarrow> bool \<times> injector_server" where
  "server_open pid sid sv =
     (case clients_insert pid sid (sv_clients sv) of
        (False, _) \<Rightarrow> (False, sv)
      | (True, cs) \<Rightarrow> (True, sv\<lparr>sv_clients := cs, sv_kept := kept_drop pid (sv_kept sv)\<rparr>))"

definition send_config :: "nat \<Rightarrow> InjectorConfig \<Rightarrow> injector_server \<Rightarrow> injector_server" where
  "send_config sid cfg sv = sv\<lparr>sv_sent := sv_sent sv @ [(sid, cfg)]\<rparr>"

definition broadcast_config :: "injector_server \<Rightarrow> injector_server" where
  "broadcast_config sv =
     sv\<lparr>sv_sent := sv_sent sv @ map (\<lambda>sid. (sid, sv_config sv)) (clients_snapshot (sv_clients sv))\<rparr>"

definition config_proxy :: "IpAddr option \<Rightarrow> injector_server \<Rightarrow> injector_server" where
  "config_proxy v sv = broadcast_config (sv\<lparr>sv_config := (sv_config sv)\<lparr>cf_addr := v\<rparr>\<rparr>)"

definition set_proxy :: "ip_address \<Rightarrow> u32 \<Rightarrow> injector_server \<Rightarrow> injector_server" where
  "set_proxy addr port sv = config_proxy (Some (from_asio addr (ucast port))) sv"

definition clear_proxy :: "injector_server \<Rightarrow> injector_server" where
  "clear_proxy sv = config_proxy None sv"

definition set_proxy_credentials :: "string option \<Rightarrow> string option \<Rightarrow> injector_server \<Rightarrow> injector_server" where
  "set_proxy_credentials username password sv =
     (let c1 = (case username of None \<Rightarrow> sv_config sv | Some u \<Rightarrow> (sv_config sv)\<lparr>cf_username := Some u\<rparr>);
          c2 = (case password of None \<Rightarrow> c1 | Some p \<Rightarrow> c1\<lparr>cf_password := Some p\<rparr>)
      in broadcast_config (sv\<lparr>sv_config := c2\<rparr>))"

definition clear_proxy_credentials :: "injector_server \<Rightarrow> injector_server" where
  "clear_proxy_credentials sv =
     broadcast_config (sv\<lparr>sv_config := (sv_config sv)\<lparr>cf_username := None, cf_password := None\<rparr>\<rparr>)"

definition enable_log :: "bool \<Rightarrow> injector_server \<Rightarrow> injector_server" where
  "enable_log enable sv = broadcast_config (sv\<lparr>sv_config := (sv_config sv)\<lparr>cf_log := Some enable\<rparr>\<rparr>)"

definition enable_subprocess :: "bool \<Rightarrow> injector_server \<Rightarrow> injector_server" where
  "enable_subprocess enable sv = broadcast_config (sv\<lparr>sv_config := (sv_config sv)\<lparr>cf_subprocess := Some enable\<rparr>\<rparr>)"

definition disable_log :: "injector_server \<Rightarrow> injector_server" where
  "disable_log sv = enable_log False sv"

definition disable_subprocess :: "injector_server \<Rightarrow> injector_server" where
  "disable_subprocess sv = enable_subprocess False sv"

definition get_config :: "injector_server \<Rightarrow> InjectorConfig" where
  "get_config sv = sv_config sv"

definition server_remove :: "DWORD \<Rightarrow> session_end \<Rightarrow> injector_server \<Rightarrow> bool \<times> injector_server" where
  "server_remove pid end sv =
     (let sv1 = (case end of
            retired \<Rightarrow> sv\<lparr>sv_kept := kept_drop pid (sv_kept sv), sv_store := forget_token pid (sv_store sv)\<rparr>
          | lost \<Rightarrow>
              (case kept_keep pid (sv_kept sv) of
                 (None, kept) \<Rightarrow> sv\<lparr>sv_kept := kept\<rparr>
               | (Some stale, kept) \<Rightarrow> sv\<lparr>sv_kept := kept, sv_store := forget_token stale (sv_store sv)\<rparr>));
          (erased, cs) = clients_erase pid (sv_clients sv1)
      in (erased, sv1\<lparr>sv_clients := cs\<rparr>))"

section \<open>Sessions\<close>

definition put_session :: "nat \<Rightarrow> injectee_session \<Rightarrow> injector_server \<Rightarrow> injector_server" where
  "put_session sid se sv = sv\<lparr>sv_sessions := (sv_sessions sv)(sid := se)\<rparr>"

text \<open>\<open>process_close\<close> of the command line tool: the last session gone ends it.\<close>

definition process_close :: "injector_server \<Rightarrow> injector_server" where
  "process_close sv = (if length (sv_clients sv) = 0 then sv\<lparr>sv_exited := True\<rparr> else sv)"

definition session_halt :: "nat \<Rightarrow> session_end \<Rightarrow> injector_server \<Rightarrow> injector_server" where
  "session_halt sid end sv =
     (let se = sv_sessions sv sid;
          sv1 = put_session sid (se\<lparr>se_connected := False, se_opened := False\<rparr>) sv
      in if \<not> se_opened se then sv1
         else process_close (snd (server_remove (se_pid se) end sv1)))"

definition server_close :: "DWORD \<Rightarrow> injector_server \<Rightarrow> bool \<times> injector_server" where
  "server_close pid sv =
     (case clients_find pid (sv_clients sv) of
        None \<Rightarrow> (False, sv)
      | Some sid \<Rightarrow> (True, session_halt sid retired sv))"

text \<open>\<open>children\<close> are the processes found below the pid, each with what its injection meets.\<close>

definition inject_children :: "(injection_env \<times> DWORD) list \<Rightarrow> injector_server \<Rightarrow> injector_server" where
  "inject_children children sv = fold (\<lambda>(env, child) s. snd (server_inject env child s)) children sv"

definition process_hello ::
  "(injection_env \<times> DWORD) list \<Rightarrow> nat \<Rightarrow> DWORD \<Rightarrow> u8 list option \<Rightarrow> injector_server \<Rightarrow> injector_server" where
  "process_hello children sid pid token sv =
     (if \<not> token_matches pid token (sv_store sv) then session_halt sid lost sv
      else
        let (ok, sv1) = server_open pid sid sv;
            sv2 = put_session sid ((sv_sessions sv1 sid)\<lparr>se_pid := pid, se_opened := ok\<rparr>) sv1;
            cfg = sv_config sv2;
            sv3 = (if cf_subprocess cfg = Some True
                   then inject_children children sv2 else sv2)
        in send_config sid cfg sv3)"

definition process_injectee ::
  "(injection_env \<times> DWORD) list \<Rightarrow> injection_env \<Rightarrow> nat \<Rightarrow> InjecteeMessage \<Rightarrow> injector_server \<Rightarrow> injector_server" where
  "process_injectee children env sid msg sv =
     (case compare_message_pid msg of
        Some pid \<Rightarrow> process_hello children sid pid (im_token msg) sv
      | None \<Rightarrow>
          (case compare_message_connect msg of
             Some _ \<Rightarrow> sv
           | None \<Rightarrow>
               (case compare_message_subpid msg of
                  Some pid \<Rightarrow>
                    (case server_inject env pid sv of
                       (verdict, sv1) \<Rightarrow> sv1\<lparr>sv_subpids := sv_subpids sv1 @ [(ucast pid, verdict_ok verdict)]\<rparr>)
                | None \<Rightarrow> sv)))"

section \<open>Steps\<close>

datatype server_cmd =
    SetPort u16
  | Inject injection_env DWORD
  | Message "(injection_env \<times> DWORD) list" injection_env nat InjecteeMessage
  | LostSession nat
  | CloseClient DWORD
  | SetProxy ip_address u32
  | ClearProxy
  | SetCredentials "string option" "string option"
  | ClearCredentials
  | EnableLog bool
  | EnableSubprocess bool

fun server_step :: "server_cmd \<Rightarrow> injector_server \<Rightarrow> injector_server" where
  "server_step (SetPort port) sv = set_port port sv"
| "server_step (Inject env pid) sv = snd (server_inject env pid sv)"
| "server_step (Message children env sid msg) sv = process_injectee children env sid msg sv"
| "server_step (LostSession sid) sv = session_halt sid lost sv"
| "server_step (CloseClient pid) sv = snd (server_close pid sv)"
| "server_step (SetProxy addr port) sv = set_proxy addr port sv"
| "server_step ClearProxy sv = clear_proxy sv"
| "server_step (SetCredentials u p) sv = set_proxy_credentials u p sv"
| "server_step ClearCredentials sv = clear_proxy_credentials sv"
| "server_step (EnableLog b) sv = enable_log b sv"
| "server_step (EnableSubprocess b) sv = enable_subprocess b sv"

definition server_run :: "server_cmd list \<Rightarrow> injector_server \<Rightarrow> injector_server" where
  "server_run cs sv = fold server_step cs sv"

section \<open>Lemmas on the tables\<close>

lemma map_of_insort: "map_of cs pid = None \<Longrightarrow> map_of (insort_key fst (pid, sid) cs) = (map_of cs)(pid \<mapsto> sid)"
  by (induction cs) (auto simp: fun_eq_iff split: if_splits)

lemma map_of_erase: "map_of (filter (\<lambda>c. fst c \<noteq> pid) cs) = (map_of cs)(pid := None)"
  by (induction cs) (auto simp: fun_eq_iff)

lemma distinct_insort_fst:
  "map_of cs pid = None \<Longrightarrow> distinct (map fst cs) \<Longrightarrow> distinct (map fst (insort_key fst (pid, sid) cs))"
  by (simp add: distinct_insort_key map_of_eq_None_iff)

lemma kept_drop_facts [simp]:
  "set (kept_drop pid order) = set order - {pid}" "distinct order \<Longrightarrow> distinct (kept_drop pid order)"
  "length (kept_drop pid order) \<le> length order"
  by (auto simp: kept_drop_def)

lemma kept_cap_pos: "0 < kept_cap"
  by (simp add: kept_cap_def)

lemma kept_keep_result:
  assumes "kept_keep pid order = (stale, order')" and "distinct order" and "length order \<le> kept_cap"
  shows "distinct order' \<and> length order' \<le> kept_cap \<and> pid \<in> set order' \<and> set order' \<subseteq> insert pid (set order) \<and>
    (case stale of None \<Rightarrow> set order' = insert pid (set order)
     | Some old \<Rightarrow> old \<in> set order \<and> old \<noteq> pid \<and> set order' = insert pid (set order) - {old})"
proof (cases "length (kept_drop pid order @ [pid]) \<le> kept_cap")
  case True
  then show ?thesis using assms by (auto simp: kept_keep_def Let_def)
next
  case False
  have "length (kept_drop pid order) \<le> kept_cap" using assms(3) kept_drop_facts(3) le_trans by blast
  then have full: "length (kept_drop pid order) = kept_cap" using False by simp
  then obtain old rest where cons: "kept_drop pid order = old # rest"
    using kept_cap_pos by (cases "kept_drop pid order") simp_all
  have old: "old \<in> set order" "old \<noteq> pid" using kept_drop_facts(1) [of pid order] cons by auto
  have dist: "distinct (old # rest)" using kept_drop_facts(2) [OF assms(2), of pid] cons by simp
  have "set rest = set order - {pid} - {old}" using kept_drop_facts(1) [of pid order] cons dist by auto
  moreover have "stale = Some old" "order' = rest @ [pid]" using assms(1) False cons by (auto simp: kept_keep_def Let_def)
  ultimately show ?thesis using full cons old dist by auto
qed

section \<open>The invariant\<close>

definition registered :: "injector_server \<Rightarrow> DWORD \<Rightarrow> nat option" where
  "registered sv pid = map_of (sv_clients sv) pid"

definition server_ok :: "injector_server \<Rightarrow> bool" where
  "server_ok sv \<longleftrightarrow> distinct (map fst (sv_clients sv)) \<and> distinct (sv_kept sv) \<and> length (sv_kept sv) \<le> kept_cap \<and>
     (\<forall>pid \<in> set (sv_kept sv). registered sv pid = None) \<and>
     (\<forall>pid. registered sv pid \<noteq> None \<longrightarrow> bs_tokens (sv_store sv) pid \<noteq> None) \<and> store_ok (sv_store sv) \<and>
     (\<forall>sid. se_opened (sv_sessions sv sid) \<longrightarrow> registered sv (se_pid (sv_sessions sv sid)) = Some sid)"

lemma registered_simps [simp]:
  "registered (sv\<lparr>sv_kept := k\<rparr>) = registered sv" "registered (sv\<lparr>sv_config := c\<rparr>) = registered sv"
  "registered (sv\<lparr>sv_port := port\<rparr>) = registered sv" "registered (sv\<lparr>sv_store := b\<rparr>) = registered sv"
  "registered (sv\<lparr>sv_sessions := ss\<rparr>) = registered sv" "registered (sv\<lparr>sv_sent := l\<rparr>) = registered sv"
  "registered (sv\<lparr>sv_subpids := x\<rparr>) = registered sv" "registered (sv\<lparr>sv_exited := e\<rparr>) = registered sv"
  "registered (sv\<lparr>sv_clients := filter (\<lambda>c. fst c \<noteq> pid) (sv_clients sv)\<rparr>) = (registered sv)(pid := None)"
  by (simp_all add: fun_eq_iff registered_def map_of_erase)

lemma server_ok_init: "server_ok server_init"
  by (simp add: server_ok_def server_init_def registered_def session_init_def store_ok_new kept_cap_def)

text \<open>What the invariant does not look at.\<close>

lemma server_ok_irrelevant [simp]:
  "server_ok (sv\<lparr>sv_config := c\<rparr>) = server_ok sv" "server_ok (sv\<lparr>sv_port := port\<rparr>) = server_ok sv"
  "server_ok (sv\<lparr>sv_sent := l\<rparr>) = server_ok sv" "server_ok (sv\<lparr>sv_subpids := x\<rparr>) = server_ok sv"
  "server_ok (sv\<lparr>sv_exited := b\<rparr>) = server_ok sv"
  by (simp_all add: server_ok_def)

lemma server_ok_broadcast [simp]: "server_ok (broadcast_config sv) = server_ok sv"
  by (simp add: broadcast_config_def)

lemma server_inject_fields [simp]:
  "sv_clients (snd (server_inject env pid sv)) = sv_clients sv" "sv_sessions (snd (server_inject env pid sv)) = sv_sessions sv"
  "sv_config (snd (server_inject env pid sv)) = sv_config sv" "sv_port (snd (server_inject env pid sv)) = sv_port sv"
  "sv_sent (snd (server_inject env pid sv)) = sv_sent sv"
  by (simp_all add: server_inject_def Let_def split: prod.split)

lemma server_ok_inject: "server_ok sv \<Longrightarrow> server_ok (snd (server_inject env pid sv))"
proof -
  assume ok: "server_ok sv"
  show ?thesis
  proof (cases "sv_port sv = no_port \<or> clients_contains pid (sv_clients sv)")
    case False
    then have free: "registered sv pid = None" by (simp add: clients_contains_def registered_def)
    obtain o' r store where i: "injector_inject env pid (sv_port sv) (sv_store sv) = ((o', r), store)"
      by (metis prod.exhaust)
    have st: "store_ok store" "pid' \<noteq> pid \<Longrightarrow> bs_tokens store pid' = bs_tokens (sv_store sv) pid'" for pid'
      using records.inject_paired [where port = "sv_port sv" and b = "sv_store sv" and env = env and pid = pid]
        records.inject_other [where port = "sv_port sv" and b = "sv_store sv" and env = env and pid = pid and pid' = pid'] ok i
      by (simp_all add: server_ok_def)
    have keep: "registered sv pid' \<noteq> None \<Longrightarrow> bs_tokens store pid' \<noteq> None" for pid'
      using ok free st(2) [of pid'] by (cases "pid' = pid") (auto simp: server_ok_def)
    have len: "length (kept_drop pid (sv_kept sv)) \<le> kept_cap"
      using ok kept_drop_facts(3) le_trans unfolding server_ok_def by blast
    have "snd (server_inject env pid sv) = (if o' then sv\<lparr>sv_store := store, sv_kept := kept_drop pid (sv_kept sv)\<rparr>
        else sv\<lparr>sv_store := store\<rparr>)"
      using False i by (simp add: server_inject_def)
    then show ?thesis
      using ok st(1) keep len by (auto simp: server_ok_def)
  next
    case True
    then have "snd (server_inject env pid sv) = sv" by (auto simp: server_inject_def)
    with ok show ?thesis by simp
  qed
qed

lemma server_ok_halt: "server_ok sv \<Longrightarrow> server_ok (session_halt sid end sv)"
proof -
  assume ok: "server_ok sv"
  define se where "se = sv_sessions sv sid"
  define sv1 where "sv1 = put_session sid (se\<lparr>se_connected := False, se_opened := False\<rparr>) sv"
  show ?thesis
  proof (cases "se_opened se")
    case False
    then have "session_halt sid end sv = sv1" by (simp add: session_halt_def se_def sv1_def Let_def)
    then show ?thesis using ok by (auto simp: sv1_def put_session_def server_ok_def)
  next
    case True
    let ?pid = "se_pid se"
    have own: "registered sv ?pid = Some sid" using ok True by (simp add: server_ok_def se_def)
    have mine: "registered sv (se_pid (sv_sessions sv sid')) = Some sid'" if "se_opened (sv_sessions sv sid')" for sid'
      using ok that by (simp add: server_ok_def)
    have halt: "server_ok (session_halt sid end sv) = server_ok (snd (server_remove ?pid end sv1))"
      using True by (simp add: session_halt_def se_def sv1_def Let_def process_close_def)
    have other: "?pid \<noteq> se_pid (sv_sessions sv sid')" if "sid' \<noteq> sid" "se_opened (sv_sessions sv sid')" for sid'
      using own mine [OF that(2)] that(1) by auto
    have frame: "server_ok (sv1\<lparr>sv_kept := k, sv_store := st, sv_clients := snd (clients_erase ?pid (sv_clients sv))\<rparr>)"
      (is "server_ok ?X")
      if "distinct k" "length k \<le> kept_cap" "set k \<subseteq> insert ?pid (set (sv_kept sv))" "store_ok st"
        "\<And>pid. pid \<noteq> ?pid \<Longrightarrow> registered sv pid \<noteq> None \<Longrightarrow> bs_tokens st pid \<noteq> None" for k st
    proof -
      have reg: "registered ?X = (registered sv)(?pid := None)"
        by (simp add: registered_def fun_eq_iff clients_erase_def map_of_erase)
      have dist: "distinct (map fst (sv_clients ?X))"
        using ok by (simp add: server_ok_def clients_erase_def distinct_map_filter)
      have free: "\<forall>pid \<in> set (sv_kept sv). registered sv pid = None" using ok by (simp add: server_ok_def)
      have opened: "registered ?X (se_pid (sv_sessions ?X sid')) = Some sid'" if "se_opened (sv_sessions ?X sid')" for sid'
      proof -
        have "sid' \<noteq> sid" "se_opened (sv_sessions sv sid')" "sv_sessions ?X sid' = sv_sessions sv sid'"
          using that by (auto simp: sv1_def put_session_def split: if_splits)
        then show ?thesis using other mine reg by (metis fun_upd_apply)
      qed
      have "\<forall>pid. registered ?X pid \<noteq> None \<longrightarrow> bs_tokens st pid \<noteq> None"
        using that(5) by (simp add: reg)
      moreover have "\<forall>pid \<in> set k. registered ?X pid = None" using free that(3) by (auto simp: reg)
      ultimately show ?thesis using dist opened that(1,2,4) unfolding server_ok_def by simp
    qed
    have cl: "sv_clients sv1 = sv_clients sv" "sv_kept sv1 = sv_kept sv" "sv_store sv1 = sv_store sv"
      by (simp_all add: sv1_def put_session_def)
    have k: "distinct (sv_kept sv)" "length (sv_kept sv) \<le> kept_cap" "store_ok (sv_store sv)"
      "\<And>pid. registered sv pid \<noteq> None \<Longrightarrow> bs_tokens (sv_store sv) pid \<noteq> None"
      "\<And>pid. pid \<in> set (sv_kept sv) \<Longrightarrow> registered sv pid = None"
      using ok by (auto simp: server_ok_def)
    have len: "length (kept_drop ?pid (sv_kept sv)) \<le> kept_cap"
      using k(2) kept_drop_facts(3) le_trans by blast
    have "server_ok (snd (server_remove ?pid end sv1))"
    proof (cases "end")
      case retired
      have "server_ok (sv1\<lparr>sv_kept := kept_drop ?pid (sv_kept sv), sv_store := forget_token ?pid (sv_store sv),
          sv_clients := snd (clients_erase ?pid (sv_clients sv))\<rparr>)"
        using k len by (intro frame) (auto simp: records.forget_paired records.forget_token)
      then show ?thesis using retired cl by (simp add: server_remove_def clients_erase_def)
    next
      case lost
      obtain stale kept where kk: "kept_keep ?pid (sv_kept sv) = (stale, kept)" by (metis prod.exhaust)
      note kr = kept_keep_result [OF kk k(1,2)]
      show ?thesis
      proof (cases stale)
        case None
        have "server_ok (sv1\<lparr>sv_kept := kept, sv_store := sv_store sv,
            sv_clients := snd (clients_erase ?pid (sv_clients sv))\<rparr>)"
          using k kr by (intro frame) auto
        moreover have "sv1\<lparr>sv_kept := kept, sv_store := sv_store sv, sv_clients := cs\<rparr> =
            sv1\<lparr>sv_kept := kept, sv_clients := cs\<rparr>" for cs
          using cl by (cases sv1) simp
        ultimately show ?thesis using lost None kk cl by (simp add: server_remove_def clients_erase_def)
      next
        case (Some old)
        have "registered sv old = None" using kr Some k(5) by auto
        then have "server_ok (sv1\<lparr>sv_kept := kept, sv_store := forget_token old (sv_store sv),
            sv_clients := snd (clients_erase ?pid (sv_clients sv))\<rparr>)"
          using k kr Some by (intro frame) (auto simp: records.forget_paired records.forget_token)
        then show ?thesis using lost Some kk cl by (simp add: server_remove_def clients_erase_def)
      qed
    qed
    then show ?thesis using halt by simp
  qed
qed


lemma server_ok_hello_open:
  assumes ok: "server_ok sv" and tok: "token_matches pid token (sv_store sv)"
  shows "server_ok (let (opened, sv1) = server_open pid sid sv in
    put_session sid ((sv_sessions sv1 sid)\<lparr>se_pid := pid, se_opened := opened\<rparr>) sv1)"
proof (cases "map_of (sv_clients sv) pid")
  case (Some other)
  then have "server_open pid sid sv = (False, sv)" by (simp add: server_open_def clients_insert_def)
  then show ?thesis using ok by (auto simp: server_ok_def put_session_def)
next
  case None
  define cs where "cs = insort_key fst (pid, sid) (sv_clients sv)"
  define se where "se = (sv_sessions sv sid)\<lparr>se_pid := pid, se_opened := True\<rparr>"
  define X where "X = put_session sid se (sv\<lparr>sv_clients := cs, sv_kept := kept_drop pid (sv_kept sv)\<rparr>)"
  have X: "(let (opened, sv1) = server_open pid sid sv in
      put_session sid ((sv_sessions sv1 sid)\<lparr>se_pid := pid, se_opened := opened\<rparr>) sv1) = X"
    using None by (simp add: server_open_def clients_insert_def X_def cs_def se_def)
  have reg: "registered X = (registered sv)(pid \<mapsto> sid)"
    using map_of_insort [OF None] by (simp add: X_def put_session_def registered_def fun_eq_iff cs_def)
  have f: "sv_clients X = cs" "sv_kept X = kept_drop pid (sv_kept sv)" "sv_store X = sv_store sv"
    "sv_sessions X = (sv_sessions sv)(sid := se)"
    by (simp_all add: X_def put_session_def)
  have free: "registered sv pid = None" using None by (simp add: registered_def)
  have dist: "distinct (map fst cs)" using distinct_insort_fst [OF None] ok by (simp add: cs_def server_ok_def)
  have len: "length (kept_drop pid (sv_kept sv)) \<le> kept_cap"
    using ok kept_drop_facts(3) le_trans unfolding server_ok_def by blast
  have opened: "registered X (se_pid (sv_sessions X sid')) = Some sid'" if "se_opened (sv_sessions X sid')" for sid'
  proof (cases "sid' = sid")
    case True
    then show ?thesis by (simp add: f reg se_def)
  next
    case False
    then have "se_opened (sv_sessions sv sid')" using that by (simp add: f)
    then have "registered sv (se_pid (sv_sessions sv sid')) = Some sid'" using ok by (simp add: server_ok_def)
    then show ?thesis using False free by (auto simp: f reg)
  qed
  have "bs_tokens (sv_store sv) pid \<noteq> None" using tok by (auto simp: token_matches_iff)
  then have "server_ok X" using ok dist len opened unfolding server_ok_def f by (auto simp: reg)
  then show ?thesis by (simp only: X)
qed

lemma server_ok_fold_inject:
  "server_ok sv \<Longrightarrow> server_ok (inject_children children sv)"
  by (induction children arbitrary: sv) (auto simp: inject_children_def server_ok_inject)

lemma server_ok_hello: "server_ok sv \<Longrightarrow> server_ok (process_hello children sid pid token sv)"
  using server_ok_hello_open [of sv pid token sid] server_ok_fold_inject server_ok_halt
  by (auto simp: process_hello_def Let_def send_config_def split: prod.split)

lemma server_ok_step: "server_ok sv \<Longrightarrow> server_ok (server_step c sv)"
proof (cases c)
  case (Message children env sid msg)
  moreover assume "server_ok sv"
  ultimately show ?thesis
    using server_ok_hello server_ok_inject [of sv env]
    by (auto simp: process_injectee_def split: option.split prod.split) (metis snd_conv)
qed (simp_all add: set_port_def server_ok_inject server_ok_halt server_close_def set_proxy_def config_proxy_def
    clear_proxy_def set_proxy_credentials_def clear_proxy_credentials_def enable_log_def enable_subprocess_def
    Let_def split: option.split)

interpretation server_steps: invariant_steps server_step server_ok server_init
  by unfold_locales (simp_all add: server_ok_step server_ok_init)

lemma server_ok_run: "server_ok sv \<Longrightarrow> server_ok (server_run cs sv)"
  unfolding server_run_def by (rule server_steps.kept_inv)


section \<open>What a step does to the registrations and to the records\<close>

lemma registered_broadcast [simp]: "registered (broadcast_config sv) = registered sv"
  by (simp add: broadcast_config_def)

lemma registered_put [simp]: "registered (put_session sid se sv) = registered sv"
  by (simp add: put_session_def)

lemma registered_inject [simp]: "registered (snd (server_inject env pid sv)) = registered sv"
  by (simp add: registered_def fun_eq_iff)

lemma inject_children_fields [simp]:
  "registered (inject_children children sv) = registered sv"
  "sv_config (inject_children children sv) = sv_config sv"
  "sv_sent (inject_children children sv) = sv_sent sv"
  by (induction children arbitrary: sv) (auto simp: inject_children_def)

lemma halt_fields [simp]:
  "sv_config (session_halt sid end sv) = sv_config sv" "sv_sent (session_halt sid end sv) = sv_sent sv"
  by (simp_all add: session_halt_def server_remove_def process_close_def put_session_def Let_def
      split: session_end.split option.split prod.split)

lemma registered_remove [simp]: "registered (snd (server_remove pid end sv)) = (registered sv)(pid := None)"
  by (simp add: server_remove_def Let_def registered_def fun_eq_iff clients_erase_def map_of_erase
      split: session_end.split option.split prod.split)

lemma registered_halt:
  "registered (session_halt sid end sv) =
     (if se_opened (sv_sessions sv sid) then (registered sv)(se_pid (sv_sessions sv sid) := None) else registered sv)"
  by (simp add: session_halt_def Let_def process_close_def)

lemma registered_open:
  "registered (snd (server_open pid sid sv)) = (if registered sv pid = None then (registered sv)(pid \<mapsto> sid) else registered sv)"
  by (simp add: server_open_def clients_insert_def registered_def fun_eq_iff map_of_insort)

lemma open_fields [simp]:
  "sv_config (snd (server_open pid sid sv)) = sv_config sv" "sv_sent (snd (server_open pid sid sv)) = sv_sent sv"
  "sv_store (snd (server_open pid sid sv)) = sv_store sv" "sv_port (snd (server_open pid sid sv)) = sv_port sv"
  by (simp_all add: server_open_def split: prod.split bool.split)

lemma put_fields [simp]:
  "sv_config (put_session sid se sv) = sv_config sv" "sv_sent (put_session sid se sv) = sv_sent sv"
  "sv_store (put_session sid se sv) = sv_store sv" "sv_port (put_session sid se sv) = sv_port sv"
  "sv_clients (put_session sid se sv) = sv_clients sv" "sv_kept (put_session sid se sv) = sv_kept sv"
  by (simp_all add: put_session_def)

lemma registered_hello:
  "registered (process_hello children sid pid token sv) =
     (if token_matches pid token (sv_store sv)
      then (if registered sv pid = None then (registered sv)(pid \<mapsto> sid) else registered sv)
      else registered (session_halt sid lost sv))"
proof -
  have "registered (send_config s c sv') = registered sv'" for s c sv' by (simp add: send_config_def)
  then show ?thesis
    using registered_open [of pid sid sv] by (simp add: process_hello_def Let_def split_def)
qed

lemma hello_fields:
  "sv_config (process_hello children sid pid token sv) = sv_config sv"
  "sv_sent (process_hello children sid pid token sv) =
     sv_sent sv @ (if token_matches pid token (sv_store sv) then [(sid, sv_config sv)] else [])"
  by (simp_all add: process_hello_def Let_def split_def send_config_def)

text \<open>Only the hello, the end of a session and a front end's setter touch the two.\<close>

lemma process_injectee_fields:
  "registered (process_injectee children env sid msg sv) =
     (case compare_message_pid msg of None \<Rightarrow> registered sv
      | Some pid \<Rightarrow> registered (process_hello children sid pid (im_token msg) sv))"
  "sv_config (process_injectee children env sid msg sv) = sv_config sv"
  "sv_sent (process_injectee children env sid msg sv) = sv_sent sv @
     (case compare_message_pid msg of None \<Rightarrow> []
      | Some pid \<Rightarrow> if token_matches pid (im_token msg) (sv_store sv) then [(sid, sv_config sv)] else [])"
proof -
  have "registered sv1 = registered sv" "sv_config sv1 = sv_config sv" "sv_sent sv1 = sv_sent sv"
    if "server_inject env pid sv = (v, sv1)" for pid v sv1
    using registered_inject [of env pid sv] server_inject_fields [of env pid sv] that by simp_all
  then show "registered (process_injectee children env sid msg sv) =
     (case compare_message_pid msg of None \<Rightarrow> registered sv
      | Some pid \<Rightarrow> registered (process_hello children sid pid (im_token msg) sv))"
    "sv_config (process_injectee children env sid msg sv) = sv_config sv"
    "sv_sent (process_injectee children env sid msg sv) = sv_sent sv @
     (case compare_message_pid msg of None \<Rightarrow> []
      | Some pid \<Rightarrow> if token_matches pid (im_token msg) (sv_store sv) then [(sid, sv_config sv)] else [])"
    by (simp_all add: process_injectee_def hello_fields split: option.split prod.split)
qed

lemmas setter_defs = set_proxy_def config_proxy_def clear_proxy_def set_proxy_credentials_def
  clear_proxy_credentials_def enable_log_def enable_subprocess_def

lemma registered_step:
  assumes "registered (server_step c sv) pid = Some sid" and "registered sv pid \<noteq> Some sid"
  shows "\<exists>children env msg. c = Message children env sid msg \<and> compare_message_pid msg = Some pid \<and>
    token_matches pid (im_token msg) (sv_store sv)"
proof (cases c)
  case (Message children env sid' msg)
  then show ?thesis
    using assms
    by (auto simp: process_injectee_fields registered_hello registered_halt split: option.splits if_splits)
next
  case (CloseClient pid')
  then show ?thesis
    using assms by (auto simp: server_close_def registered_halt split: option.splits if_splits)
qed (use assms in \<open>auto simp: set_port_def setter_defs Let_def registered_halt split: if_splits option.splits\<close>)


text \<open>The configuration a session was sent last.\<close>

definition last_sent :: "nat \<Rightarrow> injector_server \<Rightarrow> InjectorConfig option" where
  "last_sent sid sv = map_of (rev (sv_sent sv)) sid"

definition all_current :: "injector_server \<Rightarrow> bool" where
  "all_current sv \<longleftrightarrow> (\<forall>pid sid. registered sv pid = Some sid \<longrightarrow> last_sent sid sv = Some (sv_config sv))"

lemma all_currentI:
  "(\<And>pid sid. registered sv pid = Some sid \<Longrightarrow> last_sent sid sv = Some (sv_config sv)) \<Longrightarrow> all_current sv"
  by (simp add: all_current_def)

lemma map_of_const: "map_of (map ((\<lambda>x. (x, c)) \<circ> f) xs) x = (if x \<in> f ` set xs then Some c else None)"
  by (induction xs) auto

lemma all_current_broadcast: "all_current (broadcast_config sv)"
proof (rule all_currentI)
  fix pid sid
  assume "registered (broadcast_config sv) pid = Some sid"
  then have "sid \<in> snd ` set (sv_clients sv)" by (force simp: registered_def dest: map_of_SomeD)
  then show "last_sent sid (broadcast_config sv) = Some (sv_config (broadcast_config sv))"
    by (simp add: last_sent_def broadcast_config_def clients_snapshot_def rev_map map_add_def map_of_const)
qed

lemma all_current_mono:
  assumes "all_current sv" and "\<And>pid sid. registered sv' pid = Some sid \<Longrightarrow> registered sv pid = Some sid"
    and "sv_sent sv' = sv_sent sv" and "sv_config sv' = sv_config sv"
  shows "all_current sv'"
  using assms unfolding all_current_def last_sent_def by metis

lemma all_current_halt: "all_current sv \<Longrightarrow> all_current (session_halt sid end sv)"
  by (rule all_current_mono) (auto simp: registered_halt split: if_splits)

lemma all_current_hello: "all_current sv \<Longrightarrow> all_current (process_hello children sid pid token sv)"
proof (cases "token_matches pid token (sv_store sv)")
  case True
  moreover assume "all_current sv"
  ultimately show ?thesis
    by (auto simp: all_current_def last_sent_def hello_fields registered_hello split: if_splits)
next
  case False
  moreover assume "all_current sv"
  ultimately show ?thesis using all_current_halt by (simp add: process_hello_def)
qed

lemma all_current_step: "all_current sv \<Longrightarrow> all_current (server_step c sv)"
proof (cases c)
  case (Message children env sid msg)
  moreover assume "all_current sv"
  moreover have "compare_message_pid msg = Some pid \<Longrightarrow>
      process_injectee children env sid msg sv = process_hello children sid pid (im_token msg) sv" for pid
    by (simp add: process_injectee_def)
  ultimately show ?thesis
    using all_current_hello all_current_mono [of sv "process_injectee children env sid msg sv"]
    by (cases "compare_message_pid msg") (simp_all add: process_injectee_fields)
next
  case (Inject env pid)
  moreover assume "all_current sv"
  ultimately show ?thesis using all_current_mono [of sv "snd (server_inject env pid sv)"] by simp
next
  case (SetPort port)
  moreover assume "all_current sv"
  ultimately show ?thesis using all_current_mono [of sv "set_port port sv"] by (simp add: set_port_def)
qed (simp_all add: setter_defs Let_def all_current_broadcast all_current_halt server_close_def split: option.split)

lemma all_current_init: "all_current server_init"
  by (simp add: all_current_def server_init_def registered_def)

interpretation push_steps: invariant_steps server_step all_current server_init
  by unfold_locales (simp_all add: all_current_step all_current_init)

lemma all_current_run: "all_current (server_run cs server_init)"
  unfolding server_run_def by (rule push_steps.always_inv)

section \<open>How long a kept bootstrap lives\<close>

text \<open>How many pids were kept after this one.\<close>

definition behind :: "DWORD \<Rightarrow> DWORD list \<Rightarrow> nat" where
  "behind pid order = length (tl (dropWhile (\<lambda>p. p \<noteq> pid) order))"

lemma behind_absent [simp]: "pid \<notin> set order \<Longrightarrow> behind pid order = 0"
  by (induction order) (auto simp: behind_def)

lemma behind_split [simp]: "pid \<notin> set xs \<Longrightarrow> behind pid (xs @ pid # ys) = length ys"
  by (induction xs) (auto simp: behind_def)

lemma behind_drop: "distinct order \<Longrightarrow> behind pid (kept_drop p order) \<le> behind pid order"
proof (cases "pid \<in> set order \<and> p \<noteq> pid")
  case True
  moreover assume "distinct order"
  ultimately obtain xs ys where s: "order = xs @ pid # ys" "pid \<notin> set xs"
    by (metis split_list_first)
  moreover have "kept_drop p order = kept_drop p xs @ pid # kept_drop p ys" using s True by (simp add: kept_drop_def)
  moreover have "pid \<notin> set (kept_drop p xs)" using s by simp
  ultimately show ?thesis by simp
qed auto

lemma kept_keep_behind:
  assumes k: "kept_keep p order = (stale, order')" and "distinct order" and b: "Suc (behind pid order) < kept_cap"
    and p: "pid \<in> set order \<or> p = pid"
  shows "stale \<noteq> Some pid \<and> behind pid order' \<le> (if p = pid then 0 else Suc (behind pid order))"
proof (cases "p = pid")
  case True
  define rest where "rest = kept_drop pid order"
  have fresh: "pid \<notin> set rest" by (simp add: rest_def)
  show ?thesis
  proof (cases rest)
    case Nil
    then show ?thesis using k True b by (simp add: kept_keep_def rest_def behind_def Let_def) auto
  next
    case (Cons x xs)
    then show ?thesis
      using k True fresh behind_split [of pid rest "[]"] behind_split [of pid xs "[]"]
      by (auto simp: kept_keep_def rest_def Let_def split: if_splits)
  qed
next
  case False
  then obtain xs ys where s: "order = xs @ pid # ys" "pid \<notin> set xs" using p by (metis split_list_first)
  define xs' ys' where "xs' = kept_drop p xs" and "ys' = kept_drop p ys @ [p]"
  have o: "kept_drop p order @ [p] = xs' @ pid # ys'" using False s by (simp add: kept_drop_def xs'_def ys'_def)
  have fresh: "pid \<notin> set xs'" using s by (simp add: xs'_def)
  have len: "length ys' \<le> Suc (behind pid order)" using s kept_drop_facts(3) [of p ys] by (simp add: ys'_def)
  show ?thesis
  proof (cases xs')
    case Nil
    then have "length (kept_drop p order @ [p]) \<le> kept_cap" using o len b by simp
    moreover have "behind pid (kept_drop p order @ [p]) = length ys'" using behind_split [OF fresh, of ys'] by (simp add: o)
    ultimately show ?thesis using k len False by (auto simp: kept_keep_def Let_def simp del: length_append)
  next
    case (Cons x rest)
    then show ?thesis
      using k o len fresh False behind_split [of pid rest ys'] behind_split [of pid xs' ys']
      by (auto simp: kept_keep_def Let_def split: if_splits)
  qed
qed


text \<open>The commands that neither inject the pid nor close a client.\<close>

fun spares :: "DWORD \<Rightarrow> server_cmd \<Rightarrow> bool" where
  "spares pid (Inject env p) = (p \<noteq> pid)"
| "spares pid (Message children env sid msg) = (pid \<notin> snd ` set children \<and> compare_message_subpid msg \<noteq> Some pid)"
| "spares pid (CloseClient p) = False"
| "spares pid _ = True"

definition holds_token :: "DWORD \<Rightarrow> u8 list \<Rightarrow> nat \<Rightarrow> injector_server \<Rightarrow> bool" where
  "holds_token pid t n sv \<longleftrightarrow> server_ok sv \<and> bs_tokens (sv_store sv) pid = Some t \<and> behind pid (sv_kept sv) \<le> n"

lemma holds_token_mono: "holds_token pid t n sv \<Longrightarrow> n \<le> m \<Longrightarrow> holds_token pid t m sv"
  by (auto simp: holds_token_def)

lemma holds_token_irrelevant [simp]:
  "holds_token pid t n (sv\<lparr>sv_config := c\<rparr>) = holds_token pid t n sv"
  "holds_token pid t n (sv\<lparr>sv_port := port\<rparr>) = holds_token pid t n sv"
  "holds_token pid t n (sv\<lparr>sv_sent := l\<rparr>) = holds_token pid t n sv"
  "holds_token pid t n (sv\<lparr>sv_subpids := x\<rparr>) = holds_token pid t n sv"
  by (simp_all add: holds_token_def)

lemma holds_token_broadcast [simp]: "holds_token pid t n (broadcast_config sv) = holds_token pid t n sv"
  by (simp add: broadcast_config_def)

lemma behind_drop_le: "server_ok sv \<Longrightarrow> behind pid (sv_kept sv) \<le> n \<Longrightarrow> behind pid (kept_drop p (sv_kept sv)) \<le> n"
  using behind_drop [of "sv_kept sv" pid p] by (auto simp: server_ok_def)

lemma holds_inject: "holds_token pid t n sv \<Longrightarrow> p \<noteq> pid \<Longrightarrow> holds_token pid t n (snd (server_inject env p sv))"
  using records.spared_token [where b = "sv_store sv" and pid' = pid and t = t and pid = p and port = "sv_port sv" and env = env]
    behind_drop_le [of sv pid n p]
    server_ok_inject [of sv env p]
  by (auto simp: holds_token_def server_inject_def Let_def split: prod.splits)

lemma holds_children:
  "holds_token pid t n sv \<Longrightarrow> pid \<notin> snd ` set children \<Longrightarrow> holds_token pid t n (inject_children children sv)"
  by (induction children arbitrary: sv) (auto simp: inject_children_def holds_inject)

lemma halt_lost_records:
  assumes "se_opened (sv_sessions sv sid)"
    and "kept_keep (se_pid (sv_sessions sv sid)) (sv_kept sv) = (stale, kept)"
  shows "sv_kept (session_halt sid lost sv) = kept"
    and "sv_store (session_halt sid lost sv) = (case stale of None \<Rightarrow> sv_store sv | Some old \<Rightarrow> forget_token old (sv_store sv))"
  using assms by (auto simp: session_halt_def Let_def server_remove_def process_close_def split_def split: option.split)

lemma holds_lost:
  assumes h: "holds_token pid t n sv" and n: "Suc n < kept_cap"
  shows "holds_token pid t (if se_opened (sv_sessions sv sid) \<and> se_pid (sv_sessions sv sid) = pid then 0 else Suc n)
    (session_halt sid lost sv)"
proof (cases "se_opened (sv_sessions sv sid)")
  case False
  then show ?thesis
    using h server_ok_halt [of sv sid lost] by (auto simp: holds_token_def session_halt_def Let_def)
next
  case True
  let ?p = "se_pid (sv_sessions sv sid)"
  have ok: "server_ok sv" "distinct (sv_kept sv)" "length (sv_kept sv) \<le> kept_cap"
    using h by (auto simp: holds_token_def server_ok_def)
  obtain stale kept where k: "kept_keep ?p (sv_kept sv) = (stale, kept)" by (metis prod.exhaust)
  have bound: "Suc (behind pid (sv_kept sv)) < kept_cap" using h n by (simp add: holds_token_def)
  have "stale \<noteq> Some pid \<and> behind pid kept \<le> (if ?p = pid then 0 else Suc n)"
  proof (cases "pid \<in> set (sv_kept sv) \<or> ?p = pid")
    case True
    show ?thesis using kept_keep_behind [OF k ok(2) bound True] h by (auto simp: holds_token_def)
  next
    case False
    then have "pid \<notin> set kept" "stale \<noteq> Some pid" using kept_keep_result [OF k ok(2,3)] by (auto split: option.splits)
    then show ?thesis by simp
  qed
  then show ?thesis
    using True halt_lost_records [OF True k] h server_ok_halt [OF ok(1), of sid lost]
    by (auto simp: holds_token_def records.evicted_token)
qed

lemma holds_step:
  assumes h: "holds_token pid t n sv" and n: "Suc n < kept_cap" and c: "spares pid c"
  shows "holds_token pid t (Suc n) (server_step c sv)"
proof -
  have same: "holds_token pid t (Suc n) sv'" if "server_ok sv'" "sv_store sv' = sv_store sv" "sv_kept sv' = sv_kept sv" for sv'
    using h that by (auto simp: holds_token_def)
  have lost: "holds_token pid t (Suc n) (session_halt sid lost sv)" for sid
    using holds_lost [OF h n, of sid] by (auto intro: holds_token_mono split: if_splits)
  show ?thesis
  proof (cases c)
    case (Message children env sid msg)
    have hello: "holds_token pid t (Suc n) (process_hello children sid p token sv)" for p token
    proof (cases "token_matches p token (sv_store sv)")
      case False
      then show ?thesis using lost by (simp add: process_hello_def)
    next
      case True
      define sv1 where "sv1 = put_session sid ((sv_sessions (snd (server_open p sid sv)) sid)\<lparr>se_pid := p,
        se_opened := fst (server_open p sid sv)\<rparr>) (snd (server_open p sid sv))"
      have "server_ok sv1"
        using server_ok_hello_open [OF _ True, of sid] h by (simp add: sv1_def holds_token_def split_def Let_def)
      moreover have "behind pid (sv_kept (snd (server_open p sid sv))) \<le> n"
        using h behind_drop_le [of sv pid n p] by (simp add: holds_token_def server_open_def split: prod.split bool.split)
      ultimately have "holds_token pid t n sv1" using h by (simp add: holds_token_def sv1_def)
      then have "holds_token pid t n (inject_children children sv1)" "holds_token pid t n sv1"
        using holds_children c Message by simp_all
      moreover have "holds_token pid t n (send_config s cfg sv') = holds_token pid t n sv'" for s cfg sv'
        by (simp add: send_config_def)
      ultimately have "holds_token pid t n (process_hello children sid p token sv)"
        using True by (simp add: process_hello_def Let_def split_def sv1_def)
      then show ?thesis by (rule holds_token_mono) simp
    qed
    have "holds_token pid t (Suc n) (snd (server_inject env p sv))" if "p \<noteq> pid" for p
      using holds_inject [OF h that] by (rule holds_token_mono) simp
    then have sub: "holds_token pid t (Suc n) (sv1\<lparr>sv_subpids := x\<rparr>)" if "server_inject env p sv = (v, sv1)" "p \<noteq> pid" for p v sv1 x
      using that by (metis holds_token_irrelevant(4) snd_conv)
    show ?thesis
    proof (cases "compare_message_pid msg")
      case None
      show ?thesis
      proof (cases "\<exists>p. compare_message_connect msg = None \<and> compare_message_subpid msg = Some p")
        case True
        then obtain p where "compare_message_connect msg = None" "compare_message_subpid msg = Some p" by blast
        then show ?thesis
          using None c Message sub by (simp add: process_injectee_def split: prod.split)
      next
        case False
        then have "process_injectee children env sid msg sv = sv"
          using None by (auto simp: process_injectee_def split: option.split)
        then show ?thesis using Message holds_token_mono [OF h] by simp
      qed
    next
      case (Some p)
      then show ?thesis using Message hello by (simp add: process_injectee_def)
    qed
  next
    case (Inject env p)
    then have "holds_token pid t n (server_step c sv)" using holds_inject [OF h, of p env] c by simp
    then show ?thesis by (rule holds_token_mono) simp
  qed (use c lost holds_token_mono [OF h] in \<open>simp_all add: set_port_def setter_defs Let_def\<close>)
qed

lemma holds_run:
  "holds_token pid t n sv \<Longrightarrow> n + length cs < kept_cap \<Longrightarrow> \<forall>c \<in> set cs. spares pid c \<Longrightarrow>
   holds_token pid t (n + length cs) (server_run cs sv)"
proof (induction cs arbitrary: sv n)
  case (Cons c cs)
  then have "holds_token pid t (Suc n + length cs) (server_run cs (server_step c sv))"
    using holds_step [of pid t n sv c] by (intro Cons.IH) auto
  then show ?case by (simp add: server_run_def)
qed (simp add: server_run_def)


section \<open>Properties\<close>

text \<open>C11: In every order of messages, losses, closes and front-end calls: no pid has two table entries;
  the kept pids are distinct, at most 4096 and never those of a registered client; every
  registered pid has its token; tokens and mappings are the halves of the same payload; and an
  opened session is the one its pid's entry names, so its end removes its own entry.\<close>

theorem server_invariant:
  "let sv = server_run cs server_init in
     distinct (map fst (sv_clients sv)) \<and>
     distinct (sv_kept sv) \<and> length (sv_kept sv) \<le> 4096 \<and>
     (\<forall>pid \<in> set (sv_kept sv). map_of (sv_clients sv) pid = None) \<and>
     (\<forall>pid. map_of (sv_clients sv) pid \<noteq> None \<longrightarrow> bs_tokens (sv_store sv) pid \<noteq> None) \<and>
     (\<forall>pid. bs_tokens (sv_store sv) pid = map_option token_of (bs_mappings (sv_store sv) pid)) \<and>
     (\<forall>sid. se_opened (sv_sessions sv sid) \<longrightarrow> map_of (sv_clients sv) (se_pid (sv_sessions sv sid)) = Some sid)"
  using server_ok_run [OF server_ok_init, of cs]
  unfolding Let_def server_ok_def registered_def store_ok_def kept_cap_def by blast

definition demo_env :: injection_env where
  "demo_env = \<lparr>ie_opened = True, ie_wow64 = Some False, ie_resident = False, ie_injectee_found = True,
     ie_draw = (\<lambda>i. Some (of_nat i)), ie_mapped = True, ie_viewed = True, ie_load = \<lparr>rl_allocated = True,
     rl_written = True, rl_loader = True, rl_thread = True, rl_finished = True, rl_resident = False,
     rl_exit_code = Some 1\<rparr>\<rparr>"

definition demo_token :: "u8 list" where
  "demo_token = [0, 0, 0, 0, 1, 0, 0, 0]"

definition demo_hello :: "nat \<Rightarrow> server_cmd" where
  "demo_hello sid = Message [] demo_env sid (create_message_pid 7\<lparr>im_token := Some demo_token\<rparr>)"

definition demo_setup :: "server_cmd list" where
  "demo_setup = [SetPort 80, Inject demo_env 7, demo_hello 1]"

lemma demo_states:
  "sv_clients (server_run demo_setup server_init) = [(7, 1)]"
  "bs_tokens (sv_store (server_run demo_setup server_init)) 7 = Some demo_token"
  "se_opened (sv_sessions (server_run demo_setup server_init) 1)"
  "se_pid (sv_sessions (server_run demo_setup server_init) 1) = 7"
  by code_simp+

lemma server_invariant_witness:
  "bs_tokens (sv_store (server_run demo_setup server_init)) 7 \<noteq> None"
proof -
  have "map_of (sv_clients (server_run demo_setup server_init)) 7 \<noteq> None" by (simp add: demo_states)
  then show ?thesis using server_invariant [of demo_setup] unfolding Let_def by blast
qed

text \<open>C12: A pid's table entry changes to a session only when that very session has just said hello
  with the token the injector drew for that pid; subprocess reports, reports of connections,
  losses and front-end calls register nobody.\<close>

theorem only_proven_capsules_register:
  assumes "map_of (sv_clients (server_step c sv)) pid = Some sid" and "map_of (sv_clients sv) pid \<noteq> Some sid"
  shows "\<exists>children env msg t. c = Message children env sid msg \<and> im_opcode msg = Some ''pid'' \<and>
    im_pid msg = Some pid \<and> im_token msg = Some t \<and> bs_tokens (sv_store sv) pid = Some t"
proof -
  obtain children env msg where m: "c = Message children env sid msg" "compare_message_pid msg = Some pid"
    "token_matches pid (im_token msg) (sv_store sv)"
    using registered_step [of c sv pid sid] assms by (auto simp: registered_def)
  then show ?thesis by (auto simp: compare_message_pid_def token_matches_iff split: if_splits)
qed


lemma only_proven_capsules_register_witness:
  "\<exists>children env msg t. demo_hello 1 = Message children env 1 msg \<and> im_opcode msg = Some ''pid'' \<and>
    im_pid msg = Some 7 \<and> im_token msg = Some t \<and>
    bs_tokens (sv_store (server_run [SetPort 80, Inject demo_env 7] server_init)) 7 = Some t"
  by (rule only_proven_capsules_register [of "demo_hello 1" "server_run [SetPort 80, Inject demo_env 7] server_init"])
    code_simp+

text \<open>C13: A capsule that lost its session comes back: after the loss, through fewer than 4096 further
  steps of any kind other than a close or a fresh injection of its pid, its old token still
  counts; the hello that presents it on any session is answered with the current configuration
  and leaves the pid registered, to that session if it was still free.\<close>

theorem lost_capsule_reregisters:
  assumes "sv = server_run before server_init"
    and "se_opened (sv_sessions sv sid)" and "se_pid (sv_sessions sv sid) = pid" and "bs_tokens (sv_store sv) pid = Some t"
    and "\<forall>c \<in> set after. spares pid c" and "length after < 4096"
  shows "let sv1 = server_run after (session_halt sid lost sv);
             sv2 = process_hello children sid' pid (Some t) sv1
    in token_matches pid (Some t) (sv_store sv1) \<and> last_sent sid' sv2 = Some (sv_config sv1) \<and>
       registered sv2 pid = (if registered sv1 pid = None then Some sid' else registered sv1 pid)"
proof -
  have ok: "server_ok sv" using server_ok_run [OF server_ok_init] by (simp add: assms(1))
  then have "registered sv pid = Some sid" using assms(2,3) by (auto simp: server_ok_def)
  then have "pid \<notin> set (sv_kept sv)" using ok by (auto simp: server_ok_def)
  then have "holds_token pid t 0 sv" using ok assms(4) by (simp add: holds_token_def)
  then have "holds_token pid t 0 (session_halt sid lost sv)"
    using holds_lost [of pid t 0 sv sid] assms(2,3) by (simp add: kept_cap_def)
  then have "holds_token pid t (length after) (server_run after (session_halt sid lost sv))"
    using holds_run [of pid t 0 _ after] assms(5,6) by (simp add: kept_cap_def)
  then have "token_matches pid (Some t) (sv_store (server_run after (session_halt sid lost sv)))"
    by (simp add: holds_token_def token_matches_iff)
  then show ?thesis by (simp add: Let_def registered_hello hello_fields last_sent_def)
qed

lemma lost_capsule_reregisters_witness:
  "token_matches 7 (Some demo_token)
     (sv_store (server_run [EnableLog True, LostSession 2] (session_halt 1 lost (server_run demo_setup server_init))))"
  using lost_capsule_reregisters [OF refl demo_states(3,4,2), of "[EnableLog True, LostSession 2]"]
  by (simp add: Let_def)

text \<open>C14: Every registered session has been sent the configuration in force, and nothing after it: the
  last one it was sent is the server's current one, in every order of hellos and setters.\<close>

theorem every_session_current:
  assumes "registered (server_run cs server_init) pid = Some sid"
  shows "last_sent sid (server_run cs server_init) = Some (sv_config (server_run cs server_init))"
  using all_current_run [of cs] assms unfolding all_current_def by blast

lemma every_session_current_witness:
  "last_sent 1 (server_run demo_setup server_init) = Some (sv_config (server_run demo_setup server_init))"
  by (rule every_session_current [of demo_setup 7 1]) (simp add: registered_def demo_states(1))

section \<open>What a session that never proved itself may do\<close>

text \<open>A refused hello of a session that never opened closes its own socket and changes nothing else.\<close>

lemma refused_hello_is_inert:
  assumes "\<not> token_matches pid token (sv_store sv)" and "\<not> se_opened (sv_sessions sv sid)"
  shows "process_hello children sid pid token sv =
    put_session sid ((sv_sessions sv sid)\<lparr>se_connected := False, se_opened := False\<rparr>) sv"
  using assms by (simp add: process_hello_def session_halt_def Let_def)

text \<open>
  The token is looked at in the hello alone: a subprocess report from a connection that never
  said hello, with no token, makes the server inject the pid it names.
\<close>

lemma unauthenticated_subpid_injects:
  "let sv = server_run [SetPort 80, Message [] demo_env 5 (create_message_subpid 9)] server_init
   in \<not> se_opened (sv_sessions sv 5) \<and> bs_tokens (sv_store sv) 9 \<noteq> None \<and> sv_subpids sv = [(9, True)]"
  by code_simp

text \<open>
  A capsule that says hello twice on one connection is forgotten by its own session: the second
  \<open>open()\<close> fails, \<open>opened_\<close> turns false, and the end of the connection leaves the table entry
  behind, so its later reconnections are never registered and the pid stays "already registered".
\<close>

lemma second_hello_strands_entry:
  "let sv = server_run (demo_setup @ [demo_hello 1, LostSession 1, demo_hello 2, LostSession 2]) server_init
   in map_of (sv_clients sv) 7 = Some 1 \<and> \<not> se_connected (sv_sessions sv 1) \<and>
      fst (server_inject demo_env 7 sv) = already_registered"
  by code_simp

text \<open>The handler's parameter is sixteen bits wide: a pid above 65535 is reported wrongly.\<close>

lemma subpid_report_truncated:
  "sv_subpids (server_run [SetPort 80, Message [] demo_env 5 (create_message_subpid 70000)] server_init) = [(4464, True)]"
  by code_simp

section \<open>The accept loop\<close>

text \<open>
  \<open>listener\<close> starts a session for every connection accepted; \<open>None\<close> is an \<open>async_accept\<close> that fails,
  whose exception leaves the loop.
\<close>

fun listener :: "nat option list \<Rightarrow> nat list" where
  "listener [] = []"
| "listener (None # accepts) = []"
| "listener (Some sid # accepts) = sid # listener accepts"

text \<open>One failed accept ends the loop: no connection made later gets a session.\<close>

lemma failed_accept_ends_listener: "listener (map Some sids @ None # accepts) = sids"
  by (induction sids) simp_all

section \<open>Sizes and answers\<close>

definition clients_size :: "clients \<Rightarrow> nat" where
  "clients_size cs = length cs"

definition kept_size :: "DWORD list \<Rightarrow> nat" where
  "kept_size order = length order"

definition is_already_encapsulated :: "inject_verdict \<Rightarrow> bool" where
  "is_already_encapsulated v \<longleftrightarrow> v = already_encapsulated"

definition is_already_registered :: "inject_verdict \<Rightarrow> bool" where
  "is_already_registered v \<longleftrightarrow> v = already_registered"

definition is_not_started :: "inject_verdict \<Rightarrow> bool" where
  "is_not_started v \<longleftrightarrow> v = not_started"

text \<open>The answers exclude each other, and each is given for its own reason.\<close>

lemma inject_answers:
  "is_not_started (fst (server_inject env pid sv)) \<longleftrightarrow> sv_port sv = no_port"
  "is_already_registered (fst (server_inject env pid sv)) \<longleftrightarrow> sv_port sv \<noteq> no_port \<and> clients_contains pid (sv_clients sv)"
  "is_already_encapsulated v \<Longrightarrow> verdict_ok v \<and> \<not> is_already_registered v \<and> \<not> is_not_started v"
  by (auto simp: server_inject_def is_not_started_def is_already_registered_def is_already_encapsulated_def verdict_ok_def
      Let_def split: prod.split)

text \<open>The cap keeps the record small.\<close>

lemma kept_size_bounded:
  "distinct order \<Longrightarrow> kept_size order \<le> kept_cap \<Longrightarrow> kept_size (snd (kept_keep pid order)) \<le> kept_cap"
  using kept_keep_result [of pid order "fst (kept_keep pid order)" "snd (kept_keep pid order)"] by (simp add: kept_size_def)

end
