(* ===== verification/Injectee_Main.thy ===== *)
theory Injectee_Main
  imports Client_Session Hook_Env
begin

text \<open>
  src/injectee/injectee.cpp: the bootstrap read, its bounded retry, the client thread, and
  DllMain. The module is a state machine: DllMain's two reasons, the steps of the client thread,
  the helper thread that unloads a module whose hooks could not be created, and the end of the
  process, which detaches a module that is still mapped.
\<close>

section \<open>The bootstrap payload\<close>

definition kMappingProbeTries :: nat where
  "kMappingProbeTries = 20"

definition zero_payload :: port_mapping_payload where
  "zero_payload = \<lparr>pm_port = 0, pm_token = replicate port_mapping_token_size 0\<rparr>"

text \<open>The mapping as it is found: not there, there without a view, or its content.\<close>

datatype probe = no_mapping | no_view | content port_mapping_payload

definition get_ipc_payload :: "probe \<Rightarrow> port_mapping_payload" where
  "get_ipc_payload found =
     (case found of
        no_mapping \<Rightarrow> zero_payload
      | no_view \<Rightarrow> zero_payload
      | content payload \<Rightarrow> payload)"

text \<open>\<open>found attempt\<close> is what is there after the sleep in front of that attempt.\<close>

function probe_from :: "(nat \<Rightarrow> probe) \<Rightarrow> nat \<Rightarrow> port_mapping_payload" where
  "probe_from found attempt =
     (if attempt < kMappingProbeTries then
        (let payload = get_ipc_payload (found attempt) in
         if pm_port payload \<noteq> 0 then payload else probe_from found (attempt + 1))
      else zero_payload)"
  by auto
termination by (relation "measure (\<lambda>(_, attempt). kMappingProbeTries - attempt)") auto

declare probe_from.simps [simp del]

definition get_ipc_payload_waiting :: "(nat \<Rightarrow> probe) \<Rightarrow> port_mapping_payload" where
  "get_ipc_payload_waiting found = probe_from found 1"

section \<open>The module\<close>

text \<open>
  \<open>Starting\<close>: created by DllMain with the payload it read. \<open>Returned\<close>: no port within the budget.
  \<open>Running\<close>: the io context runs. \<open>Parked\<close>: \<open>stay_resident\<close>.
\<close>

datatype client_thread = Not_started | Starting port_mapping_payload | Returned | Running u16 "u8 list" | Parked_thread

record module_state =
  md_mapped :: bool
  md_hooks :: "hook_name set"
  md_enabled :: bool
  md_thread :: client_thread
  md_unloader :: bool
  md_bound :: bool
  md_wsa_started :: bool
  md_cleanups :: nat
  md_exited :: bool

definition module_loaded :: module_state where
  "module_loaded = \<lparr>md_mapped = True, md_hooks = {}, md_enabled = False, md_thread = Not_started, md_unloader = False,
     md_bound = False, md_wsa_started = False, md_cleanups = 0, md_exited = False\<rparr>"

text \<open>What attaching meets: which hooks MinHook accepts, whether winsock starts, whether enabling
  works (its result is not looked at), and the mapping at that moment.\<close>

record attach_env =
  at_create :: "hook_name \<Rightarrow> bool"
  at_wsa :: bool
  at_enable :: bool
  at_found :: probe

definition process_attach :: "attach_env \<Rightarrow> module_state \<Rightarrow> module_state" where
  "process_attach env md =
     (let (err, hooks) = hook_create_all (at_create env) (md_hooks md);
          md1 = md\<lparr>md_hooks := hooks, md_wsa_started := at_wsa env \<and> list_all (at_create env) (butlast all_hooks)\<rparr>
      in case err of
           Some _ \<Rightarrow> md1\<lparr>md_unloader := True\<rparr>
         | None \<Rightarrow> md1\<lparr>md_enabled := at_enable env, md_thread := Starting (get_ipc_payload (at_found env))\<rparr>)"

definition hook_cleanup_wsa :: "module_state \<Rightarrow> module_state" where
  "hook_cleanup_wsa md =
     (if md_wsa_started md then md\<lparr>md_wsa_started := False, md_cleanups := md_cleanups md + 1\<rparr> else md)"

definition process_detach :: "module_state \<Rightarrow> module_state" where
  "process_detach md = hook_cleanup_wsa (md\<lparr>md_enabled := False, md_hooks := {}\<rparr>)"

text \<open>The first part of \<open>do_client\<close>, up to \<open>io_context.run()\<close>.\<close>

definition do_client :: "(nat \<Rightarrow> probe) \<Rightarrow> port_mapping_payload \<Rightarrow> module_state \<Rightarrow> module_state" where
  "do_client found ipc md =
     (let ipc' = (if pm_port ipc = 0 then get_ipc_payload_waiting found else ipc) in
      if pm_port ipc' = 0 then md\<lparr>md_thread := Returned\<rparr>
      else md\<lparr>md_bound := True, md_thread := Running (pm_port ipc') (take port_mapping_token_size (pm_token ipc'))\<rparr>)"

definition stay_resident :: "module_state \<Rightarrow> module_state" where
  "stay_resident md = md\<lparr>md_thread := Parked_thread\<rparr>"

text \<open>
  \<open>run_ends\<close> is both the catch-all and the normal return of \<open>run()\<close>. The unloader's
  \<open>FreeLibraryAndExitThread\<close> detaches and unmaps. At \<open>process_exit\<close>, which comes at any time, the
  other threads are gone: a mapped module is detached and nothing runs afterwards.
\<close>

inductive module_step :: "module_state \<Rightarrow> module_state \<Rightarrow> bool" where
  attach: "\<not> md_exited md \<Longrightarrow> md_mapped md \<Longrightarrow> md_hooks md = {} \<Longrightarrow> md_thread md = Not_started \<Longrightarrow> \<not> md_unloader md \<Longrightarrow>
    module_step md (process_attach env md)"
| client: "\<not> md_exited md \<Longrightarrow> md_mapped md \<Longrightarrow> md_thread md = Starting ipc \<Longrightarrow> module_step md (do_client found ipc md)"
| run_ends: "\<not> md_exited md \<Longrightarrow> md_mapped md \<Longrightarrow> md_thread md = Running port token \<Longrightarrow> module_step md (stay_resident md)"
| unload: "\<not> md_exited md \<Longrightarrow> md_mapped md \<Longrightarrow> md_unloader md \<Longrightarrow> module_step md ((process_detach md)\<lparr>md_mapped := False\<rparr>)"
| process_exit: "\<not> md_exited md \<Longrightarrow> module_step md ((if md_mapped md then process_detach md else md)\<lparr>md_exited := True\<rparr>)"

inductive module_reach :: "module_state \<Rightarrow> bool" where
  loaded: "module_reach module_loaded"
| step: "module_reach md \<Longrightarrow> module_step md md' \<Longrightarrow> module_reach md'"

section \<open>Lemmas\<close>

lemma probe_from_result:
  "probe_from found k = (case find (\<lambda>i. pm_port (get_ipc_payload (found i)) \<noteq> 0) [k..<kMappingProbeTries] of
     None \<Rightarrow> zero_payload | Some i \<Rightarrow> get_ipc_payload (found i))"
proof (induction found k rule: probe_from.induct)
  case (1 found k)
  show ?case
  proof (cases "k < kMappingProbeTries")
    case True
    then have "[k..<kMappingProbeTries] = k # [Suc k..<kMappingProbeTries]" by (rule upt_conv_Cons)
    then show ?thesis using 1 True by (subst probe_from.simps) (simp add: Let_def)
  qed (simp add: probe_from.simps)
qed

lemma attach_result:
  assumes "md_hooks md = {}"
  shows "process_attach env md =
    (if \<forall>h. at_create env h
     then md\<lparr>md_hooks := UNIV, md_wsa_started := at_wsa env, md_enabled := at_enable env,
       md_thread := Starting (get_ipc_payload (at_found env))\<rparr>
     else md\<lparr>md_hooks := {}, md_wsa_started := at_wsa env \<and> list_all (at_create env) (butlast all_hooks), md_unloader := True\<rparr>)"
proof -
  have all: "set all_hooks = UNIV" using hook_name.exhaust by (auto simp: all_hooks_def)
  show ?thesis
  proof (cases "\<forall>h. at_create env h")
    case True
    then have "find (\<lambda>t. \<not> at_create env t) all_hooks = None" by (simp add: find_None_iff)
    then have "hook_create_all (at_create env) {} = (None, UNIV)"
      using create_hooks_result [of all_hooks "{}" "at_create env"] all by (simp add: hook_create_all_def all_hooks_def)
    moreover have "list_all (at_create env) (butlast all_hooks)" using True by (simp add: list_all_iff)
    ultimately show ?thesis using True assms by (simp add: process_attach_def)
  next
    case False
    then obtain t where "find (\<lambda>t. \<not> at_create env t) all_hooks = Some t"
      using all by (metis (mono_tags, lifting) UNIV_I find_None_iff not_None_eq)
    then have "hook_create_all (at_create env) {} = (Some t, {})"
      using create_hooks_result [of all_hooks "{}" "at_create env"] by (simp add: hook_create_all_def all_hooks_def)
    moreover have "\<not> (\<forall>h. at_create env h)" using False by blast
    ultimately show ?thesis using assms by (auto simp: process_attach_def)
  qed
qed

definition module_ok :: "module_state \<Rightarrow> bool" where
  "module_ok md \<longleftrightarrow>
     (md_unloader md \<longrightarrow> md_hooks md = {} \<and> \<not> md_enabled md \<and> md_thread md = Not_started) \<and>
     (\<not> md_mapped md \<longrightarrow> md_unloader md \<and> \<not> md_wsa_started md) \<and>
     (md_thread md \<noteq> Not_started \<longrightarrow> md_hooks md = (if md_exited md then {} else UNIV)) \<and>
     (md_exited md \<longrightarrow> md_hooks md = {} \<and> \<not> md_enabled md \<and> \<not> md_wsa_started md) \<and>
     (md_thread md = Not_started \<and> \<not> md_unloader md \<longrightarrow> \<not> md_wsa_started md) \<and>
     (md_enabled md \<longrightarrow> md_hooks md = UNIV) \<and>
     (md_bound md \<longleftrightarrow> md_thread md = Parked_thread \<or> (\<exists>port token. md_thread md = Running port token)) \<and>
     (md_hooks md = {} \<or> md_hooks md = UNIV) \<and> md_cleanups md \<le> 1 \<and>
     (md_cleanups md = 1 \<longrightarrow> \<not> md_wsa_started md \<and> (md_unloader md \<or> md_exited md))"

lemma module_ok_reach: "module_reach md \<Longrightarrow> module_ok md"
proof (induction rule: module_reach.induct)
  case loaded
  then show ?case by (simp add: module_ok_def module_loaded_def)
next
  case (step md md')
  from step.hyps(2) show ?case
  proof cases
    case (attach env)
    then show ?thesis using step.IH by (auto simp: attach_result module_ok_def)
  next
    case (client ipc found)
    then show ?thesis using step.IH by (auto simp: do_client_def Let_def module_ok_def)
  next
    case (run_ends port token)
    then show ?thesis using step.IH by (auto simp: stay_resident_def module_ok_def)
  next
    case unload
    then show ?thesis using step.IH by (auto simp: process_detach_def hook_cleanup_wsa_def module_ok_def)
  next
    case process_exit
    then show ?thesis using step.IH by (auto simp: process_detach_def hook_cleanup_wsa_def module_ok_def)
  qed
qed

section \<open>Properties\<close>

text \<open>The retry is bounded: it returns the payload of the first of its nineteen probes that shows a
  port, and the zero payload when none does.\<close>

theorem bootstrap_retry_bounded:
  "get_ipc_payload_waiting found =
     (case find (\<lambda>i. pm_port (get_ipc_payload (found i)) \<noteq> 0) [1..<20] of
        None \<Rightarrow> zero_payload | Some i \<Rightarrow> get_ipc_payload (found i))"
  by (simp only: get_ipc_payload_waiting_def probe_from_result kMappingProbeTries_def)

text \<open>C4: Live hooks never lose their code: in every order of the module's steps, the image is
  unmapped only if the hooks could not be created, and then no hook exists, none was enabled, no
  client thread ever ran and nothing is bound. No step unbinds the routing globals, and hooks that
  are enabled stay enabled in a mapped image until the process ends; then they are all disabled
  and removed, in the image that is still there, and winsock, if a hook started it, is cleaned up
  once and never twice.\<close>

theorem hooks_never_outlive_module:
  assumes "module_reach md"
  shows "(\<not> md_mapped md \<longrightarrow> md_hooks md = {} \<and> \<not> md_enabled md \<and> md_thread md = Not_started \<and> \<not> md_bound md) \<and>
    (md_exited md \<longrightarrow> md_hooks md = {} \<and> \<not> md_enabled md \<and> \<not> md_wsa_started md) \<and> md_cleanups md \<le> 1 \<and>
    (\<forall>md'. module_step md md' \<longrightarrow> (md_bound md \<longrightarrow> md_bound md') \<and>
       (md_enabled md \<longrightarrow> md_mapped md' \<and> (md_enabled md' \<or> md_exited md')) \<and>
       (md_cleanups md' = md_cleanups md + 1 \<longleftrightarrow> md_wsa_started md \<and> \<not> md_wsa_started md'))"
proof -
  have ok: "module_ok md" using module_ok_reach [OF assms] .
  have "(md_bound md \<longrightarrow> md_bound md') \<and> (md_enabled md \<longrightarrow> md_mapped md' \<and> (md_enabled md' \<or> md_exited md')) \<and>
      (md_cleanups md' = md_cleanups md + 1 \<longleftrightarrow> md_wsa_started md \<and> \<not> md_wsa_started md')" if "module_step md md'" for md'
    using that ok
  proof cases
    case (attach env)
    then show ?thesis using ok by (auto simp: attach_result module_ok_def)
  qed (auto simp: do_client_def Let_def stay_resident_def process_detach_def hook_cleanup_wsa_def module_ok_def)
  then show ?thesis using ok by (auto simp: module_ok_def)
qed

lemma hooks_never_outlive_module_witness:
  "\<not> md_enabled ((process_detach (process_attach \<lparr>at_create = (\<lambda>_. False), at_wsa = False, at_enable = True,
     at_found = no_mapping\<rparr> module_loaded))\<lparr>md_mapped := False\<rparr>)"
proof -
  let ?md = "process_attach \<lparr>at_create = (\<lambda>_. False), at_wsa = False, at_enable = True, at_found = no_mapping\<rparr> module_loaded"
  have "module_reach ?md"
    by (rule module_reach.step [OF module_reach.loaded], rule module_step.attach) (simp_all add: module_loaded_def)
  moreover have "md_mapped ?md \<and> md_unloader ?md \<and> \<not> md_exited ?md" by (simp add: attach_result module_loaded_def)
  ultimately have "module_reach ((process_detach ?md)\<lparr>md_mapped := False\<rparr>)"
    using module_reach.step module_step.unload by blast
  from hooks_never_outlive_module [OF this] show ?thesis by simp
qed

section \<open>Settings\<close>

text \<open>In milliseconds; one sleep in front of each probe.\<close>

definition kMappingProbeDelay :: nat where
  "kMappingProbeDelay = 250"

definition kReportQueueTokens :: nat where
  "kReportQueueTokens = 1024"

definition kReportQueueCap :: nat where
  "kReportQueueCap = kReportQueueTokens"

text \<open>The retry of the bootstrap sleeps for less than the five seconds the injector waits.\<close>

lemma probe_sleep_total: "(\<Sum>_\<leftarrow>[1..<kMappingProbeTries]. kMappingProbeDelay) = 4750"
  by (simp add: kMappingProbeTries_def kMappingProbeDelay_def sum_list_triv)

end
