(* ===== verification/Cli.thy ===== *)
theory Cli
  imports Server Proxy_Endpoint
begin

text \<open>
  src/injector/injector_cli.cpp: what \<open>main\<close> does with the parsed options. argparse is a library: the
  options arrive as a record. The server calls that \<open>main\<close> makes while the io thread serves the
  sessions are lists of server commands, up to and including the proxy, and after it.
\<close>

section \<open>Options\<close>

record cli_options =
  op_pids :: "int list"
  op_names :: "string list"
  op_paths :: "string list"
  op_re_names :: "string list"
  op_re_paths :: "string list"
  op_execs :: "string list"
  op_log :: bool
  op_subprocess :: bool
  op_proxy :: string

definition no_selector :: "cli_options \<Rightarrow> bool" where
  "no_selector opts \<longleftrightarrow> op_pids opts = [] \<and> op_names opts = [] \<and> op_execs opts = []"

text \<open>What of the argument a diagnostic may show: the part behind the last \<open>@\<close>.\<close>

definition shown_address :: "string \<Rightarrow> string" where
  "shown_address proxy_str =
     (case rfind_char (CHR ''@'') proxy_str of
        None \<Rightarrow> proxy_str
      | Some at \<Rightarrow> drop (at + 1) proxy_str)"

definition proxy_refusal :: "string \<Rightarrow> string \<Rightarrow> string" where
  "proxy_refusal shown why = ''Invalid proxy address `'' @ shown @ ''`: '' @ why"

text \<open>\<open>make_address\<close> is asio's parser of numeric addresses.\<close>

definition proxy_option ::
  "(string \<Rightarrow> ip_address option) \<Rightarrow> string \<Rightarrow> string + (proxy_endpoint \<times> ip_address) option" where
  "proxy_option make_address proxy_str =
     (if proxy_str = [] then Inr None
      else
        let shown = shown_address proxy_str in
        case parse_proxy_url proxy_str of
          None \<Rightarrow> Inl (proxy_refusal shown ''expected [user[:pass]@]host:port'')
        | Some endpoint \<Rightarrow>
            (case make_address (px_host endpoint) of
               None \<Rightarrow> Inl (proxy_refusal shown (''`'' @ px_host endpoint @ ''` is not a numeric IPv4 or IPv6 address''))
             | Some addr \<Rightarrow> Inr (Some (endpoint, addr))))"

section \<open>The run\<close>

text \<open>What the run meets: the port it got, each pid's injection, one snapshot per selector, the
  regex engine, and the processes that \<open>-e\<close> starts.\<close>

record cli_env =
  ce_make_address :: "string \<Rightarrow> ip_address option"
  ce_port :: u16
  ce_inject :: "DWORD \<Rightarrow> injection_env"
  ce_encode :: "wchar list \<Rightarrow> string"
  ce_filepath :: "DWORD \<Rightarrow> wchar list option"
  ce_snapshot :: "string \<Rightarrow> process_entry list option"
  ce_regex :: "string \<Rightarrow> string \<Rightarrow> bool option"
  ce_execute :: "string \<Rightarrow> DWORD option"

definition setup_commands :: "cli_env \<Rightarrow> cli_options \<Rightarrow> server_cmd list" where
  "setup_commands env opts =
     [SetPort (ce_port env)] @ (if op_log opts then [EnableLog True] else []) @
     (if op_subprocess opts then [EnableSubprocess True] else [])"

definition proxy_commands :: "(proxy_endpoint \<times> ip_address) option \<Rightarrow> server_cmd list" where
  "proxy_commands proxy =
     (case proxy of
        None \<Rightarrow> []
      | Some (endpoint, addr) \<Rightarrow> [SetProxy addr (ucast (px_port endpoint))])"

definition credential_commands :: "(proxy_endpoint \<times> ip_address) option \<Rightarrow> server_cmd list" where
  "credential_commands proxy =
     (case proxy of
        None \<Rightarrow> []
      | Some (endpoint, addr) \<Rightarrow>
          (if px_username endpoint \<noteq> None then [SetCredentials (px_username endpoint) (px_password endpoint)] else []))"

definition cli_targets :: "cli_env \<Rightarrow> cli_options \<Rightarrow> DWORD list" where
  "cli_targets env opts =
     map word_of_int (filter (\<lambda>pid. pid > 0) (op_pids opts)) @
     concat (map (\<lambda>name. pid_by_name_wildcard (ce_encode env) (ce_snapshot env name) name) (op_names opts)) @
     concat (map (\<lambda>path. pid_by_path_wildcard (ce_encode env) (ce_filepath env) (ce_snapshot env path) path) (op_paths opts)) @
     concat (map (\<lambda>name. pid_by_name_regex (ce_encode env) (ce_regex env) (ce_snapshot env name) name) (op_re_names opts)) @
     concat (map (\<lambda>path. pid_by_path_regex (ce_encode env) (ce_filepath env) (ce_regex env) (ce_snapshot env path) path)
       (op_re_paths opts)) @
     List.map_filter (ce_execute env) (op_execs opts)"

text \<open>\<open>Cli_exit\<close>: the exit code and the diagnostic. \<open>Cli_run\<close>: the calls until the proxy is set, then
  the others.\<close>

datatype cli_outcome = Cli_exit nat string | Cli_run "server_cmd list" "server_cmd list"

definition cli_main :: "cli_env \<Rightarrow> cli_options \<Rightarrow> cli_outcome" where
  "cli_main env opts =
     (if no_selector opts then Cli_exit 2 ''Expected at least one of `-i`, `-n` or `-e`''
      else (case proxy_option (ce_make_address env) (op_proxy opts) of
              Inl message \<Rightarrow> Cli_exit 2 message
            | Inr proxy \<Rightarrow>
                Cli_run (setup_commands env opts @ proxy_commands proxy)
                  (credential_commands proxy @ map (\<lambda>pid. Inject (ce_inject env pid) pid) (cli_targets env opts))))"

text \<open>The tool keeps running exactly when one of its injections succeeded.\<close>

fun has_process :: "server_cmd list \<Rightarrow> injector_server \<Rightarrow> bool" where
  "has_process [] sv = False"
| "has_process (c # cs) sv =
     ((case c of Inject env pid \<Rightarrow> verdict_ok (fst (server_inject env pid sv)) | _ \<Rightarrow> False) \<or> has_process cs (server_step c sv))"


section \<open>Lemmas\<close>

text \<open>What the io thread does on its own.\<close>

fun io_step :: "server_cmd \<Rightarrow> bool" where
  "io_step (Message children env sid msg) = True"
| "io_step (LostSession sid) = True"
| "io_step _ = False"

fun reports_child :: "server_cmd \<Rightarrow> bool" where
  "reports_child (Message children env sid msg) = (compare_message_subpid msg \<noteq> None)"
| "reports_child _ = False"

text \<open>Before the first injection: no client, no token, nothing sent.\<close>

definition quiet :: "injector_server \<Rightarrow> bool" where
  "quiet sv \<longleftrightarrow> sv_clients sv = [] \<and> bs_tokens (sv_store sv) = (\<lambda>_. None) \<and> sv_sent sv = [] \<and>
     (\<forall>sid. \<not> se_opened (sv_sessions sv sid))"

definition proxied :: "IpAddr \<Rightarrow> injector_server \<Rightarrow> bool" where
  "proxied px sv \<longleftrightarrow> cf_addr (sv_config sv) = Some px \<and> (\<forall>(sid, cfg) \<in> set (sv_sent sv). cf_addr cfg = Some px)"

fun keeps_proxy :: "IpAddr \<Rightarrow> server_cmd \<Rightarrow> bool" where
  "keeps_proxy px (SetProxy addr port) = (from_asio addr (ucast port) = px)"
| "keeps_proxy px ClearProxy = False"
| "keeps_proxy px _ = True"

fun keeps_quiet :: "server_cmd \<Rightarrow> bool" where
  "keeps_quiet (SetPort port) = True"
| "keeps_quiet (EnableLog b) = True"
| "keeps_quiet (EnableSubprocess b) = True"
| "keeps_quiet (LostSession sid) = True"
| "keeps_quiet (Message children env sid msg) = (compare_message_subpid msg = None)"
| "keeps_quiet _ = False"

lemma quiet_init: "quiet server_init"
  by (simp add: quiet_def server_init_def session_init_def bootstrap_store_new_def)

lemma quiet_halt: "quiet sv \<Longrightarrow> quiet (session_halt sid end sv)"
  by (auto simp: quiet_def session_halt_def Let_def put_session_def)

lemma quiet_broadcast: "quiet (broadcast_config sv) = quiet sv"
  by (auto simp: quiet_def broadcast_config_def clients_snapshot_def)

lemma quiet_step: "quiet sv \<Longrightarrow> keeps_quiet c \<Longrightarrow> quiet (server_step c sv)"
proof (cases c)
  case (Message children env sid msg)
  assume q: "quiet sv" and k: "keeps_quiet c"
  have "process_hello children sid pid token sv = session_halt sid lost sv" for pid token
    using q by (simp add: process_hello_def token_matches_iff quiet_def) auto
  then show ?thesis
    using q k Message quiet_halt by (simp add: process_injectee_def split: option.split)
qed (auto simp: set_port_def enable_log_def enable_subprocess_def quiet_broadcast quiet_halt, auto simp: quiet_def)

lemma proxied_fields:
  "proxied px sv \<Longrightarrow> sv_config sv' = sv_config sv \<Longrightarrow> sv_sent sv' = sv_sent sv \<Longrightarrow> proxied px sv'"
  by (simp add: proxied_def)

lemma proxied_broadcast:
  "cf_addr (sv_config sv) = Some px \<Longrightarrow> (\<forall>(sid, cfg) \<in> set (sv_sent sv). cf_addr cfg = Some px) \<Longrightarrow> proxied px (broadcast_config sv)"
  by (auto simp: proxied_def broadcast_config_def)

lemma proxied_step: "proxied px sv \<Longrightarrow> keeps_proxy px c \<Longrightarrow> proxied px (server_step c sv)"
proof (cases c)
  case (Message children env sid msg)
  assume p: "proxied px sv"
  show ?thesis
    using p Message unfolding proxied_def
    by (auto simp: process_injectee_fields split: option.splits if_splits)
next
  case (CloseClient pid)
  assume p: "proxied px sv"
  then show ?thesis using CloseClient by (auto simp: proxied_def server_close_def split: option.split)
qed (auto simp: set_port_def setter_defs Let_def intro!: proxied_broadcast, auto simp: proxied_def split: option.split)


interpretation proxy_steps: guarded_steps server_step "keeps_proxy px" "proxied px" for px
  by unfold_locales (rule proxied_step)

lemma proxied_run: "proxied px sv \<Longrightarrow> \<forall>c \<in> set cs. keeps_proxy px c \<Longrightarrow> proxied px (server_run cs sv)"
  unfolding server_run_def by (rule proxy_steps.run_inv)

text \<open>From a quiet server, commands that keep it quiet and the proxy's own leave it proxied.\<close>

lemma proxied_setup:
  assumes "quiet sv" and "SetProxy addr port \<in> set cs" and "px = from_asio addr (ucast port)"
    and "\<forall>c \<in> set cs. c = SetProxy addr port \<or> keeps_quiet c"
  shows "proxied px (server_run cs sv)"
  using assms
proof (induction cs arbitrary: sv)
  case (Cons c cs)
  have kept: "keeps_proxy px d" if "d = SetProxy addr port \<or> keeps_quiet d" for d
    using that assms(3) by (cases d) auto
  show ?case
  proof (cases "c = SetProxy addr port")
    case True
    have "proxied px (server_step c sv)"
      using Cons.prems(1,3) True by (auto simp: set_proxy_def config_proxy_def quiet_def intro!: proxied_broadcast)
    then have "proxied px (server_run cs (server_step c sv))"
      using Cons.prems(4) kept by (intro proxied_run) auto
    then show ?thesis by (simp add: server_run_def)
  next
    case False
    then have "quiet (server_step c sv)" using Cons.prems(1,4) quiet_step by auto
    then have "proxied px (server_run cs (server_step c sv))"
      using False Cons.prems by (intro Cons.IH) auto
    then show ?thesis by (simp add: server_run_def)
  qed
qed simp

lemma server_run_append: "server_run (cs @ ds) sv = server_run ds (server_run cs sv)"
  by (simp add: server_run_def)

lemma setup_quiet: "c \<in> set (setup_commands env opts) \<Longrightarrow> keeps_quiet c"
  by (auto simp: setup_commands_def split: if_splits)

lemma rest_keeps: "c \<in> set (credential_commands proxy @ map (\<lambda>pid. Inject (f pid) pid) pids) \<Longrightarrow> keeps_proxy px c"
  by (auto simp: credential_commands_def split: option.splits if_splits)

lemma io_keeps: "io_step c \<Longrightarrow> keeps_proxy px c" "io_step c \<Longrightarrow> \<not> reports_child c \<Longrightarrow> keeps_quiet c"
  by (cases c; simp)+

lemma proxy_option_accepts:
  assumes "proxy_option make_address s = Inr proxy" and "s \<noteq> []"
  shows "\<exists>endpoint addr. parse_proxy_url s = Some endpoint \<and> make_address (px_host endpoint) = Some addr \<and>
    proxy = Some (endpoint, addr)"
  using assms by (auto simp: proxy_option_def Let_def split: option.splits)

section \<open>Properties\<close>

text \<open>C3: With \<open>-p\<close> no capsule is ever configured without the proxy: if \<open>main\<close> gets past its checks the
  argument is a well-formed endpoint with a numeric host, and in every interleaving of its calls
  with the io thread (no subprocess report arriving before the proxy is set) each configuration
  any session is sent routes to that endpoint.\<close>

theorem cli_never_unproxied:
  assumes "cli_main env opts = Cli_run setup rest" and "op_proxy opts \<noteq> []"
    and "pre \<in> shuffles setup early" and "post \<in> shuffles rest late"
    and "\<forall>c \<in> set (early @ late). io_step c" and "\<forall>c \<in> set early. \<not> reports_child c"
  shows "\<exists>endpoint addr. parse_proxy_url (op_proxy opts) = Some endpoint \<and>
    ce_make_address env (px_host endpoint) = Some addr \<and>
    (\<forall>(sid, cfg) \<in> set (sv_sent (server_run (pre @ post) server_init)). cf_addr cfg = Some (from_asio addr (px_port endpoint)))"
proof -
  obtain proxy where p: "proxy_option (ce_make_address env) (op_proxy opts) = Inr proxy"
    and start: "setup = setup_commands env opts @ proxy_commands proxy"
    and rest: "rest = credential_commands proxy @ map (\<lambda>pid. Inject (ce_inject env pid) pid) (cli_targets env opts)"
    using assms(1) by (auto simp: cli_main_def split: if_splits sum.splits)
  from proxy_option_accepts [OF p assms(2)] obtain endpoint addr where
    e: "parse_proxy_url (op_proxy opts) = Some endpoint" "ce_make_address env (px_host endpoint) = Some addr"
      "proxy = Some (endpoint, addr)" by blast
  let ?px = "from_asio addr (px_port endpoint)"
  have sp: "proxy_commands proxy = [SetProxy addr (ucast (px_port endpoint))]" using e(3) by (simp add: proxy_commands_def)
  have "set pre = set setup \<union> set early" "set post = set rest \<union> set late"
    using assms(3,4) set_shuffles by blast+
  then have "proxied ?px (server_run pre server_init)"
    using sp start setup_quiet io_keeps(2) assms(5,6) quiet_init
    by (intro proxied_setup [where addr = addr and port = "ucast (px_port endpoint)"])
      (auto simp: ucast_up_ucast_id is_up)
  moreover have "\<forall>c \<in> set post. keeps_proxy ?px c"
    using \<open>set post = _\<close> rest rest_keeps io_keeps(1) assms(5) by (metis Un_iff set_append)
  ultimately have "proxied ?px (server_run (pre @ post) server_init)"
    unfolding server_run_append by (rule proxied_run)
  then show ?thesis using e by (auto simp: proxied_def)
qed

definition cli_demo_env :: cli_env where
  "cli_demo_env = \<lparr>ce_make_address = (\<lambda>s. if s = ''127.0.0.1'' then Some (AddressV4 0x7F000001) else None), ce_port = 80,
     ce_inject = (\<lambda>_. demo_env), ce_encode = (\<lambda>_. []), ce_filepath = (\<lambda>_. None), ce_snapshot = (\<lambda>_. None),
     ce_regex = (\<lambda>_ _. None), ce_execute = (\<lambda>_. None)\<rparr>"

definition cli_demo_opts :: cli_options where
  "cli_demo_opts = \<lparr>op_pids = [7], op_names = [], op_paths = [], op_re_names = [], op_re_paths = [], op_execs = [],
     op_log = False, op_subprocess = False, op_proxy = ''127.0.0.1:1080''\<rparr>"

lemma cli_demo_main:
  "cli_main cli_demo_env cli_demo_opts =
     Cli_run [SetPort 80, SetProxy (AddressV4 0x7F000001) 1080] [Inject demo_env 7]"
proof -
  have "parse_proxy_url ''127.0.0.1:1080'' = Some \<lparr>px_host = ''127.0.0.1'', px_port = 1080, px_username = None, px_password = None\<rparr>"
    by code_simp
  then show ?thesis
    by (simp add: cli_main_def cli_demo_opts_def cli_demo_env_def no_selector_def proxy_option_def setup_commands_def
        proxy_commands_def credential_commands_def cli_targets_def List.map_filter_def)
qed

lemma cli_never_unproxied_witness:
  "cf_addr (snd (hd (sv_sent (server_run [SetPort 80, SetProxy (AddressV4 0x7F000001) 1080, Inject demo_env 7, demo_hello 1]
     server_init)))) = Some (from_asio (AddressV4 0x7F000001) 1080)"
proof -
  let ?sv = "server_run ([SetPort 80, SetProxy (AddressV4 0x7F000001) 1080] @ [Inject demo_env 7, demo_hello 1]) server_init"
  have "\<exists>endpoint addr. parse_proxy_url (op_proxy cli_demo_opts) = Some endpoint \<and>
      ce_make_address cli_demo_env (px_host endpoint) = Some addr \<and>
      (\<forall>(sid, cfg) \<in> set (sv_sent ?sv). cf_addr cfg = Some (from_asio addr (px_port endpoint)))"
    by (rule cli_never_unproxied [OF cli_demo_main, where early = "[]" and late = "[demo_hello 1]"])
      (simp_all add: cli_demo_opts_def demo_hello_def)
  moreover have "parse_proxy_url (op_proxy cli_demo_opts) =
      Some \<lparr>px_host = ''127.0.0.1'', px_port = 1080, px_username = None, px_password = None\<rparr>"
    by code_simp
  moreover have "sv_sent ?sv \<noteq> []" by code_simp
  then have "hd (sv_sent ?sv) \<in> set (sv_sent ?sv)" by (rule hd_in_set)
  ultimately show ?thesis by (auto simp: cli_demo_env_def)
qed

text \<open>What the tool prints about a refused \<open>-p\<close> is made of the part behind the last \<open>@\<close> alone:
  the user name and the password in front of it cannot be in it.\<close>

theorem proxy_refusal_hides_userinfo:
  assumes "CHR ''@'' \<notin> set authority"
    and "proxy_option make_address (userinfo @ CHR ''@'' # authority) = Inl message"
  shows "message = proxy_refusal authority ''expected [user[:pass]@]host:port'' \<or>
    (\<exists>host port_text. split_authority authority = Some (host, port_text) \<and>
       message = proxy_refusal authority (''`'' @ host @ ''` is not a numeric IPv4 or IPv6 address''))"
proof -
  let ?url = "userinfo @ CHR ''@'' # authority"
  have last_at: "rfind_char (CHR ''@'') ?url = Some (length userinfo)" by (rule rfind_char_append [OF assms(1)])
  then have shown: "shown_address ?url = authority" by (simp add: shown_address_def)
  have split: "split_userinfo ?url = (userinfo, authority)" using last_at by (simp add: split_userinfo_def)
  show ?thesis
  proof (cases "parse_proxy_url ?url")
    case None
    then show ?thesis using assms(2) shown by (simp add: proxy_option_def Let_def)
  next
    case (Some endpoint)
    moreover obtain host port_text where "split_authority authority = Some (host, port_text)" "px_host endpoint = host"
      using Some split
      by (auto simp: parse_proxy_url_def parse_credentials_def Let_def split: option.splits if_splits)
    ultimately show ?thesis using assms(2) shown by (auto simp: proxy_option_def Let_def split: option.splits)
  qed
qed

lemma proxy_refusal_hides_userinfo_witness:
  "proxy_option (\<lambda>_. None) ''u:secret@host:80'' = Inl (proxy_refusal ''host:80'' ''`host` is not a numeric IPv4 or IPv6 address'')"
proof -
  have m: "proxy_option (\<lambda>_. None) (''u:secret'' @ CHR ''@'' # ''host:80'') =
      Inl ''Invalid proxy address `host:80`: `host` is not a numeric IPv4 or IPv6 address''"
    by code_simp
  have "split_authority ''host:80'' = Some (''host'', ''80'')" by code_simp
  then show ?thesis
    using proxy_refusal_hides_userinfo [OF _ m] m by (auto simp: proxy_refusal_def)
qed

text \<open>
  The selector check asks for \<open>-i\<close>, \<open>-n\<close> or \<open>-e\<close>: a command line that selects by path or by
  regular expression alone, which the help offers, is refused.
\<close>

lemma documented_selectors_refused:
  "op_pids opts = [] \<Longrightarrow> op_names opts = [] \<Longrightarrow> op_execs opts = [] \<Longrightarrow>
     cli_main env opts = Cli_exit 2 ''Expected at least one of `-i`, `-n` or `-e`''"
  by (simp add: cli_main_def no_selector_def)

end
