(* ===== verification/Gui_Panel.thy ===== *)
theory Gui_Panel
  imports Cli "HOL-Library.Char_ord" "HOL-Library.List_Lexorder" "HOL-Library.Product_Lexorder"
begin

text \<open>
  src/injector/injector_gui.hpp: the decisions of the window, without the widgets: the pid box, the
  process box with its selectors and the two buttons, the proxy panel, and the rows of the process
  list that the sessions keep. A refusal is the line put in the log; a handler's calls to the
  server are commands.
\<close>

section \<open>The pid box\<close>

definition process_id_max_digits :: nat where
  "process_id_max_digits = 10"

definition bad_id :: string where
  "bad_id = ''the process id must be a number from 1 to 4294967295''"

fun id_digits :: "u64 \<Rightarrow> string \<Rightarrow> u64 option" where
  "id_digits value [] = Some value"
| "id_digits value (d # ds) =
     (if \<not> is_digit d then None else id_digits (value * 10 + of_nat (digit_value d)) ds)"

definition parse_process_id :: "string \<Rightarrow> string + DWORD" where
  "parse_process_id text =
     (if text = [] then Inl ''no process id was entered''
      else if length text > process_id_max_digits then Inl bad_id
      else (case id_digits 0 text of
              None \<Rightarrow> Inl bad_id
            | Some value \<Rightarrow> if value = 0 \<or> value > 0xFFFFFFFF then Inl bad_id else Inr (ucast value)))"

section \<open>The process box\<close>

text \<open>The processes a click is about; no process when \<open>exec\<close> could not start one.\<close>

definition click_targets :: "cli_env \<Rightarrow> string \<Rightarrow> string \<Rightarrow> string + DWORD list" where
  "click_targets env option text =
     (if option = ''pid'' then (case parse_process_id text of Inl why \<Rightarrow> Inl why | Inr pid \<Rightarrow> Inr [pid])
      else if option = ''name'' then Inr (pid_by_name_wildcard (ce_encode env) (ce_snapshot env text) text)
      else if option = ''name regexp'' then Inr (pid_by_name_regex (ce_encode env) (ce_regex env) (ce_snapshot env text) text)
      else if option = ''path'' then
        Inr (pid_by_path_wildcard (ce_encode env) (ce_filepath env) (ce_snapshot env text) text)
      else if option = ''path regexp'' then
        Inr (pid_by_path_regex (ce_encode env) (ce_filepath env) (ce_regex env) (ce_snapshot env text) text)
      else if option = ''exec'' then
        Inr (case ce_execute env text of None \<Rightarrow> [] | Some pid \<Rightarrow> [pid])
      else Inr [])"

fun each_target ::
  "(DWORD \<Rightarrow> injector_server \<Rightarrow> (string list \<times> bool) \<times> injector_server) \<Rightarrow> DWORD list \<Rightarrow> injector_server \<Rightarrow>
     (string list \<times> bool) \<times> injector_server" where
  "each_target f [] sv = (([], False), sv)"
| "each_target f (pid # pids) sv =
     (let ((lines, ok), sv1) = f pid sv; ((lines', ok'), sv2) = each_target f pids sv1
      in ((lines @ lines', ok \<or> ok'), sv2))"

definition known_option :: "string \<Rightarrow> bool" where
  "known_option option \<longleftrightarrow> option \<in> {''pid'', ''name'', ''name regexp'', ''path'', ''path regexp'', ''exec''}"

text \<open>The result: the log lines, whether the box is emptied, and the server.\<close>

definition inject_click ::
  "cli_env \<Rightarrow> (DWORD \<Rightarrow> injector_server \<Rightarrow> (string list \<times> bool) \<times> injector_server) \<Rightarrow> string \<Rightarrow> string \<Rightarrow> injector_server \<Rightarrow>
     (string list \<times> bool) \<times> injector_server" where
  "inject_click env f option box sv =
     (let text = trim box in
      if text = [] then (([''no process id, name, path or command was entered''], False), sv)
      else (case click_targets env option text of
              Inl why \<Rightarrow> (([why], False), sv)
            | Inr pids \<Rightarrow>
                (case each_target f pids sv of
                   ((lines, success), sv') \<Rightarrow> ((lines, success \<or> \<not> known_option option), sv'))))"

definition inject_line :: "inject_verdict \<Rightarrow> string" where
  "inject_line v =
     (case v of
        not_started \<Rightarrow> ''the server is not listening yet''
      | already_registered \<Rightarrow> ''that process is already in the list''
      | failed \<Rightarrow> ''the capsule did not attach''
      | already_encapsulated \<Rightarrow> ''already encapsulated''
      | attached \<Rightarrow> ''injected'')"

definition gui_inject :: "cli_env \<Rightarrow> DWORD \<Rightarrow> injector_server \<Rightarrow> (string list \<times> bool) \<times> injector_server" where
  "gui_inject env pid sv =
     (let (verdict, sv') = server_inject (ce_inject env pid) pid sv in (([inject_line verdict], verdict_ok verdict), sv'))"

definition gui_remove :: "DWORD \<Rightarrow> injector_server \<Rightarrow> (string list \<times> bool) \<times> injector_server" where
  "gui_remove pid sv = (let (ok, sv') = server_close pid sv in (([], ok), sv'))"

section \<open>The proxy panel\<close>

definition proxy_host_max_length :: nat where
  "proxy_host_max_length = 255"

record proxy_panel =
  pp_addr :: string
  pp_port :: string
  pp_user :: string
  pp_pass :: string

fun panel_digits :: "u32 \<Rightarrow> string \<Rightarrow> u32 option" where
  "panel_digits port [] = Some port"
| "panel_digits port (d # ds) =
     (if \<not> is_digit d then None else panel_digits (port * 10 + of_nat (digit_value d)) ds)"

definition panel_port :: "string \<Rightarrow> u32 option" where
  "panel_port port =
     (if length port > proxy_port_max_length then None
      else (case panel_digits 0 port of
              None \<Rightarrow> None
            | Some v \<Rightarrow> if v = 0 \<or> v > 65535 then None else Some v))"

definition bare_host :: "string \<Rightarrow> string" where
  "bare_host addr =
     (if hd addr = CHR ''['' \<and> length addr > 2 \<and> last addr = CHR '']'' then take (length addr - 2) (drop 1 addr) else addr)"

definition panel_credentials :: "string \<Rightarrow> string \<Rightarrow> server_cmd" where
  "panel_credentials user pass =
     (if user = [] then ClearCredentials
      else if pass = [] then SetCredentials (Some user) None
      else SetCredentials (Some user) (Some pass))"

definition proxy_click :: "(string \<Rightarrow> ip_address option) \<Rightarrow> bool \<Rightarrow> proxy_panel \<Rightarrow> string + server_cmd list" where
  "proxy_click make_address on panel =
     (if \<not> on then Inr [ClearProxy]
      else
        let addr = trim (pp_addr panel); port = trim (pp_port panel); user = trim (pp_user panel); pass = pp_pass panel in
        if length user > proxy_credential_max_length \<or> length pass > proxy_credential_max_length
        then Inl ''username and password must each be at most 255 characters''
        else if addr = [] \<or> port = [] then Inl ''an IP address and a port are both required''
        else (case panel_port port of
                None \<Rightarrow> Inl ''the port must be a number from 1 to 65535''
              | Some v \<Rightarrow>
                  if length addr > proxy_host_max_length then Inl ''the proxy address is too long to be an IP address''
                  else (case make_address (bare_host addr) of
                          None \<Rightarrow> Inl ''the proxy address must be a numeric IPv4 or IPv6 address; names are not resolved here''
                        | Some ip_addr \<Rightarrow> Inr [SetProxy ip_addr v, panel_credentials user pass])))"

section \<open>The process list\<close>

type_synonym process_vector = "(DWORD \<times> string) list"

fun erase_first :: "DWORD \<Rightarrow> process_vector \<Rightarrow> process_vector" where
  "erase_first pid [] = []"
| "erase_first pid (row # rows) = (if fst row = pid then rows else row # erase_first pid rows)"

definition gui_process_pid :: "string \<Rightarrow> DWORD \<Rightarrow> process_vector \<Rightarrow> process_vector" where
  "gui_process_pid name pid vec = sort (vec @ [(pid, name)])"

definition gui_process_close :: "DWORD \<Rightarrow> process_vector \<Rightarrow> process_vector" where
  "gui_process_close pid vec =
     (if list_ex (\<lambda>row. fst row = pid) vec then sort (erase_first pid vec) else vec)"

text \<open>The end and the hello of a session with the window's overrides (the exit flag of the command
  line tool, which \<open>session_halt\<close> also sets, means nothing here).\<close>

definition gui_end :: "nat \<Rightarrow> injector_server \<times> process_vector \<Rightarrow> injector_server \<times> process_vector" where
  "gui_end sid g =
     (case g of (sv, vec) \<Rightarrow>
        (session_halt sid lost sv,
         if se_opened (sv_sessions sv sid) then gui_process_close (se_pid (sv_sessions sv sid)) vec else vec))"

definition gui_hello ::
  "string \<Rightarrow> nat \<Rightarrow> DWORD \<Rightarrow> u8 list option \<Rightarrow> injector_server \<times> process_vector \<Rightarrow> injector_server \<times> process_vector" where
  "gui_hello name sid pid token g =
     (if token_matches pid token (sv_store (fst g))
      then (process_hello [] sid pid token (fst g), gui_process_pid name pid (snd g))
      else gui_end sid g)"

section \<open>Lemmas\<close>

definition digits_value :: "string \<Rightarrow> nat" where
  "digits_value text = foldl (\<lambda>n c. n * 10 + digit_value c) 0 text"

lemma digit_value_bound: "is_digit c \<Longrightarrow> digit_value c \<le> 9"
  by (auto simp: is_digit_def digit_value_def Let_def)

lemma digits_bound:
  "\<forall>c \<in> set ds. is_digit c \<Longrightarrow> foldl (\<lambda>n c. n * 10 + digit_value c) a ds < (a + 1) * 10 ^ length ds"
proof (induction ds arbitrary: a)
  case (Cons d ds)
  have "foldl (\<lambda>n c. n * 10 + digit_value c) (a * 10 + digit_value d) ds < (a * 10 + digit_value d + 1) * 10 ^ length ds"
    using Cons.prems by (intro Cons.IH) simp
  also have "\<dots> \<le> ((a + 1) * 10) * 10 ^ length ds"
    using digit_value_bound [of d] Cons.prems by (intro mult_right_mono) auto
  finally show ?case by (simp add: algebra_simps)
qed simp

lemma id_digits_value:
  "id_digits (of_nat a) ds =
     (if \<forall>c \<in> set ds. is_digit c then Some (of_nat (foldl (\<lambda>n c. n * 10 + digit_value c) a ds)) else None)"
proof (induction ds arbitrary: a)
  case (Cons d ds)
  have e: "of_nat a * 10 + of_nat (digit_value d) = (of_nat (a * 10 + digit_value d) :: u64)" by simp
  show ?case using Cons.IH [of "a * 10 + digit_value d"] by (simp only: id_digits.simps e) simp
qed simp

lemma panel_digits_eq: "panel_digits port ds = port_digits port ds"
  by (induction ds arbitrary: port) auto

lemma panel_port_eq: "port \<noteq> [] \<Longrightarrow> map_option ucast (panel_port port) = parse_port port"
  by (simp add: panel_port_def parse_port_def panel_digits_eq split: option.split)

section \<open>Properties\<close>

text \<open>The pid box takes exactly the decimal numbers from 1 to 4294967295 written in at most ten
  digits, and yields that number; nothing typed into it overflows.\<close>

theorem process_id_box:
  "parse_process_id text = Inr pid \<longleftrightarrow>
     text \<noteq> [] \<and> length text \<le> 10 \<and> (\<forall>c \<in> set text. is_digit c) \<and>
     0 < digits_value text \<and> digits_value text = unat pid"
proof (cases "text \<noteq> [] \<and> length text \<le> 10 \<and> (\<forall>c \<in> set text. is_digit c)")
  case False
  then show ?thesis
    using id_digits_value [of 0 "text"]
    by (auto simp: parse_process_id_def process_id_max_digits_def)
next
  case True
  let ?n = "digits_value text"
  have "?n < 10 ^ length text" using digits_bound [of "text" 0] True by (simp add: digits_value_def)
  also have "\<dots> \<le> 10 ^ 10" using True by (intro power_increasing) auto
  finally have small: "?n < 2 ^ 64" by simp
  have u: "unat (of_nat ?n :: u64) = ?n" using small by (simp add: unsigned_of_nat take_bit_nat_eq_self)
  have d: "id_digits 0 text = Some (of_nat ?n)" using id_digits_value [of 0 "text"] True by (simp add: digits_value_def)
  have z: "(of_nat ?n :: u64) = 0 \<longleftrightarrow> ?n = 0" using unat_eq_zero [of "of_nat ?n :: u64"] unfolding u by blast
  have big: "(0xFFFFFFFF :: u64) < of_nat ?n \<longleftrightarrow> 0xFFFFFFFF < ?n" by (simp add: word_less_nat_alt u)
  have c: "ucast (of_nat ?n :: u64) = pid \<longleftrightarrow> ?n = unat pid" if "\<not> 0xFFFFFFFF < ?n"
  proof -
    have "unat (ucast (of_nat ?n :: u64) :: u32) = ?n"
      using that by (simp add: unsigned_ucast_eq u take_bit_nat_eq_self)
    then show ?thesis by (metis unsigned_word_eqI)
  qed
  have "unat pid < 2 ^ 32" using unsigned_less [where 'a = nat and w = pid] by simp
  then show ?thesis
    using True d z big c by (auto simp: parse_process_id_def process_id_max_digits_def)
qed


lemma process_id_box_witness: "parse_process_id ''4294967295'' = Inr 4294967295"
  using process_id_box [of "''4294967295''" 4294967295] by (simp add: is_digit_def digits_value_def digit_value_def)

text \<open>What asio's \<open>make_address\<close> is documented to do: a numeric address is not empty and has no
  bracket and no \<open>@\<close> in it.\<close>

definition numeric_only :: "(string \<Rightarrow> ip_address option) \<Rightarrow> bool" where
  "numeric_only make_address \<longleftrightarrow>
     (\<forall>s. make_address s \<noteq> None \<longrightarrow> s \<noteq> [] \<and> CHR ''['' \<notin> set s \<and> CHR '']'' \<notin> set s \<and> CHR ''@'' \<notin> set s)"

text \<open>The endpoint that the fields of the panel spell.\<close>

definition panel_endpoint :: "proxy_panel \<Rightarrow> u32 \<Rightarrow> proxy_endpoint" where
  "panel_endpoint panel v =
     (let user = trim (pp_user panel) in
      \<lparr>px_host = bare_host (trim (pp_addr panel)), px_port = ucast v,
       px_username = (if user = [] then None else Some user),
       px_password = (if user = [] \<or> pp_pass panel = [] then None else Some (pp_pass panel))\<rparr>)"

lemma panel_port_range: "panel_port s = Some v \<Longrightarrow> v \<noteq> 0 \<and> v \<le> 65535"
  by (auto simp: panel_port_def split: if_splits option.splits)

lemma port_fits: "v \<noteq> 0 \<Longrightarrow> v \<le> 65535 \<Longrightarrow> (ucast (v :: u32) :: u16) \<noteq> 0"
proof -
  assume v: "v \<noteq> 0" "v \<le> 65535"
  have "unat (ucast v :: u16) = unat v"
    using v(2) by (simp add: unsigned_ucast_eq take_bit_nat_eq_self word_le_nat_alt)
  then show ?thesis using v(1) by (metis unat_0 unat_eq_zero)
qed

lemma panel_accepts:
  assumes "proxy_click make_address True panel = Inr cmds" and "numeric_only make_address"
    and "CHR '':'' \<notin> set (trim (pp_user panel))"
  shows "\<exists>v ip. make_address (bare_host (trim (pp_addr panel))) = Some ip \<and> v \<noteq> 0 \<and> v \<le> 65535 \<and>
    endpoint_valid (panel_endpoint panel v) \<and>
    cmds = [SetProxy ip v, panel_credentials (trim (pp_user panel)) (pp_pass panel)]"
proof -
  obtain v ip where p: "panel_port (trim (pp_port panel)) = Some v" "make_address (bare_host (trim (pp_addr panel))) = Some ip"
    "cmds = [SetProxy ip v, panel_credentials (trim (pp_user panel)) (pp_pass panel)]"
    and len: "length (trim (pp_user panel)) \<le> proxy_credential_max_length" "length (pp_pass panel) \<le> proxy_credential_max_length"
    using assms(1) by (auto simp: proxy_click_def Let_def split: if_splits option.splits)
  have v: "v \<noteq> 0" "v \<le> 65535" using panel_port_range [OF p(1)] by simp_all
  have "make_address (bare_host (trim (pp_addr panel))) \<noteq> None" using p(2) by simp
  then have "bare_host (trim (pp_addr panel)) \<noteq> [] \<and> CHR ''['' \<notin> set (bare_host (trim (pp_addr panel))) \<and>
      CHR '']'' \<notin> set (bare_host (trim (pp_addr panel))) \<and> CHR ''@'' \<notin> set (bare_host (trim (pp_addr panel)))"
    using assms(2) unfolding numeric_only_def by blast
  then have "endpoint_valid (panel_endpoint panel v)"
    using assms(3) len port_fits [OF v] by (auto simp: endpoint_valid_def panel_endpoint_def Let_def)
  then show ?thesis using p v by blast
qed

lemma no_colon_in_user:
  assumes "proxy_option make_address url = Inr (Some (endpoint, ip))" and "px_username endpoint = Some user"
  shows "CHR '':'' \<notin> set user"
proof -
  have "parse_proxy_url url = Some endpoint"
    using assms(1) by (auto simp: proxy_option_def Let_def split: if_splits option.splits)
  from parse_proxy_url_sound [OF this] assms(2) show ?thesis by (simp add: endpoint_valid_def)
qed

text \<open>C5: Unless the user name has a colon in it, what the window accepts the command line accepts: the
  fields of an accepted panel, printed as an endpoint, pass the checks of \<open>-p\<close> with the same
  address, and on a fresh server both front ends leave the same configuration. A user name with a
  colon, which the window takes as well, no argument of \<open>-p\<close> can give. (An address that
  \<open>make_address\<close> takes is not empty and has no bracket and no at-sign.)\<close>

theorem panel_agrees_with_cli:
  assumes "proxy_click make_address True panel = Inr cmds" and "numeric_only make_address"
  shows "(CHR '':'' \<notin> set (trim (pp_user panel)) \<longrightarrow>
     (\<exists>v ip. let endpoint = panel_endpoint panel v; proxy = Some (endpoint, ip) in
       proxy_option make_address (endpoint_url endpoint) = Inr proxy \<and>
       sv_config (server_run cmds server_init) = sv_config (server_run (proxy_commands proxy @ credential_commands proxy) server_init))) \<and>
    (CHR '':'' \<in> set (trim (pp_user panel)) \<longrightarrow>
     (\<forall>url endpoint ip. proxy_option make_address url = Inr (Some (endpoint, ip)) \<longrightarrow>
       px_username endpoint \<noteq> Some (trim (pp_user panel))))"
proof (intro conjI impI)
  assume "CHR '':'' \<in> set (trim (pp_user panel))"
  then show "\<forall>url endpoint ip. proxy_option make_address url = Inr (Some (endpoint, ip)) \<longrightarrow>
      px_username endpoint \<noteq> Some (trim (pp_user panel))"
    using no_colon_in_user by blast
next
  assume plain: "CHR '':'' \<notin> set (trim (pp_user panel))"
  from panel_accepts [OF assms plain] obtain v ip where
    p: "make_address (bare_host (trim (pp_addr panel))) = Some ip" "v \<noteq> 0" "v \<le> 65535"
      "endpoint_valid (panel_endpoint panel v)"
      "cmds = [SetProxy ip v, panel_credentials (trim (pp_user panel)) (pp_pass panel)]"
    by blast
  let ?e = "panel_endpoint panel v"
  have host: "px_host ?e = bare_host (trim (pp_addr panel))" by (simp add: panel_endpoint_def Let_def)
  have ne: "endpoint_url ?e \<noteq> []" by (simp add: endpoint_url_def)
  have opt: "proxy_option make_address (endpoint_url ?e) = Inr (Some (?e, ip))"
    using parse_printed_url [OF p(4)] ne p(1) by (simp add: proxy_option_def Let_def host)
  have "sv_config (server_run cmds server_init) =
      sv_config (server_run (proxy_commands (Some (?e, ip)) @ credential_commands (Some (?e, ip))) server_init)"
    using p(5)
    by (simp add: server_run_def proxy_commands_def credential_commands_def panel_credentials_def setter_defs Let_def
        broadcast_config_def server_init_def panel_endpoint_def ucast_up_ucast_id is_up)
  then show "\<exists>v ip. let endpoint = panel_endpoint panel v; proxy = Some (endpoint, ip) in
      proxy_option make_address (endpoint_url endpoint) = Inr proxy \<and>
      sv_config (server_run cmds server_init) = sv_config (server_run (proxy_commands proxy @ credential_commands proxy) server_init)"
    using opt by (intro exI [of _ v] exI [of _ ip]) (simp add: Let_def)
qed

definition demo_panel :: proxy_panel where
  "demo_panel = \<lparr>pp_addr = '' [::1] '', pp_port = ''1080'', pp_user = ''bob'', pp_pass = ''x y''\<rparr>"

definition demo_address :: "string \<Rightarrow> ip_address option" where
  "demo_address s = (if s = ''::1'' then Some (AddressV6 (replicate 15 0 @ [1])) else None)"

lemma panel_agrees_with_cli_witness:
  "\<exists>v ip. proxy_option demo_address (endpoint_url (panel_endpoint demo_panel v)) = Inr (Some (panel_endpoint demo_panel v, ip))"
proof -
  have t: "trim (pp_addr demo_panel) = ''[::1]''" "trim (pp_port demo_panel) = ''1080''" "trim (pp_user demo_panel) = ''bob''"
    "panel_port ''1080'' = Some 1080" "bare_host ''[::1]'' = ''::1''"
    by code_simp+
  have c: "proxy_click demo_address True demo_panel =
      Inr [SetProxy (AddressV6 (replicate 15 0 @ [1])) 1080, panel_credentials ''bob'' (pp_pass demo_panel)]"
    unfolding proxy_click_def Let_def t
    by (simp add: demo_address_def demo_panel_def proxy_credential_max_length_def proxy_host_max_length_def)
  have "CHR '':'' \<notin> set (trim (pp_user demo_panel))" unfolding t by simp
  moreover have "numeric_only demo_address" by (simp add: numeric_only_def demo_address_def)
  ultimately show ?thesis using panel_agrees_with_cli [OF c] unfolding Let_def by blast
qed

text \<open>A panel with such a name is accepted.\<close>

lemma panel_takes_colon:
  "proxy_click (\<lambda>_. Some (AddressV4 1)) True \<lparr>pp_addr = ''1'', pp_port = ''80'', pp_user = ''a:b'', pp_pass = []\<rparr> =
     Inr [SetProxy (AddressV4 1) 80, SetCredentials (Some ''a:b'') None]"
proof -
  have "trim ''1'' = ''1''" "trim ''80'' = ''80''" "trim ''a:b'' = ''a:b''" "panel_port ''80'' = Some 80" by code_simp+
  then show ?thesis
    by (simp add: proxy_click_def panel_credentials_def proxy_credential_max_length_def proxy_host_max_length_def)
qed

text \<open>
  An empty password box is meant to unset the password, but \<open>set_proxy_credentials\<close> leaves a field it
  is not given as it was: the password of the previous login stays in force for the new user.
\<close>

lemma panel_keeps_old_password:
  "sv_config (server_run [SetProxy ip v, panel_credentials ''alice'' ''secret'', SetProxy ip v, panel_credentials ''bob'' []] sv) =
     (sv_config sv)\<lparr>cf_addr := Some (from_asio ip (ucast v)), cf_username := Some ''bob'', cf_password := Some ''secret''\<rparr>"
  by (simp add: server_run_def panel_credentials_def setter_defs Let_def broadcast_config_def)

text \<open>
  A second session of a pid that is still registered is not registered, but it adds a row; when the
  two sessions have ended, one of the two rows is left.
\<close>

lemma unregistered_session_leaves_row:
  "snd (gui_end 2 (gui_end 1 (gui_hello ''app'' 2 7 (Some demo_token) (gui_hello ''app'' 1 7 (Some demo_token)
     (server_run [SetPort 80, Inject demo_env 7] server_init, []))))) = [(7, ''app'')]"
  by code_simp

end
