(* ===== verification/Text_Box.thy ===== *)
theory Text_Box
  imports Prelude
begin

text \<open>
  src/injector/ui_elements/text_box.cpp: the read-only text box that shows the connection log, as a
  state (text, selection, savers handed to the view's undo list) with one function per event. The
  UTF-8 steps, the character classes and \<open>clamp\<close> of the elements library are the parameter
  \<open>text_lib\<close>, the rows of the laid-out text a function of the text in \<open>text_ctx\<close>. Coordinates are
  of any type with an order and a sum, so nothing rests on laws that floats do not have. An
  operation is \<open>None\<close> where the code's behaviour is undefined: an offset outside the text, the last
  of no rows, a loop that does not end. Drawing is Box_Drawing.
\<close>

section \<open>What the library provides\<close>

text \<open>Positions are offsets into the text, which is passed along.\<close>

record text_lib =
  tl_next :: "string \<Rightarrow> nat \<Rightarrow> nat"
  tl_prev :: "string \<Rightarrow> nat \<Rightarrow> nat"
  tl_codepoint :: "string \<Rightarrow> nat \<Rightarrow> nat"
  tl_space :: "nat \<Rightarrow> bool"
  tl_punctuation :: "nat \<Rightarrow> bool"
  tl_newline :: "nat \<Rightarrow> bool"
  tl_clamp :: "int \<Rightarrow> int \<Rightarrow> int \<Rightarrow> int"

record 'c text_row =
  tr_begin :: nat
  tr_end :: nat
  tr_width :: 'c
  tr_glyphs :: "(nat \<times> 'c \<times> 'c) list"

record 'c text_ctx =
  tc_left :: 'c
  tc_top :: 'c
  tc_ascent :: 'c
  tc_descent :: 'c
  tc_leading :: 'c
  tc_rows :: "string \<Rightarrow> 'c text_row list"
  tc_float :: "nat \<Rightarrow> 'c"

definition line_height :: "('c :: plus) text_ctx \<Rightarrow> 'c" where
  "line_height ctx = tc_ascent ctx + tc_descent ctx + tc_leading ctx"

definition word_break :: "text_lib \<Rightarrow> string \<Rightarrow> nat \<Rightarrow> bool" where
  "word_break lib txt p = (let cp = tl_codepoint lib txt p in tl_space lib cp \<or> tl_punctuation lib cp)"

text \<open>\<open>*p\<close>; the octet after the text is the terminator.\<close>

definition octet_at :: "string \<Rightarrow> nat \<Rightarrow> nat" where
  "octet_at txt p = (if p < length txt then of_char (txt ! p) else 0)"

section \<open>State\<close>

text \<open>What a \<open>state_saver\<close> copies: text, selection start, selection end.\<close>

type_synonym saver = "string \<times> int \<times> int"

record 'c text_box =
  tb_text :: string
  tb_start :: int
  tb_end :: int
  tb_x :: 'c
  tb_typing :: "saver option"
  tb_focus :: bool
  tb_undo :: "(saver \<times> saver) list"
  tb_clipboard :: string

definition text_box_init :: "string \<Rightarrow> 'c \<Rightarrow> string \<Rightarrow> 'c text_box" where
  "text_box_init txt zero clip =
     \<lparr>tb_text = txt, tb_start = -1, tb_end = -1, tb_x = zero, tb_typing = None, tb_focus = False,
      tb_undo = [], tb_clipboard = clip\<rparr>"

definition capture_state :: "'c text_box \<Rightarrow> saver" where
  "capture_state b = (tb_text b, tb_start b, tb_end b)"

definition run_saver :: "saver \<Rightarrow> 'c text_box \<Rightarrow> 'c text_box" where
  "run_saver s b = (case s of (txt, st, en) \<Rightarrow> b\<lparr>tb_text := txt, tb_start := st, tb_end := en\<rparr>)"

text \<open>The view's list of undo entries, newest first.\<close>

definition add_undo :: "saver \<Rightarrow> saver \<Rightarrow> 'c text_box \<Rightarrow> 'c text_box" where
  "add_undo undo_f redo_f b =
     (case tb_typing b of
        None \<Rightarrow> b\<lparr>tb_undo := (undo_f, redo_f) # tb_undo b\<rparr>
      | Some typing \<Rightarrow> b\<lparr>tb_typing := None, tb_undo := (undo_f, redo_f) # (typing, undo_f) # tb_undo b\<rparr>)"

section \<open>From a point to an offset and back\<close>

fun caret_rows :: "('c :: {ord, plus}) \<Rightarrow> 'c \<Rightarrow> 'c \<times> 'c \<Rightarrow> 'c \<Rightarrow> 'c text_row list \<Rightarrow> nat option" where
  "caret_rows x lh p y [] = None"
| "caret_rows x lh p y (row # rows) =
     (if snd p \<ge> y \<and> snd p < y + lh then
        (if fst p \<le> x then Some (tr_begin row)
         else (case find (\<lambda>(utf8, l, r). fst p \<ge> x + l \<and> fst p < x + r) (tr_glyphs row) of
                 Some (utf8, _) \<Rightarrow> Some utf8
               | None \<Rightarrow> Some (tr_end row)))
      else caret_rows x lh p (y + lh) rows)"

definition caret_position :: "('c :: {ord, plus}) text_ctx \<Rightarrow> string \<Rightarrow> 'c \<times> 'c \<Rightarrow> nat option" where
  "caret_position ctx txt p = caret_rows (tc_left ctx) (line_height ctx) p (tc_top ctx) (tc_rows ctx txt)"

text \<open>The position a glyph is drawn at; \<open>None\<close> when \<open>info.str\<close> stays null.\<close>

fun glyph_rows :: "('c :: {plus, minus}) \<Rightarrow> 'c \<Rightarrow> nat \<Rightarrow> 'c \<Rightarrow> 'c text_row option \<Rightarrow> 'c text_row list \<Rightarrow> ('c \<times> 'c) option" where
  "glyph_rows x lh s y prev_row [] = None"
| "glyph_rows x lh s y prev_row (row # rows) =
     (if tr_begin row \<le> s \<and> s < tr_end row then
        map_option (\<lambda>(utf8, l, r). (x + l, y)) (find (\<lambda>(utf8, l, r). s \<le> utf8) (tr_glyphs row))
      else
        (case prev_row of
           Some prev \<Rightarrow>
             if s < tr_begin row then Some (x + tr_width prev, y - lh)
             else glyph_rows x lh s (y + lh) (Some row) rows
         | None \<Rightarrow> glyph_rows x lh s (y + lh) (Some row) rows))"

definition glyph_pos :: "('c :: {plus, minus, times}) text_ctx \<Rightarrow> string \<Rightarrow> nat \<Rightarrow> ('c \<times> 'c) option option" where
  "glyph_pos ctx txt s =
     (let x = tc_left ctx; y = tc_top ctx + tc_ascent ctx; rows = tc_rows ctx txt in
      if s = length txt then
        (if rows = [] then None
         else Some (Some (x + tr_width (last rows), y + line_height ctx * tc_float ctx (length rows - 1))))
      else Some (glyph_rows x (line_height ctx) s y None rows))"

section \<open>Loops over the text\<close>

text \<open>\<open>while (go(p)) p = step(p);\<close>\<close>

partial_function (option) walk :: "(nat \<Rightarrow> bool) \<Rightarrow> (nat \<Rightarrow> nat) \<Rightarrow> nat \<Rightarrow> nat option" where
  "walk go step p = (if go p then walk go step (step p) else Some p)"

text \<open>\<open>&_text[_select_end]\<close>: the terminator is the last octet there is.\<close>

definition at_caret :: "'c text_box \<Rightarrow> nat option" where
  "at_caret b =
     (if 0 \<le> tb_end b \<and> tb_end b \<le> int (length (tb_text b)) then Some (nat (tb_end b)) else None)"

definition move_to :: "'c text_box \<Rightarrow> nat option \<Rightarrow> 'c text_box option" where
  "move_to b q = map_option (\<lambda>p. b\<lparr>tb_end := int p\<rparr>) q"

definition next_char :: "text_lib \<Rightarrow> 'c text_box \<Rightarrow> 'c text_box option" where
  "next_char lib b =
     (if tb_end b < int (length (tb_text b))
      then move_to b (map_option (tl_next lib (tb_text b)) (at_caret b)) else Some b)"

definition prev_char :: "text_lib \<Rightarrow> 'c text_box \<Rightarrow> 'c text_box option" where
  "prev_char lib b =
     (if tb_end b > 0 then move_to b (map_option (tl_prev lib (tb_text b)) (at_caret b)) else Some b)"

definition word_after :: "text_lib \<Rightarrow> string \<Rightarrow> nat \<Rightarrow> nat option" where
  "word_after lib txt p =
     Option.bind (walk (\<lambda>p. p \<noteq> length txt \<and> word_break lib txt p) (tl_next lib txt) p)
       (walk (\<lambda>p. p \<noteq> length txt \<and> \<not> word_break lib txt p) (tl_next lib txt))"

definition next_word :: "text_lib \<Rightarrow> 'c text_box \<Rightarrow> 'c text_box option" where
  "next_word lib b =
     (if tb_end b < int (length (tb_text b))
      then move_to b (Option.bind (at_caret b) (word_after lib (tb_text b))) else Some b)"

definition word_before :: "text_lib \<Rightarrow> string \<Rightarrow> nat \<Rightarrow> nat option" where
  "word_before lib txt p =
     map_option (\<lambda>p. if p \<noteq> 0 then tl_next lib txt p else p)
       (Option.bind (walk (\<lambda>p. p \<noteq> 0 \<and> word_break lib txt p) (tl_prev lib txt) (tl_prev lib txt p))
         (walk (\<lambda>p. p \<noteq> 0 \<and> \<not> word_break lib txt p) (tl_prev lib txt)))"

definition prev_word :: "text_lib \<Rightarrow> 'c text_box \<Rightarrow> 'c text_box option" where
  "prev_word lib b =
     (if tb_end b > 0
      then move_to b (Option.bind (at_caret b) (word_before lib (tb_text b))) else Some b)"

text \<open>Up and down, with whether the caret moved.\<close>

definition up_down :: "('c :: {ord, plus, minus, times, uminus}) text_ctx \<Rightarrow> bool \<Rightarrow> 'c text_box \<Rightarrow> (bool \<times> 'c text_box) option" where
  "up_down ctx up b =
     Option.bind (at_caret b) (\<lambda>s. Option.bind (glyph_pos ctx (tb_text b) s) (\<lambda>info.
       Some (case info of
         None \<Rightarrow> (False, b)
       | Some pos \<Rightarrow>
           let y = (if up then - line_height ctx else line_height ctx);
               cp = caret_position ctx (tb_text b) (tc_left ctx + tb_x b, snd pos + y)
           in (True, b\<lparr>tb_end := (case cp of Some p \<Rightarrow> int p
                                        | None \<Rightarrow> if up then 0 else int (length (tb_text b)))\<rparr>))))"

section \<open>The caret and the scroller\<close>

text \<open>What \<open>scroll_into_view\<close> leaves in the box: the column the caret is kept in.\<close>

definition scroll_into_view :: "('c :: {plus, minus, times}) text_ctx \<Rightarrow> bool \<Rightarrow> 'c text_box \<Rightarrow> 'c text_box option" where
  "scroll_into_view ctx save_x b =
     (if tb_text b = [] then Some (if save_x then b\<lparr>tb_x := tc_float ctx 0\<rparr> else b)
      else if tb_end b = -1 then Some b
      else Option.bind (at_caret b) (\<lambda>s. Option.bind (glyph_pos ctx (tb_text b) s) (\<lambda>info.
        Some (case info of
          None \<Rightarrow> b
        | Some pos \<Rightarrow> if save_x then b\<lparr>tb_x := fst pos - tc_left ctx\<rparr> else b))))"

section \<open>Keys\<close>

datatype key_action = Press | Repeat | Release | Unknown_Action
datatype key_code = K_Enter | K_Backspace | K_Delete | K_Left | K_Right | K_Up | K_Down
  | K_A | K_X | K_C | K_V | K_Z | K_Other

record key_info =
  ki_key :: key_code
  ki_action :: key_action
  ki_shift :: bool
  ki_alt :: bool
  ki_mod_action :: bool

text \<open>The editing bodies of \<open>delete_\<close>, \<open>paste\<close> and Enter are commented out in the source.\<close>

definition delete_text :: "bool \<Rightarrow> 'c text_box \<Rightarrow> 'c text_box" where
  "delete_text forward b = b"

text \<open>\<open>substr\<close> throws when it starts past the end.\<close>

definition copy_text :: "int \<Rightarrow> int \<Rightarrow> 'c text_box \<Rightarrow> 'c text_box option" where
  "copy_text st en b =
     (if st \<noteq> -1 \<and> st \<noteq> en then
        (if st < 0 \<or> st > int (length (tb_text b)) then None
         else Some (b\<lparr>tb_clipboard := take (nat (max st en - min st en)) (drop (nat st) (tb_text b))\<rparr>))
      else Some b)"

definition cut_text :: "int \<Rightarrow> int \<Rightarrow> 'c text_box \<Rightarrow> 'c text_box option" where
  "cut_text st en b =
     (if st \<noteq> -1 \<and> st \<noteq> en then map_option (delete_text False) (copy_text st en b) else Some b)"

definition paste_text :: "int \<Rightarrow> int \<Rightarrow> 'c text_box \<Rightarrow> 'c text_box" where
  "paste_text st en b = b"

text \<open>The view runs one of the savers it was handed, if any: the entry is \<open>pick\<close>.\<close>

definition view_runs :: "bool \<Rightarrow> nat option \<Rightarrow> 'c text_box \<Rightarrow> 'c text_box" where
  "view_runs redo pick b =
     (case pick of
        None \<Rightarrow> b
      | Some i \<Rightarrow> if i < length (tb_undo b)
                  then run_saver ((if redo then snd else fst) (tb_undo b ! i)) b else b)"

text \<open>The body of the switch; the flags are \<open>move_caret\<close>, \<open>save_x\<close> and \<open>handled\<close>.\<close>

definition arrow :: "(int \<Rightarrow> int \<Rightarrow> int) \<Rightarrow> bool \<Rightarrow> ('c text_box \<Rightarrow> 'c text_box option) \<Rightarrow> 'c text_box \<Rightarrow> 'c text_box option" where
  "arrow towards shift move b =
     (if tb_end b \<noteq> -1 then
        map_option (\<lambda>b1. if shift then b1
                         else let c = towards (tb_start b1) (tb_end b1) in b1\<lparr>tb_start := c, tb_end := c\<rparr>) (move b)
      else Some b)"

definition key_switch ::
  "text_lib \<Rightarrow> ('c :: {ord, plus, minus, times, uminus}) text_ctx \<Rightarrow> nat option \<Rightarrow> key_info \<Rightarrow> 'c text_box \<Rightarrow>
     ((bool \<times> bool \<times> bool) \<times> 'c text_box) option" where
  "key_switch lib ctx pick k b =
     (let st = min (tb_end b) (tb_start b); en = max (tb_end b) (tb_start b); undo_f = capture_state b;
          recorded = (\<lambda>b1. Some ((False, True, True), add_undo undo_f (capture_state b1) b1));
          unhandled = Some ((False, False, False), b)
      in case ki_key k of
           K_Backspace \<Rightarrow> recorded (delete_text False b)
         | K_Delete \<Rightarrow> recorded (delete_text True b)
         | K_Left \<Rightarrow> map_option (Pair (True, True, True))
             (arrow min (ki_shift k) (if ki_alt k then prev_word lib else prev_char lib) b)
         | K_Right \<Rightarrow> map_option (Pair (True, True, True))
             (arrow max (ki_shift k) (if ki_alt k then next_word lib else next_char lib) b)
         | K_Up \<Rightarrow> map_option (\<lambda>(moved, b1). ((moved, False, True), b1)) (up_down ctx True b)
         | K_Down \<Rightarrow> map_option (\<lambda>(moved, b1). ((moved, False, True), b1)) (up_down ctx False b)
         | K_A \<Rightarrow> if ki_mod_action k
                  then Some ((False, False, True), b\<lparr>tb_start := 0, tb_end := int (length (tb_text b))\<rparr>) else unhandled
         | K_X \<Rightarrow> if ki_mod_action k then Option.bind (cut_text st en b) recorded else unhandled
         | K_C \<Rightarrow> if ki_mod_action k then map_option (Pair (False, False, True)) (copy_text st en b) else unhandled
         | K_V \<Rightarrow> if ki_mod_action k then recorded (paste_text st en b) else unhandled
         | K_Z \<Rightarrow> if ki_mod_action k then
                    (let b1 = (case tb_typing b of
                                 None \<Rightarrow> b
                               | Some typing \<Rightarrow> b\<lparr>tb_typing := None, tb_undo := (typing, undo_f) # tb_undo b\<rparr>)
                     in Some ((False, False, True), view_runs (ki_shift k) pick b1))
                  else unhandled
         | _ \<Rightarrow> unhandled)"

definition settle_caret :: "text_lib \<Rightarrow> bool \<Rightarrow> bool \<Rightarrow> 'c text_box \<Rightarrow> 'c text_box" where
  "settle_caret lib shift move_caret b =
     (if move_caret then
        (let size = int (length (tb_text b));
             b1 = b\<lparr>tb_start := tl_clamp lib (tb_start b) 0 size, tb_end := tl_clamp lib (tb_end b) 0 size\<rparr>
         in if shift then b1 else b1\<lparr>tb_start := tb_end b1\<rparr>)
      else b)"

definition key_press ::
  "text_lib \<Rightarrow> ('c :: {ord, plus, minus, times, uminus}) text_ctx \<Rightarrow> nat option \<Rightarrow> key_info \<Rightarrow> 'c text_box \<Rightarrow>
     (bool \<times> 'c text_box) option" where
  "key_press lib ctx pick k b =
     (if tb_start b = -1 \<or> ki_action k = Release \<or> ki_action k = Unknown_Action then Some (False, b)
      else Option.bind (key_switch lib ctx pick k b) (\<lambda>((move_caret, save_x, handled), b1).
        let b2 = settle_caret lib (ki_shift k) move_caret b1
        in map_option (Pair handled) (if handled then scroll_into_view ctx save_x b2 else Some b2)))"

section \<open>The mouse\<close>

record 'c mouse_button =
  mb_left :: bool
  mb_down :: bool
  mb_num_clicks :: nat
  mb_shift_only :: bool
  mb_pos :: "'c \<times> 'c"

text \<open>\<open>fixup\<close>: the start moves off the octet it stopped at, unless that is the first.\<close>

definition fixup :: "text_lib \<Rightarrow> string \<Rightarrow> nat \<Rightarrow> nat" where
  "fixup lib txt start = (if start \<noteq> 0 then tl_next lib txt start else start)"

definition click_word :: "text_lib \<Rightarrow> string \<Rightarrow> nat \<Rightarrow> (nat \<times> nat) option" where
  "click_word lib txt pos =
     Option.bind (walk (\<lambda>p. p < length txt \<and> \<not> word_break lib txt p) (tl_next lib txt) pos) (\<lambda>en.
     Option.bind (walk (\<lambda>p. p > 0 \<and> \<not> word_break lib txt p) (tl_prev lib txt) pos) (\<lambda>st.
       Some (fixup lib txt st, en)))"

definition click_line :: "text_lib \<Rightarrow> string \<Rightarrow> nat \<Rightarrow> (nat \<times> nat) option" where
  "click_line lib txt pos =
     Option.bind (walk (\<lambda>p. p < length txt \<and> \<not> tl_newline lib (octet_at txt p)) Suc pos) (\<lambda>en.
     Option.bind (walk (\<lambda>p. p > 0 \<and> \<not> tl_newline lib (octet_at txt p)) (\<lambda>p. p - 1) pos) (\<lambda>st.
       Some (fixup lib txt st, en)))"

definition select_range :: "'c text_box \<Rightarrow> nat \<times> nat \<Rightarrow> 'c text_box" where
  "select_range b r = b\<lparr>tb_start := int (fst r), tb_end := int (snd r)\<rparr>"

definition click_at :: "text_lib \<Rightarrow> 'c mouse_button \<Rightarrow> nat \<Rightarrow> 'c text_box \<Rightarrow> 'c text_box option" where
  "click_at lib btn pos b =
     (if mb_num_clicks btn \<noteq> 1 then
        (if mb_num_clicks btn = 2 then map_option (select_range b) (click_word lib (tb_text b) pos)
         else if mb_num_clicks btn = 3 then map_option (select_range b) (click_line lib (tb_text b) pos)
         else Some b)
      else
        (let hit = int pos in
         Some (if mb_shift_only btn \<and> tb_start b \<noteq> -1
               then (if hit < tb_start b then b\<lparr>tb_start := hit\<rparr> else b\<lparr>tb_end := hit\<rparr>)
               else b\<lparr>tb_start := hit, tb_end := hit\<rparr>)))"

definition click ::
  "text_lib \<Rightarrow> ('c :: {ord, plus, minus, times}) text_ctx \<Rightarrow> 'c mouse_button \<Rightarrow> 'c text_box \<Rightarrow> (bool \<times> 'c text_box) option" where
  "click lib ctx btn b =
     (if \<not> mb_left btn then Some (False, b)
      else if \<not> mb_down btn then Some (True, b)
      else if tb_text b = [] then map_option (Pair True) (scroll_into_view ctx False (b\<lparr>tb_start := 0, tb_end := 0\<rparr>))
      else (case caret_position ctx (tb_text b) (mb_pos btn) of
              None \<Rightarrow> Some (True, b)
            | Some pos \<Rightarrow>
                map_option (\<lambda>b1. (True, b1\<lparr>tb_x := fst (mb_pos btn) - tc_left ctx\<rparr>)) (click_at lib btn pos b)))"

definition drag :: "('c :: {ord, plus, minus, times}) text_ctx \<Rightarrow> 'c \<times> 'c \<Rightarrow> 'c text_box \<Rightarrow> 'c text_box option" where
  "drag ctx p b =
     (case caret_position ctx (tb_text b) p of
        None \<Rightarrow> Some b
      | Some pos \<Rightarrow> scroll_into_view ctx True (b\<lparr>tb_end := int pos\<rparr>))"

section \<open>Typing, new text, focus\<close>

definition text_typed :: "'c text_box \<Rightarrow> bool \<times> 'c text_box" where
  "text_typed b =
     (if tb_start b = -1 then (False, b)
      else
        let b1 = (if tb_start b > tb_end b then b\<lparr>tb_start := tb_end b, tb_end := tb_start b\<rparr> else b)
        in (True, if tb_typing b1 = None then b1\<lparr>tb_typing := Some (capture_state b1)\<rparr> else b1))"

definition set_text :: "string \<Rightarrow> 'c text_box \<Rightarrow> 'c text_box" where
  "set_text txt b =
     b\<lparr>tb_text := txt, tb_start := min (tb_start b) (int (length txt)), tb_end := min (tb_end b) (int (length txt))\<rparr>"

definition begin_focus :: "'c text_box \<Rightarrow> 'c text_box" where
  "begin_focus b =
     (let b1 = b\<lparr>tb_focus := True\<rparr> in if tb_start b1 = -1 then b1\<lparr>tb_start := 0, tb_end := 0\<rparr> else b1)"

definition end_focus :: "'c text_box \<Rightarrow> 'c text_box" where
  "end_focus b = b\<lparr>tb_focus := False\<rparr>"

definition select_start :: "int \<Rightarrow> 'c text_box \<Rightarrow> 'c text_box" where
  "select_start pos b =
     (if pos = -1 \<or> pos \<ge> 0 \<and> pos \<le> int (length (tb_text b)) then b\<lparr>tb_start := pos\<rparr> else b)"

definition select_end :: "int \<Rightarrow> 'c text_box \<Rightarrow> 'c text_box" where
  "select_end pos b =
     (if pos = -1 \<or> pos \<ge> 0 \<and> pos \<le> int (length (tb_text b)) then b\<lparr>tb_end := pos\<rparr> else b)"

definition select_all :: "'c text_box \<Rightarrow> 'c text_box" where
  "select_all b = b\<lparr>tb_start := 0, tb_end := int (length (tb_text b))\<rparr>"

definition select_none :: "'c text_box \<Rightarrow> 'c text_box" where
  "select_none b = b\<lparr>tb_start := -1, tb_end := -1\<rparr>"

section \<open>Events\<close>

datatype 'c box_event =
    Click "'c mouse_button"
  | Drag "'c \<times> 'c"
  | Key "nat option" key_info
  | Typed
  | Set_Text string
  | Begin_Focus
  | End_Focus
  | Select_All
  | Select_None

definition box_step ::
  "text_lib \<Rightarrow> ('c :: {ord, plus, minus, times, uminus}) text_ctx \<Rightarrow> 'c box_event \<Rightarrow> 'c text_box \<Rightarrow> 'c text_box option" where
  "box_step lib ctx ev b =
     (case ev of
        Click btn \<Rightarrow> map_option snd (click lib ctx btn b)
      | Drag p \<Rightarrow> drag ctx p b
      | Key pick k \<Rightarrow> map_option snd (key_press lib ctx pick k b)
      | Typed \<Rightarrow> Some (snd (text_typed b))
      | Set_Text txt \<Rightarrow> Some (set_text txt b)
      | Begin_Focus \<Rightarrow> Some (begin_focus b)
      | End_Focus \<Rightarrow> Some (end_focus b)
      | Select_All \<Rightarrow> Some (select_all b)
      | Select_None \<Rightarrow> Some (select_none b))"

fun box_run ::
  "text_lib \<Rightarrow> ('c :: {ord, plus, minus, times, uminus}) text_ctx \<Rightarrow> 'c box_event list \<Rightarrow> 'c text_box \<Rightarrow> 'c text_box option" where
  "box_run lib ctx [] b = Some b"
| "box_run lib ctx (ev # evs) b = Option.bind (box_step lib ctx ev b) (box_run lib ctx evs)"

section \<open>Laws of the library\<close>

text \<open>
  \<open>next_utf8\<close> advances and does not pass the end it is given, \<open>prev_utf8\<close> goes back, \<open>clamp\<close>
  leaves a value that is in range; a layout's rows and glyphs lie in the text, and a text that is
  not empty has a row.
\<close>

definition text_law :: "text_lib \<Rightarrow> bool" where
  "text_law lib \<longleftrightarrow>
     (\<forall>txt p. p < length txt \<longrightarrow> p < tl_next lib txt p) \<and>
     (\<forall>txt p. p \<le> length txt \<longrightarrow> tl_next lib txt p \<le> length txt) \<and>
     (\<forall>txt p. 0 < p \<longrightarrow> p \<le> length txt \<longrightarrow> tl_prev lib txt p < p) \<and>
     (\<forall>v lo hi. lo \<le> v \<longrightarrow> v \<le> hi \<longrightarrow> tl_clamp lib v lo hi = v)"

definition layout_law :: "'c text_ctx \<Rightarrow> bool" where
  "layout_law ctx \<longleftrightarrow>
     (\<forall>txt. (txt \<noteq> [] \<longrightarrow> tc_rows ctx txt \<noteq> []) \<and>
       (\<forall>row \<in> set (tc_rows ctx txt). tr_begin row \<le> length txt \<and> tr_end row \<le> length txt \<and>
          (\<forall>g \<in> set (tr_glyphs row). fst g \<le> length txt)))"

lemma text_lawD:
  assumes "text_law lib"
  shows "p < length txt \<Longrightarrow> p < tl_next lib txt p" "p \<le> length txt \<Longrightarrow> tl_next lib txt p \<le> length txt"
    "0 < p \<Longrightarrow> p \<le> length txt \<Longrightarrow> tl_prev lib txt p < p" "lo \<le> v \<Longrightarrow> v \<le> hi \<Longrightarrow> tl_clamp lib v lo hi = v"
  using assms by (auto simp: text_law_def)

lemma walk_up:
  assumes step: "\<And>p. p < n \<Longrightarrow> p < step p \<and> step p \<le> n" and stop: "\<not> go n" and "p \<le> n"
  shows "\<exists>q. walk go step p = Some q \<and> p \<le> q \<and> q \<le> n \<and> \<not> go q"
  using \<open>p \<le> n\<close>
proof (induction "n - p" arbitrary: p rule: less_induct)
  case less
  show ?case
  proof (cases "go p")
    case True
    with stop less.prems have "p < n" by (metis le_neq_implies_less)
    with step have s: "p < step p" "step p \<le> n" by auto
    then have "n - step p < n - p" using \<open>p < n\<close> by linarith
    from less.hyps [OF this s(2)] obtain q where
      "walk go step (step p) = Some q" "step p \<le> q" "q \<le> n" "\<not> go q" by auto
    with s True show ?thesis by (subst walk.simps) auto
  next
    case False
    with less.prems show ?thesis by (subst walk.simps) simp
  qed
qed

lemma walk_down:
  assumes step: "\<And>p. 0 < p \<Longrightarrow> p \<le> n \<Longrightarrow> step p < p" and stop: "\<not> go 0" and "p \<le> n"
  shows "\<exists>q. walk go step p = Some q \<and> q \<le> p \<and> \<not> go q"
  using \<open>p \<le> n\<close>
proof (induction p rule: less_induct)
  case (less p)
  show ?case
  proof (cases "go p")
    case True
    with stop have "0 < p" by (cases p) auto
    from less.IH [of "step p"] step [OF this less.prems] less.prems True show ?thesis
      by (subst walk.simps) auto
  next
    case False
    then show ?thesis by (subst walk.simps) simp
  qed
qed

lemma next_up:
  "text_law lib \<Longrightarrow> p < length txt \<Longrightarrow> p < tl_next lib txt p \<and> tl_next lib txt p \<le> length txt"
  by (simp add: text_lawD)

lemmas walk_next = walk_up [OF next_up]

lemma walk_prev:
  assumes "text_law lib" and "\<not> go 0" and "p \<le> length txt"
  shows "\<exists>q. walk go (tl_prev lib txt) p = Some q \<and> q \<le> p \<and> \<not> go q"
  using assms text_lawD(3) by (intro walk_down [of "length txt"]) auto

lemma word_after_Some:
  assumes law: "text_law lib" and p: "p \<le> length txt"
  shows "\<exists>q. word_after lib txt p = Some q \<and> p \<le> q \<and> q \<le> length txt \<and> (q = length txt \<or> word_break lib txt q)"
proof -
  obtain q1 where q1: "walk (\<lambda>p. p \<noteq> length txt \<and> word_break lib txt p) (tl_next lib txt) p = Some q1"
    "p \<le> q1" "q1 \<le> length txt"
    using walk_next [OF law _ _ p, of "\<lambda>p. p \<noteq> length txt \<and> word_break lib txt p"] by auto
  obtain q where "walk (\<lambda>p. p \<noteq> length txt \<and> \<not> word_break lib txt p) (tl_next lib txt) q1 = Some q"
    "q1 \<le> q" "q \<le> length txt" "q = length txt \<or> word_break lib txt q"
    using walk_next [OF law _ _ q1(3), of "\<lambda>p. p \<noteq> length txt \<and> \<not> word_break lib txt p"] by auto
  with q1 show ?thesis by (auto simp: word_after_def)
qed

lemma word_before_Some:
  assumes law: "text_law lib" and p: "0 < p" "p \<le> length txt"
  shows "\<exists>q. word_before lib txt p = Some q \<and> q \<le> length txt"
proof -
  let ?p = "tl_prev lib txt p"
  have "?p \<le> length txt" using text_lawD(3) [OF law p] p by simp
  then obtain q1 where q1: "walk (\<lambda>p. p \<noteq> 0 \<and> word_break lib txt p) (tl_prev lib txt) ?p = Some q1" "q1 \<le> length txt"
    using walk_prev [OF law, of "\<lambda>p. p \<noteq> 0 \<and> word_break lib txt p" ?p "txt"] by auto
  obtain q where "walk (\<lambda>p. p \<noteq> 0 \<and> \<not> word_break lib txt p) (tl_prev lib txt) q1 = Some q" "q \<le> length txt"
    using walk_prev [OF law _ q1(2), of "\<lambda>p. p \<noteq> 0 \<and> \<not> word_break lib txt p"] q1(2) by auto
  with q1 text_lawD(2) [OF law this(2)] show ?thesis by (auto simp: word_before_def)
qed

lemma fixup_le: "text_law lib \<Longrightarrow> q \<le> length txt \<Longrightarrow> fixup lib txt q \<le> length txt"
  by (simp add: fixup_def text_lawD)

lemma click_word_Some:
  assumes law: "text_law lib" and p: "p \<le> length txt"
  shows "\<exists>st en. click_word lib txt p = Some (st, en) \<and> st \<le> length txt \<and> p \<le> en \<and> en \<le> length txt"
proof -
  obtain en where "walk (\<lambda>p. p < length txt \<and> \<not> word_break lib txt p) (tl_next lib txt) p = Some en"
    "p \<le> en" "en \<le> length txt"
    using walk_next [OF law _ _ p, of "\<lambda>p. p < length txt \<and> \<not> word_break lib txt p"] by auto
  moreover obtain st where "walk (\<lambda>p. p > 0 \<and> \<not> word_break lib txt p) (tl_prev lib txt) p = Some st" "st \<le> length txt"
    using walk_prev [OF law _ p, of "\<lambda>p. p > 0 \<and> \<not> word_break lib txt p"] p by auto
  ultimately show ?thesis by (auto simp: click_word_def fixup_le [OF law])
qed

lemma click_line_Some:
  assumes law: "text_law lib" and p: "p \<le> length txt"
  shows "\<exists>st en. click_line lib txt p = Some (st, en) \<and> st \<le> length txt \<and> p \<le> en \<and> en \<le> length txt"
proof -
  obtain en where "walk (\<lambda>p. p < length txt \<and> \<not> tl_newline lib (octet_at txt p)) Suc p = Some en"
    "p \<le> en" "en \<le> length txt"
    using walk_up [of "length txt" Suc "\<lambda>p. p < length txt \<and> \<not> tl_newline lib (octet_at txt p)" p] p by auto
  moreover obtain st where "walk (\<lambda>p. p > 0 \<and> \<not> tl_newline lib (octet_at txt p)) (\<lambda>p. p - 1) p = Some st" "st \<le> length txt"
    using walk_down [of p "\<lambda>p. p - 1" "\<lambda>p. p > 0 \<and> \<not> tl_newline lib (octet_at txt p)" p] p by auto
  ultimately show ?thesis by (auto simp: click_line_def fixup_le [OF law])
qed

lemma caret_rows_within:
  assumes "caret_rows x lh p y rows = Some q"
    and "\<forall>row \<in> set rows. tr_begin row \<le> n \<and> tr_end row \<le> n \<and> (\<forall>g \<in> set (tr_glyphs row). fst g \<le> n)"
  shows "q \<le> n"
  using assms
proof (induction rows arbitrary: y)
  case (Cons row rows)
  then show ?case
  proof (cases "y \<le> snd p \<and> snd p < y + lh")
    case True
    have "fst g \<le> n" if "find P (tr_glyphs row) = Some g" for P g
      using that Cons.prems(2) by (auto simp: find_Some_iff)
    with True Cons.prems show ?thesis by (auto split: if_splits option.splits)
  qed simp
qed simp

lemma caret_position_within: "layout_law ctx \<Longrightarrow> caret_position ctx txt p = Some q \<Longrightarrow> q \<le> length txt"
  by (simp add: caret_position_def layout_law_def caret_rows_within)

lemma glyph_pos_Some:
  "layout_law ctx \<Longrightarrow> txt \<noteq> [] \<or> tc_rows ctx [] \<noteq> [] \<Longrightarrow> \<exists>info. glyph_pos ctx txt s = Some info"
  unfolding glyph_pos_def layout_law_def Let_def by (cases "txt = []") auto

section \<open>The selection stays in the text\<close>

fun sel_ok :: "saver \<Rightarrow> bool" where
  "sel_ok (txt, st, en) \<longleftrightarrow>
     -1 \<le> st \<and> st \<le> int (length txt) \<and> -1 \<le> en \<and> en \<le> int (length txt) \<and> (en = -1 \<longrightarrow> st = -1)"

definition box_wf :: "'c text_box \<Rightarrow> bool" where
  "box_wf b \<longleftrightarrow> sel_ok (capture_state b) \<and> (\<forall>s \<in> set_option (tb_typing b). sel_ok s)
     \<and> (\<forall>e \<in> set (tb_undo b). sel_ok (fst e) \<and> sel_ok (snd e))"

text \<open>A change of text and selection alone.\<close>

definition moved :: "'c text_box \<Rightarrow> 'c text_box \<Rightarrow> bool" where
  "moved b b' \<longleftrightarrow> tb_typing b' = tb_typing b \<and> tb_undo b' = tb_undo b"

lemma box_wf_moved: "box_wf b \<Longrightarrow> moved b b' \<Longrightarrow> sel_ok (capture_state b') \<Longrightarrow> box_wf b'"
  by (simp add: box_wf_def moved_def)

lemma box_wf_sel: "box_wf b \<Longrightarrow> sel_ok (tb_text b, tb_start b, tb_end b)"
  by (simp add: box_wf_def capture_state_def)

lemma box_wf_add_undo:
  "box_wf b \<Longrightarrow> sel_ok u \<Longrightarrow> sel_ok r \<Longrightarrow> box_wf (add_undo u r b)"
  by (auto simp: box_wf_def add_undo_def capture_state_def split: option.split)

lemma box_wf_run_saver: "box_wf b \<Longrightarrow> sel_ok s \<Longrightarrow> box_wf (run_saver s b)"
  by (cases s) (simp add: box_wf_def run_saver_def capture_state_def)

lemma box_wf_view_runs: "box_wf b \<Longrightarrow> box_wf (view_runs redo pick b)"
  by (auto simp: view_runs_def box_wf_run_saver box_wf_def split: option.split intro!: box_wf_run_saver [unfolded box_wf_def])

lemma at_caret_Some: "box_wf b \<Longrightarrow> tb_end b \<noteq> -1 \<Longrightarrow> at_caret b = Some (nat (tb_end b))"
  using box_wf_sel [of b] by (auto simp: at_caret_def)

text \<open>The four moves of the arrow keys end, in the text.\<close>

definition moves_in_text :: "('c text_box \<Rightarrow> 'c text_box option) \<Rightarrow> bool" where
  "moves_in_text move \<longleftrightarrow> (\<forall>b. box_wf b \<longrightarrow> tb_end b \<noteq> -1 \<longrightarrow>
     (\<exists>en. move b = Some (b\<lparr>tb_end := int en\<rparr>) \<and> en \<le> length (tb_text b)))"

lemma stay_put: "box_wf b \<Longrightarrow> tb_end b \<noteq> -1 \<Longrightarrow> b = b\<lparr>tb_end := int (nat (tb_end b))\<rparr> \<and> nat (tb_end b) \<le> length (tb_text b)"
  using box_wf_sel [of b] by (cases b) auto

lemma moves_in_textI:
  assumes "\<And>b. box_wf b \<Longrightarrow> tb_end b \<noteq> -1 \<Longrightarrow>
     move b = Some b \<or> (\<exists>en. move b = Some (b\<lparr>tb_end := int en\<rparr>) \<and> en \<le> length (tb_text b))"
  shows "moves_in_text move"
  unfolding moves_in_text_def using assms stay_put by metis

lemma caret_nat: "box_wf b \<Longrightarrow> tb_end b \<noteq> -1 \<Longrightarrow> nat (tb_end b) \<le> length (tb_text b)"
  using stay_put by blast

lemma next_char_moves: "text_law lib \<Longrightarrow> moves_in_text (next_char lib)"
proof (rule moves_in_textI)
  fix b :: "'c text_box"
  assume "text_law lib" "box_wf b" "tb_end b \<noteq> -1"
  then show "next_char lib b = Some b \<or> (\<exists>en. next_char lib b = Some (b\<lparr>tb_end := int en\<rparr>) \<and> en \<le> length (tb_text b))"
    using text_lawD(2) [of lib "nat (tb_end b)" "tb_text b"] caret_nat [of b]
    by (auto simp: next_char_def at_caret_Some move_to_def)
qed

lemma prev_char_moves: "text_law lib \<Longrightarrow> moves_in_text (prev_char lib)"
proof (rule moves_in_textI)
  fix b :: "'c text_box"
  assume "text_law lib" "box_wf b" "tb_end b \<noteq> -1"
  then show "prev_char lib b = Some b \<or> (\<exists>en. prev_char lib b = Some (b\<lparr>tb_end := int en\<rparr>) \<and> en \<le> length (tb_text b))"
    using text_lawD(3) [of lib "nat (tb_end b)" "tb_text b"] caret_nat [of b]
    by (auto simp: prev_char_def at_caret_Some move_to_def)
qed

lemma next_word_moves: "text_law lib \<Longrightarrow> moves_in_text (next_word lib)"
proof (rule moves_in_textI)
  fix b :: "'c text_box"
  assume "text_law lib" "box_wf b" "tb_end b \<noteq> -1"
  then show "next_word lib b = Some b \<or> (\<exists>en. next_word lib b = Some (b\<lparr>tb_end := int en\<rparr>) \<and> en \<le> length (tb_text b))"
    using word_after_Some [of lib "nat (tb_end b)" "tb_text b"] caret_nat [of b]
    by (auto simp: next_word_def at_caret_Some move_to_def)
qed

lemma prev_word_moves: "text_law lib \<Longrightarrow> moves_in_text (prev_word lib)"
proof (rule moves_in_textI)
  fix b :: "'c text_box"
  assume "text_law lib" "box_wf b" "tb_end b \<noteq> -1"
  then show "prev_word lib b = Some b \<or> (\<exists>en. prev_word lib b = Some (b\<lparr>tb_end := int en\<rparr>) \<and> en \<le> length (tb_text b))"
    using word_before_Some [of lib "nat (tb_end b)" "tb_text b"] caret_nat [of b]
    by (auto simp: prev_word_def at_caret_Some move_to_def)
qed

lemma box_wf_select:
  "box_wf b \<Longrightarrow> sel_ok (tb_text b, st, en) \<Longrightarrow> box_wf (b\<lparr>tb_start := st, tb_end := en\<rparr>)"
  by (simp add: box_wf_def capture_state_def)

lemma arrow_ok:
  assumes "moves_in_text move" and "box_wf b" and "tb_start b \<noteq> -1" and "towards = min \<or> towards = max"
  shows "\<exists>b'. arrow towards shift move b = Some b' \<and> box_wf b' \<and> tb_text b' = tb_text b \<and> tb_start b' \<noteq> -1 \<and> moved b b'"
proof -
  have sel: "sel_ok (tb_text b, tb_start b, tb_end b)" using assms(2) by (rule box_wf_sel)
  with assms(3) have "tb_end b \<noteq> -1" by auto
  with assms(1,2) obtain en where "move b = Some (b\<lparr>tb_end := int en\<rparr>)" "en \<le> length (tb_text b)"
    by (auto simp: moves_in_text_def)
  moreover have "0 \<le> towards (tb_start b) (int en) \<and> towards (tb_start b) (int en) \<le> int (length (tb_text b))"
    using sel assms(3,4) calculation(2) by auto
  ultimately show ?thesis
    using sel assms(2,3) \<open>tb_end b \<noteq> -1\<close> by (auto simp: arrow_def box_wf_def capture_state_def Let_def moved_def)
qed

lemma scroll_ok:
  assumes "layout_law ctx" and "box_wf b"
  shows "\<exists>b'. scroll_into_view ctx save_x b = Some b' \<and> box_wf b' \<and> tb_text b' = tb_text b \<and> moved b b'"
proof -
  have x: "box_wf (b\<lparr>tb_x := x\<rparr>)" for x using assms(2) by (simp add: box_wf_def capture_state_def)
  show ?thesis
  proof (cases "tb_text b = [] \<or> tb_end b = -1")
    case True
    with assms(2) x show ?thesis by (auto simp: scroll_into_view_def moved_def)
  next
    case False
    with glyph_pos_Some [OF assms(1), of "tb_text b" "nat (tb_end b)"] obtain info where
      "glyph_pos ctx (tb_text b) (nat (tb_end b)) = Some info" by auto
    with False assms(2) x show ?thesis
      by (auto simp: scroll_into_view_def at_caret_Some moved_def split: option.split)
  qed
qed

section \<open>Every event\<close>

text \<open>The texts the box holds: its own and those in the savers.\<close>

definition box_texts :: "'c text_box \<Rightarrow> string set" where
  "box_texts b = insert (tb_text b)
     (fst ` (set_option (tb_typing b) \<union> fst ` set (tb_undo b) \<union> snd ` set (tb_undo b)))"

definition keeps :: "'c text_box \<Rightarrow> 'c text_box \<Rightarrow> bool" where
  "keeps b b' \<longleftrightarrow> box_wf b' \<and> box_texts b' \<subseteq> box_texts b"

lemma box_texts_moved: "moved b b' \<Longrightarrow> tb_text b' = tb_text b \<Longrightarrow> box_texts b' = box_texts b"
  by (simp add: box_texts_def moved_def)

lemma keeps_moved: "box_wf b \<Longrightarrow> moved b b' \<Longrightarrow> tb_text b' = tb_text b \<Longrightarrow> sel_ok (capture_state b') \<Longrightarrow> keeps b b'"
  by (simp add: keeps_def box_texts_moved box_wf_moved)

lemma keeps_refl: "box_wf b \<Longrightarrow> keeps b b"
  by (simp add: keeps_def)

lemma keeps_trans: "keeps b b1 \<Longrightarrow> keeps b1 b2 \<Longrightarrow> keeps b b2"
  by (auto simp: keeps_def)

lemma keeps_add_undo:
  "box_wf b \<Longrightarrow> keeps b (add_undo (capture_state b) (capture_state b) b)"
  by (auto simp: keeps_def box_wf_add_undo box_wf_def box_texts_def add_undo_def capture_state_def split: option.splits)

lemma keeps_typing:
  "box_wf b \<Longrightarrow> tb_typing b = Some t \<Longrightarrow>
     keeps b (b\<lparr>tb_typing := None, tb_undo := (t, capture_state b) # tb_undo b\<rparr>)"
  by (auto simp: keeps_def box_wf_def box_texts_def capture_state_def)

lemma keeps_run_saver:
  assumes "box_wf b" and "sel_ok s" and "fst s \<in> box_texts b"
  shows "keeps b (run_saver s b)"
  using assms by (cases s) (auto simp: keeps_def box_wf_def box_texts_def run_saver_def capture_state_def)

lemma keeps_view_runs: "box_wf b \<Longrightarrow> keeps b (view_runs redo pick b)"
proof (cases pick)
  case (Some i)
  assume wf: "box_wf b"
  show ?thesis
  proof (cases "i < length (tb_undo b)")
    case True
    have e: "tb_undo b ! i \<in> set (tb_undo b)" using True by simp
    with wf have "sel_ok (fst (tb_undo b ! i))" "sel_ok (snd (tb_undo b ! i))" by (auto simp: box_wf_def)
    with wf e Some True show ?thesis
      by (cases redo) (auto simp: view_runs_def box_texts_def intro!: keeps_run_saver)
  qed (simp add: view_runs_def Some wf keeps_refl)
qed (simp add: view_runs_def keeps_refl)

lemma copy_text_ok:
  "box_wf b \<Longrightarrow> tb_start b \<noteq> -1 \<Longrightarrow>
     \<exists>clip. copy_text (min (tb_end b) (tb_start b)) en b = Some (b\<lparr>tb_clipboard := clip\<rparr>)"
  using box_wf_sel [of b] by (cases b) (auto simp: copy_text_def min_def)

lemma cut_text_ok:
  "box_wf b \<Longrightarrow> tb_start b \<noteq> -1 \<Longrightarrow>
     \<exists>clip. cut_text (min (tb_end b) (tb_start b)) en b = Some (b\<lparr>tb_clipboard := clip\<rparr>)"
  using copy_text_ok [of b en] by (cases b) (auto simp: cut_text_def delete_text_def)

lemma keeps_clipboard:
  "box_wf b \<Longrightarrow> keeps b (b\<lparr>tb_clipboard := c\<rparr>)"
  "box_wf b \<Longrightarrow> keeps b (add_undo (capture_state b) (capture_state (b\<lparr>tb_clipboard := c\<rparr>)) (b\<lparr>tb_clipboard := c\<rparr>))"
  using keeps_add_undo [of b]
  by (auto simp: keeps_def box_wf_def box_texts_def capture_state_def add_undo_def split: option.splits)

lemma up_down_ok:
  assumes "layout_law ctx" and "box_wf b" and "tb_start b \<noteq> -1" and "tb_text b \<noteq> [] \<or> tc_rows ctx [] \<noteq> []"
  shows "\<exists>moved b'. up_down ctx up b = Some (moved, b') \<and> keeps b b' \<and> tb_start b' \<noteq> -1"
proof -
  have sel: "sel_ok (tb_text b, tb_start b, tb_end b)" using assms(2) by (rule box_wf_sel)
  with assms(3) have en: "tb_end b \<noteq> -1" by auto
  obtain info where info: "glyph_pos ctx (tb_text b) (nat (tb_end b)) = Some info"
    using glyph_pos_Some [OF assms(1,4)] by blast
  have "keeps b (b\<lparr>tb_end := int n\<rparr>)" if "n \<le> length (tb_text b)" for n
    using assms(2) sel that by (auto simp: keeps_def box_wf_def box_texts_def capture_state_def)
  from this [of 0] this [of "length (tb_text b)"] this [OF caret_position_within [OF assms(1)]] show ?thesis
    using assms(2,3) info en
    by (auto simp: up_down_def at_caret_Some Let_def keeps_refl split: option.split)
qed

lemma arrow_keeps:
  assumes "moves_in_text move" and "box_wf b" and "tb_start b \<noteq> -1" and "towards = min \<or> towards = max"
  shows "\<exists>b'. arrow towards shift move b = Some b' \<and> keeps b b' \<and> tb_start b' \<noteq> -1"
  using arrow_ok [OF assms, of shift] box_texts_moved unfolding keeps_def by blast

lemma scroll_keeps:
  assumes "layout_law ctx" and "box_wf b"
  shows "\<exists>b'. scroll_into_view ctx save_x b = Some b' \<and> keeps b b'"
  using scroll_ok [OF assms, of save_x] box_texts_moved unfolding keeps_def by blast

definition switch_ok :: "'c text_box \<Rightarrow> ((bool \<times> bool \<times> bool) \<times> 'c text_box) option \<Rightarrow> bool" where
  "switch_ok b r = (case r of None \<Rightarrow> False | Some (f, b') \<Rightarrow> keeps b b' \<and> (fst f \<longrightarrow> tb_start b' \<noteq> -1))"

lemma switch_ok_simps [simp]:
  "switch_ok b None = False"
  "switch_ok b (Some (f, b')) = (keeps b b' \<and> (fst f \<longrightarrow> tb_start b' \<noteq> -1))"
  by (simp_all add: switch_ok_def)

text \<open>
  Up and Down ask for the last row of the layout when the box is empty, without asking whether there
  is one: whether the empty text is laid out in a row is up to the library.
\<close>

definition on_no_rows :: "'c text_ctx \<Rightarrow> 'c box_event \<Rightarrow> 'c text_box \<Rightarrow> bool" where
  "on_no_rows ctx ev b \<longleftrightarrow> tb_text b = [] \<and> tc_rows ctx [] = [] \<and>
     (case ev of Key pick k \<Rightarrow> ki_key k = K_Up \<or> ki_key k = K_Down | _ \<Rightarrow> False)"

lemma key_switch_ok:
  assumes law: "text_law lib" "layout_law ctx" and wf: "box_wf b" and st: "tb_start b \<noteq> -1"
    and rows: "\<not> on_no_rows ctx (Key pick k) b"
  shows "switch_ok b (key_switch lib ctx pick k b)"
proof -
  have all: "keeps b (b\<lparr>tb_start := 0, tb_end := int (length (tb_text b))\<rparr>)"
    using wf by (auto simp: keeps_def box_wf_def box_texts_def capture_state_def)
  note arrows = arrow_keeps [OF _ wf st]
  have ud: "\<exists>moved b'. up_down ctx up b = Some (moved, b') \<and> keeps b b' \<and> tb_start b' \<noteq> -1"
    if "ki_key k = K_Up \<or> ki_key k = K_Down" for up
    using up_down_ok [OF law(2) wf st] rows that by (auto simp: on_no_rows_def)
  consider (left) "ki_key k = K_Left" | (right) "ki_key k = K_Right" | (up) "ki_key k = K_Up"
    | (down) "ki_key k = K_Down" | (x) "ki_key k = K_X" | (c) "ki_key k = K_C" | (z) "ki_key k = K_Z"
    | (other) "ki_key k \<in> {K_Enter, K_Backspace, K_Delete, K_A, K_V, K_Other}"
    by (cases "ki_key k") auto
  then show ?thesis
  proof cases
    case left
    with arrows [OF prev_char_moves [OF law(1)], of min "ki_shift k"]
      arrows [OF prev_word_moves [OF law(1)], of min "ki_shift k"] show ?thesis
      by (cases "ki_alt k") (auto simp: key_switch_def Let_def)
  next
    case right
    with arrows [OF next_char_moves [OF law(1)], of max "ki_shift k"]
      arrows [OF next_word_moves [OF law(1)], of max "ki_shift k"] show ?thesis
      by (cases "ki_alt k") (auto simp: key_switch_def Let_def)
  next
    case up
    with ud [of True] show ?thesis by (auto simp: key_switch_def Let_def)
  next
    case down
    with ud [of False] show ?thesis by (auto simp: key_switch_def Let_def)
  next
    case x
    with cut_text_ok [OF wf st, of "max (tb_end b) (tb_start b)"] show ?thesis
      using keeps_clipboard(2) [OF wf] keeps_refl [OF wf] by (auto simp: key_switch_def Let_def)
  next
    case c
    with copy_text_ok [OF wf st, of "max (tb_end b) (tb_start b)"] show ?thesis
      using keeps_clipboard(1) [OF wf] keeps_refl [OF wf] by (auto simp: key_switch_def Let_def)
  next
    case z
    have "keeps b (view_runs r pick b)" for r using wf by (rule keeps_view_runs)
    moreover have "keeps b (view_runs r pick (b\<lparr>tb_typing := None, tb_undo := (t, capture_state b) # tb_undo b\<rparr>))"
      if "tb_typing b = Some t" for r t
      using keeps_typing [OF wf that] keeps_view_runs keeps_trans by (metis keeps_def)
    ultimately show ?thesis
      using z keeps_refl [OF wf] by (auto simp: key_switch_def Let_def split: option.split)
  next
    case other
    with keeps_add_undo [OF wf] keeps_refl [OF wf] all show ?thesis
      by (auto simp: key_switch_def delete_text_def paste_text_def Let_def)
  qed
qed

lemma key_press_ok:
  assumes law: "text_law lib" "layout_law ctx" and wf: "box_wf b" and rows: "\<not> on_no_rows ctx (Key pick k) b"
  shows "\<exists>h b'. key_press lib ctx pick k b = Some (h, b') \<and> keeps b b'"
proof (cases "tb_start b = -1 \<or> ki_action k = Release \<or> ki_action k = Unknown_Action")
  case True
  then show ?thesis using wf by (auto simp: key_press_def keeps_refl)
next
  case False
  then obtain mc sx h b1 where b1: "key_switch lib ctx pick k b = Some ((mc, sx, h), b1)" "keeps b b1"
    and mc: "mc \<longrightarrow> tb_start b1 \<noteq> -1"
    using key_switch_ok [OF law wf _ rows] unfolding switch_ok_def by (auto split: option.splits)
  define b2 where "b2 = settle_caret lib (ki_shift k) mc b1"
  have wf1: "box_wf b1" using b1(2) by (simp add: keeps_def)
  have "keeps b1 b2"
  proof (cases mc)
    case True
    with mc box_wf_sel [OF wf1] have "0 \<le> tb_start b1" "tb_start b1 \<le> int (length (tb_text b1))"
      "0 \<le> tb_end b1" "tb_end b1 \<le> int (length (tb_text b1))" by auto
    with text_lawD(4) [OF law(1)] wf1 True show ?thesis
      by (auto simp: b2_def settle_caret_def Let_def keeps_def box_wf_def box_texts_def capture_state_def)
  qed (simp add: b2_def settle_caret_def keeps_refl [OF wf1])
  then have wf2: "box_wf b2" and k2: "keeps b b2" using b1(2) keeps_trans by (auto simp: keeps_def)
  from scroll_keeps [OF law(2) wf2, of sx]
  obtain b3 where "scroll_into_view ctx sx b2 = Some b3" "keeps b2 b3" by blast
  with False b1(1) k2 show ?thesis
    by (auto simp: key_press_def Let_def b2_def [symmetric] intro: keeps_trans)
qed

lemma click_at_ok:
  assumes "text_law lib" and "box_wf b" and "pos \<le> length (tb_text b)"
  shows "\<exists>b'. click_at lib btn pos b = Some b' \<and> keeps b b'"
proof -
  have range: "keeps b (select_range b (st, en))" if "st \<le> length (tb_text b)" "en \<le> length (tb_text b)" for st en
    using assms(2) that by (auto simp: select_range_def keeps_def box_wf_def box_texts_def capture_state_def)
  have hit: "keeps b (b\<lparr>tb_start := int pos, tb_end := int pos\<rparr>)" "keeps b (b\<lparr>tb_end := int pos\<rparr>)"
    using assms(2,3) by (auto simp: keeps_def box_wf_def box_texts_def capture_state_def)
  moreover have "keeps b (b\<lparr>tb_start := int pos\<rparr>)" if "tb_start b \<noteq> -1"
    using assms(2,3) that by (auto simp: keeps_def box_wf_def box_texts_def capture_state_def)
  ultimately show ?thesis
    using click_word_Some [OF assms(1,3)] click_line_Some [OF assms(1,3)] range keeps_refl [OF assms(2)]
    by (auto simp: click_at_def Let_def)
qed

lemma click_ok:
  assumes law: "text_law lib" "layout_law ctx" and wf: "box_wf b"
  shows "\<exists>r b'. click lib ctx btn b = Some (r, b') \<and> keeps b b'"
proof -
  consider (ignored) "\<not> mb_left btn \<or> \<not> mb_down btn" | (empty) "mb_left btn" "mb_down btn" "tb_text b = []"
    | (none) "mb_left btn" "mb_down btn" "tb_text b \<noteq> []" "caret_position ctx (tb_text b) (mb_pos btn) = None"
    | (at) pos where "mb_left btn" "mb_down btn" "tb_text b \<noteq> []" "caret_position ctx (tb_text b) (mb_pos btn) = Some pos"
    by (cases "caret_position ctx (tb_text b) (mb_pos btn)") auto
  then show ?thesis
  proof cases
    case empty
    have "keeps b (b\<lparr>tb_start := 0, tb_end := 0\<rparr>)"
      using wf by (auto simp: keeps_def box_wf_def box_texts_def capture_state_def)
    then show ?thesis using empty by (auto simp: click_def scroll_into_view_def)
  next
    case at
    obtain b' where b': "click_at lib btn pos b = Some b'" "keeps b b'"
      using click_at_ok [OF law(1) wf caret_position_within [OF law(2) at(4)]] by blast
    then have "keeps b (b'\<lparr>tb_x := x\<rparr>)" for x
      by (auto simp: keeps_def box_wf_def box_texts_def capture_state_def)
    with at b'(1) show ?thesis by (auto simp: click_def)
  qed (use wf in \<open>auto simp: click_def keeps_refl\<close>)
qed

lemma drag_ok:
  assumes law: "layout_law ctx" and wf: "box_wf b"
  shows "\<exists>b'. drag ctx p b = Some b' \<and> keeps b b'"
proof (cases "caret_position ctx (tb_text b) p")
  case None
  then show ?thesis by (simp add: drag_def keeps_refl [OF wf])
next
  case (Some pos)
  from caret_position_within [OF law Some] wf have k: "keeps b (b\<lparr>tb_end := int pos\<rparr>)"
    by (auto simp: keeps_def box_wf_def box_texts_def capture_state_def)
  with scroll_keeps [OF law, of "b\<lparr>tb_end := int pos\<rparr>" True] Some show ?thesis
    by (auto simp: drag_def keeps_def)
qed

lemma box_step_ok:
  assumes law: "text_law lib" "layout_law ctx" and wf: "box_wf b" and rows: "\<not> on_no_rows ctx ev b"
  shows "\<exists>b'. box_step lib ctx ev b = Some b' \<and> box_wf b' \<and>
     box_texts b' \<subseteq> box_texts b \<union> {txt. ev = Set_Text txt}"
proof (cases ev)
  case (Click btn)
  with click_ok [OF law(1,2) wf, of btn] show ?thesis by (auto simp: box_step_def keeps_def)
next
  case (Drag p)
  with drag_ok [OF law(2) wf, of p] show ?thesis by (auto simp: box_step_def keeps_def)
next
  case (Key pick k)
  with key_press_ok [OF law wf, of pick k] rows show ?thesis by (auto simp: box_step_def keeps_def)
qed (use box_wf_sel [OF wf] wf in \<open>auto simp: box_step_def box_wf_def box_texts_def capture_state_def
       text_typed_def set_text_def begin_focus_def end_focus_def select_all_def select_none_def Let_def\<close>)

text \<open>C39: 
  The log box is read-only: whatever the user clicks, drags, types and presses, with the program
  replacing the text in between, no event reads outside the text, loops for ever or leaves the
  selection outside it, and every text the box shows is its first one or one the program set. The
  one exception is Up or Down in an empty box, if the library lays the empty text out in no row:
  there the code takes the last of no rows. (Of the library it is assumed that it steps forward and
  back inside the text, and lays a text that is not empty out in rows of its own offsets.)
\<close>

theorem log_box_read_only:
  assumes "text_law lib" and "layout_law ctx"
  shows "(\<exists>b. box_run lib ctx evs (text_box_init txt zero clip) = Some b \<and> sel_ok (tb_text b, tb_start b, tb_end b) \<and>
      tb_text b \<in> insert txt {t. Set_Text t \<in> set evs}) \<or>
    (\<exists>before ev after b. evs = before @ ev # after \<and> box_run lib ctx before (text_box_init txt zero clip) = Some b \<and>
      on_no_rows ctx ev b)"
proof -
  have "(\<exists>b'. box_run lib ctx evs b = Some b' \<and> box_wf b' \<and> box_texts b' \<subseteq> box_texts b \<union> {t. Set_Text t \<in> set evs}) \<or>
      (\<exists>before ev after b'. evs = before @ ev # after \<and> box_run lib ctx before b = Some b' \<and> on_no_rows ctx ev b')"
    if "box_wf b" for b
    using that
  proof (induction evs arbitrary: b)
    case (Cons ev evs)
    show ?case
    proof (cases "on_no_rows ctx ev b")
      case True
      then have "ev # evs = [] @ ev # evs \<and> box_run lib ctx [] b = Some b \<and> on_no_rows ctx ev b" by simp
      then show ?thesis by blast
    next
      case False
      then obtain b1 where b1: "box_step lib ctx ev b = Some b1" "box_wf b1" "box_texts b1 \<subseteq> box_texts b \<union> {t. ev = Set_Text t}"
        using box_step_ok [OF assms Cons.prems] by blast
      from Cons.IH [OF b1(2)] show ?thesis
      proof (elim disjE exE conjE)
        fix b' assume "box_run lib ctx evs b1 = Some b'" "box_wf b'" "box_texts b' \<subseteq> box_texts b1 \<union> {t. Set_Text t \<in> set evs}"
        with b1 show ?thesis by (intro disjI1 exI [of _ b']) auto
      next
        fix before e after b' assume "evs = before @ e # after" "box_run lib ctx before b1 = Some b'" "on_no_rows ctx e b'"
        with b1(1) have "ev # evs = (ev # before) @ e # after \<and> box_run lib ctx (ev # before) b = Some b' \<and> on_no_rows ctx e b'"
          by simp
        then show ?thesis by blast
      qed
    qed
  qed simp
  moreover have "box_wf (text_box_init txt zero clip)" by (simp add: box_wf_def text_box_init_def capture_state_def)
  moreover have "box_texts (text_box_init txt zero clip) = {txt}" by (simp add: text_box_init_def box_texts_def capture_state_def)
  moreover have "sel_ok (tb_text b, tb_start b, tb_end b)" "tb_text b \<in> box_texts b" if "box_wf b" for b :: "'a text_box"
    using box_wf_sel [OF that] by (simp_all add: box_texts_def)
  ultimately show ?thesis by (metis (no_types, lifting) Un_insert_left sup_bot_left subsetD)
qed

text \<open>An instance: one octet per character, one row, unit-wide glyphs.\<close>

definition ascii_lib :: text_lib where
  "ascii_lib = \<lparr>
     tl_next = (\<lambda>txt p. if p < length txt then p + 1 else p),
     tl_prev = (\<lambda>txt p. p - 1),
     tl_codepoint = octet_at,
     tl_space = (\<lambda>c. c = 32 \<or> c = 10),
     tl_punctuation = (\<lambda>c. c \<in> {33, 44, 46, 58, 59, 63, 91, 93}),
     tl_newline = (\<lambda>c. c = 10),
     tl_clamp = (\<lambda>v lo hi. max lo (min v hi))\<rparr>"

definition one_row_ctx :: "int text_ctx" where
  "one_row_ctx = \<lparr>
     tc_left = 0, tc_top = 0, tc_ascent = 8, tc_descent = 2, tc_leading = 0,
     tc_rows = (\<lambda>txt. [\<lparr>tr_begin = 0, tr_end = length txt, tr_width = int (length txt),
        tr_glyphs = map (\<lambda>i. (i, int i, int i + 1)) [0..<length txt]\<rparr>]),
     tc_float = int\<rparr>"

lemma ascii_law: "text_law ascii_lib"
  by (auto simp: text_law_def ascii_lib_def)

lemma one_row_law: "layout_law one_row_ctx" "tc_rows one_row_ctx [] \<noteq> []"
  by (auto simp: layout_law_def one_row_ctx_def)

theorem log_box_read_only_witness:
  "\<exists>b. box_run ascii_lib one_row_ctx
     [Begin_Focus, Set_Text ''[12:00] 7: connect'', Key None \<lparr>ki_key = K_Right, ki_action = Press, ki_shift = True, ki_alt = True, ki_mod_action = False\<rparr>,
      Key None \<lparr>ki_key = K_X, ki_action = Press, ki_shift = False, ki_alt = False, ki_mod_action = True\<rparr>, Set_Text []]
     (text_box_init [] 0 []) = Some b \<and> sel_ok (tb_text b, tb_start b, tb_end b)"
  using log_box_read_only [OF ascii_law one_row_law(1)] one_row_law(2) unfolding on_no_rows_def by blast

section \<open>What leaves the text alone\<close>

lemma text_kept_moves:
  "move_to b q = Some b' \<Longrightarrow> tb_text b' = tb_text b"
  "next_char lib b = Some b' \<Longrightarrow> tb_text b' = tb_text b"
  "prev_char lib b = Some b' \<Longrightarrow> tb_text b' = tb_text b"
  "next_word lib b = Some b' \<Longrightarrow> tb_text b' = tb_text b"
  "prev_word lib b = Some b' \<Longrightarrow> tb_text b' = tb_text b"
  "copy_text st en b = Some b' \<Longrightarrow> tb_text b' = tb_text b"
  "cut_text st en b = Some b' \<Longrightarrow> tb_text b' = tb_text b"
  "click_at lib btn pos b = Some b' \<Longrightarrow> tb_text b' = tb_text b"
  by (auto simp: move_to_def next_char_def prev_char_def next_word_def prev_word_def
      copy_text_def cut_text_def delete_text_def click_at_def select_range_def bind_eq_Some_conv Let_def
      split: if_splits option.splits)

lemma text_kept_up_down:
  assumes "up_down ctx up b = Some r"
  shows "tb_text (snd r) = tb_text b"
proof -
  obtain i where "glyph_pos ctx (tb_text b) i \<noteq> None"
    "r = (case the (glyph_pos ctx (tb_text b) i) of
         None \<Rightarrow> (False, b)
       | Some pos \<Rightarrow>
           let y = (if up then - line_height ctx else line_height ctx);
               cp = caret_position ctx (tb_text b) (tc_left ctx + tb_x b, snd pos + y)
           in (True, b\<lparr>tb_end := (case cp of Some p \<Rightarrow> int p
                                        | None \<Rightarrow> if up then 0 else int (length (tb_text b)))\<rparr>))"
    using assms unfolding up_down_def bind_eq_Some_conv by force
  then show ?thesis by (simp add: Let_def split: option.split)
qed

lemma text_kept_scroll:
  assumes "scroll_into_view ctx save b = Some b'"
  shows "tb_text b' = tb_text b"
proof -
  have kept: "tb_text c = tb_text b"
    if "Option.bind (at_caret b) (\<lambda>s. Option.bind (glyph_pos ctx (tb_text b) s) (\<lambda>info. Some (f info))) = Some c"
      and "\<And>info. tb_text (f info) = tb_text b" for f c
    using that(1) by (auto simp: bind_eq_Some_conv that(2) simp del: split_paired_All split_paired_Ex)
  show ?thesis
    using assms unfolding scroll_into_view_def
    by (auto dest!: kept split: if_splits option.split)
qed

lemma text_kept_simps:
  "tb_text (add_undo s t b) = tb_text b" "tb_text (settle_caret lib shift mv b) = tb_text b"
  "tb_text (paste_text st en b) = tb_text b" "tb_text (delete_text fwd b) = tb_text b"
  by (simp_all add: add_undo_def settle_caret_def paste_text_def delete_text_def Let_def split: option.split)

lemma text_kept_arrow:
  assumes "arrow f shift mv b = Some b'" and kept: "\<And>c. mv b = Some c \<Longrightarrow> tb_text c = tb_text b"
  shows "tb_text b' = tb_text b"
proof (cases "mv b")
  case (Some c)
  from kept [OF this] Some assms(1) show ?thesis by (auto simp: arrow_def Let_def split: if_splits)
qed (use assms(1) in \<open>auto simp: arrow_def split: if_splits\<close>)

lemmas text_kept_arrows =
  text_kept_arrow [OF _ text_kept_moves(2)] text_kept_arrow [OF _ text_kept_moves(3)]
  text_kept_arrow [OF _ text_kept_moves(4)] text_kept_arrow [OF _ text_kept_moves(5)]

lemma text_kept_switch:
  assumes "key_switch lib ctx pick k b = Some (r, b')" and "\<not> (ki_key k = K_Z \<and> ki_mod_action k)"
  shows "tb_text b' = tb_text b"
  using assms
  by (cases "ki_key k")
    (auto simp: key_switch_def Let_def bind_eq_Some_conv text_kept_simps
        dest: text_kept_arrows text_kept_moves text_kept_up_down split: if_splits)

text \<open>Only Ctrl-Z and the program change the text.\<close>

definition keeps_text :: "'c box_event \<Rightarrow> bool" where
  "keeps_text ev = (case ev of Key pick k \<Rightarrow> \<not> (ki_key k = K_Z \<and> ki_mod_action k) | Set_Text txt \<Rightarrow> False | _ \<Rightarrow> True)"

lemma box_step_text:
  assumes "box_step lib ctx ev b = Some b'" and "keeps_text ev"
  shows "tb_text b' = tb_text b"
proof (cases ev)
  case (Key pick k)
  then have "\<not> (ki_key k = K_Z \<and> ki_mod_action k)" using assms(2) by (simp add: keeps_text_def)
  then show ?thesis
    using assms(1) Key
    by (auto simp: box_step_def key_press_def bind_eq_Some_conv text_kept_simps Let_def
        dest!: text_kept_switch text_kept_scroll split: if_splits)
qed (use assms in \<open>auto simp: box_step_def keeps_text_def click_def drag_def text_typed_def begin_focus_def end_focus_def
       select_all_def select_none_def Let_def dest!: text_kept_moves(8) text_kept_scroll split: if_splits option.splits\<close>)

section \<open>Words under a double click\<close>

lemma walk_invariant:
  assumes "walk go step p = Some q" and "I p" and "\<And>r. I r \<Longrightarrow> go r \<Longrightarrow> I (step r)"
  shows "I q \<and> \<not> go q"
proof -
  have "(\<forall>r. I r \<longrightarrow> go r \<longrightarrow> I (step r)) \<longrightarrow> I p \<longrightarrow> I q \<and> \<not> go q"
    by (rule walk.raw_induct [OF _ assms(1), where P = "\<lambda>go step p q. (\<forall>r. I r \<longrightarrow> go r \<longrightarrow> I (step r)) \<longrightarrow> I p \<longrightarrow> I q \<and> \<not> go q"])
      (metis option.sel)
  with assms(2,3) show ?thesis by blast
qed

text \<open>In a text of single octets a double click selects the run of characters that break no word.\<close>

definition single_octets :: "text_lib \<Rightarrow> string \<Rightarrow> bool" where
  "single_octets lib txt \<longleftrightarrow>
     (\<forall>p < length txt. tl_next lib txt p = p + 1) \<and> (\<forall>p \<le> length txt. 0 < p \<longrightarrow> tl_prev lib txt p = p - 1)"

lemma double_click_selects_word:
  assumes law: "text_law lib" and single: "single_octets lib txt"
    and p: "p < length txt" "\<not> word_break lib txt p" and r: "click_word lib txt p = Some (st, en)"
  shows "st \<le> p \<and> p < en \<and> en \<le> length txt \<and> (\<forall>q. st \<le> q \<and> q < en \<longrightarrow> q = 0 \<or> \<not> word_break lib txt q)
     \<and> (en = length txt \<or> word_break lib txt en) \<and> (st = 0 \<or> word_break lib txt (st - 1))"
proof -
  obtain s where en: "walk (\<lambda>p. p < length txt \<and> \<not> word_break lib txt p) (tl_next lib txt) p = Some en"
    and s: "walk (\<lambda>p. p > 0 \<and> \<not> word_break lib txt p) (tl_prev lib txt) p = Some s" and st: "st = fixup lib txt s"
    using r by (auto simp: click_word_def bind_eq_Some_conv)
  have up: "(p \<le> en \<and> en \<le> length txt \<and> (\<forall>q. p \<le> q \<and> q < en \<longrightarrow> \<not> word_break lib txt q))
      \<and> \<not> (en < length txt \<and> \<not> word_break lib txt en)"
    by (rule walk_invariant [OF en]) (use p single in \<open>auto simp: single_octets_def less_Suc_eq\<close>)
  have down: "(s \<le> p \<and> (\<forall>q. s < q \<and> q \<le> p \<longrightarrow> \<not> word_break lib txt q)) \<and> \<not> (0 < s \<and> \<not> word_break lib txt s)"
  proof (rule walk_invariant [OF s])
    fix r assume r: "r \<le> p \<and> (\<forall>q. r < q \<and> q \<le> p \<longrightarrow> \<not> word_break lib txt q)" "0 < r \<and> \<not> word_break lib txt r"
    then have "tl_prev lib txt r = r - 1" using single p by (simp add: single_octets_def)
    moreover have "\<not> word_break lib txt q" if "r - 1 < q" "q \<le> p" for q
      using r that by (cases "q = r") auto
    ultimately show "tl_prev lib txt r \<le> p \<and> (\<forall>q. tl_prev lib txt r < q \<and> q \<le> p \<longrightarrow> \<not> word_break lib txt q)"
      using r by auto
  qed (simp, blast dest: leD)
  have "p < en" using up p by (metis le_neq_implies_less)
  have mid: "\<not> word_break lib txt q" if "s < q" "q < en" for q
    using up down that by (cases "q \<le> p") auto
  have en': "en = length txt \<or> word_break lib txt en" "en \<le> length txt" using up by auto
  show ?thesis
  proof (cases "s = 0")
    case True
    with st have "st = 0" by (simp add: fixup_def)
    with mid True \<open>p < en\<close> en' show ?thesis by auto
  next
    case False
    then have "s < p" "word_break lib txt s" using down p by (auto simp: le_less)
    moreover from this(1) False have "st = s + 1" using st single p by (simp add: fixup_def single_octets_def)
    ultimately show ?thesis using mid \<open>p < en\<close> en' by auto
  qed
qed

text \<open>What the fix-up misses: a break in the first place of the text belongs to the selected word.\<close>

lemma double_click_takes_first_break:
  "click_word ascii_lib ''[12:00] 7'' 2 = Some (0, 3)" "word_break ascii_lib ''[12:00] 7'' 0"
  "click_word ascii_lib ''[12:00] 7'' 5 = Some (4, 6)"
  by (simp_all add: click_word_def walk.simps word_break_def ascii_lib_def octet_at_def fixup_def Let_def)

text \<open>A triple click on a line's end selects backwards, over the newline alone.\<close>

lemma triple_click_on_newline:
  "click_line ascii_lib [CHR ''a'', CHR 0x0A, CHR ''b''] 1 = Some (2, 1)"
  "click_line ascii_lib [CHR ''a'', CHR 0x0A, CHR ''b''] 2 = Some (2, 3)"
  by (simp_all add: click_line_def walk.simps ascii_lib_def octet_at_def fixup_def)

text \<open>
  Delete edits nothing, but it records an undo entry with the text of that moment: after the program
  has logged another line, Ctrl-Z puts the old log back and the line is gone from the box.
\<close>

definition ctrl :: "key_code \<Rightarrow> key_info" where
  "ctrl k = \<lparr>ki_key = k, ki_action = Press, ki_shift = False, ki_alt = False, ki_mod_action = True\<rparr>"

lemma undo_restores_stale_log:
  "map_option tb_text (box_run ascii_lib one_row_ctx
     [Begin_Focus, Key None (ctrl K_Delete), Set_Text ''line'', Key (Some 0) (ctrl K_Z)] (text_box_init [] 0 [])) = Some []"
  by (simp add: box_step_def begin_focus_def text_box_init_def key_press_def key_switch_def ctrl_def
      delete_text_def add_undo_def capture_state_def settle_caret_def scroll_into_view_def set_text_def
      view_runs_def run_saver_def Let_def)

text \<open>The setters keep the ends apart, so they can leave an end of no selection with a start.\<close>

lemma select_end_alone_breaks_selection:
  "\<not> box_wf (select_end (-1) (begin_focus (text_box_init [] 0 [])))"
  by (simp add: box_wf_def select_end_def begin_focus_def text_box_init_def capture_state_def Let_def)

end
