(* ===== verification/Dynamic_List.thy ===== *)
theory Dynamic_List
  imports Prelude
begin

text \<open>
  src/injector/ui_elements/dynamic_list.cpp: the list widget that shows the injected processes. Its
  cells are laid out one below the other and drawn only where the clip shows them; it tracks the
  focused, clicked and hovered cell by index. The cells' elements are the composer's (the elements
  library's), so what an element answers is the parameter \<open>cell_env\<close>; elements are told apart by
  their index. Coordinates are of any type with an order and a sum (conversions between float and double are not kept). An operation is \<open>None\<close> where
  the code indexes outside its cells or calls through a null element.
\<close>

section \<open>State\<close>

record 'd cell_info =
  ci_pos :: 'd
  ci_size :: 'd
  ci_composed :: bool
  ci_layout_id :: int

record 'd dynamic_list =
  dl_count :: nat
  dl_cells :: "'d cell_info list"
  dl_full_size :: 'd
  dl_layout_id :: int
  dl_request :: bool
  dl_width :: 'd
  dl_height :: 'd
  dl_window :: "nat \<times> nat"
  dl_focus :: int
  dl_saved_focus :: int
  dl_click :: int
  dl_cursor :: int
  dl_hovering :: "int list"

record 'd rect =
  re_left :: 'd
  re_top :: 'd
  re_right :: 'd
  re_bottom :: 'd

text \<open>What the composer and the elements answer; keys and clicks are told the cell's index.\<close>

record 'd cell_env =
  ce_main_axis_size :: "nat \<Rightarrow> 'd"
  ce_wants_focus :: "nat \<Rightarrow> bool"
  ce_wants_control :: "nat \<Rightarrow> bool"
  ce_hit :: "nat \<Rightarrow> 'd rect \<Rightarrow> bool"
  ce_includes :: "'d rect \<Rightarrow> bool"
  ce_accepts_click :: "nat \<Rightarrow> bool"
  ce_accepts_key :: "nat \<Rightarrow> bool"
  ce_accepts_text :: "nat \<Rightarrow> bool"
  ce_intersects :: "'d rect \<Rightarrow> 'd rect \<Rightarrow> bool"

definition dynamic_list_new :: "nat \<Rightarrow> 'd \<Rightarrow> 'd dynamic_list" where
  "dynamic_list_new n zero =
     \<lparr>dl_count = n, dl_cells = [], dl_full_size = zero, dl_layout_id = 0, dl_request = True, dl_width = zero,
      dl_height = zero, dl_window = (0, 0), dl_focus = -1, dl_saved_focus = -1, dl_click = -1, dl_cursor = -1,
      dl_hovering = []\<rparr>"

text \<open>\<open>_cells[ix]\<close>\<close>

definition cell_at :: "'d dynamic_list \<Rightarrow> int \<Rightarrow> 'd cell_info option" where
  "cell_at l ix = (if 0 \<le> ix \<and> ix < int (length (dl_cells l)) then Some (dl_cells l ! nat ix) else None)"

section \<open>Layout\<close>

fun lay_out :: "('d :: plus) \<Rightarrow> (nat \<Rightarrow> 'd) \<Rightarrow> nat list \<Rightarrow> 'd cell_info list \<times> 'd" where
  "lay_out y extent [] = ([], y)"
| "lay_out y extent (i # is) =
     (let (cells, full) = lay_out (y + extent i) extent is
      in (\<lparr>ci_pos = y, ci_size = extent i, ci_composed = False, ci_layout_id = -1\<rparr> # cells, full))"

definition update_cells :: "('d :: {plus, zero}) cell_env \<Rightarrow> 'd dynamic_list \<Rightarrow> 'd dynamic_list" where
  "update_cells env l =
     (let l1 = (if dl_count l \<noteq> 0 then
                  (case lay_out 0 (ce_main_axis_size env) [0..<dl_count l] of
                     (cells, full) \<Rightarrow> l\<lparr>dl_cells := dl_cells l @ cells, dl_full_size := full\<rparr>)
                else l)
      in l1\<lparr>dl_layout_id := dl_layout_id l1 + 1, dl_request := False\<rparr>)"

definition request_update :: "('d :: zero) dynamic_list \<Rightarrow> 'd dynamic_list" where
  "request_update l = l\<lparr>dl_request := True, dl_cells := [], dl_full_size := 0\<rparr>"

definition resize :: "nat \<Rightarrow> ('d :: zero) dynamic_list \<Rightarrow> 'd dynamic_list" where
  "resize n l = request_update (l\<lparr>dl_count := n\<rparr>)"

text \<open>The list's limits: the smallest height, when there is a cell.\<close>

definition limits :: "('d :: {plus, zero}) cell_env \<Rightarrow> 'd dynamic_list \<Rightarrow> 'd option \<times> 'd dynamic_list" where
  "limits env l =
     (let l1 = (if dl_request l then update_cells env l else l)
      in (if dl_count l1 \<noteq> 0 then Some (dl_full_size l1) else None, l1))"

definition layout :: "'d \<Rightarrow> 'd \<Rightarrow> 'd dynamic_list \<Rightarrow> 'd dynamic_list" where
  "layout w h l =
     (if dl_width l \<noteq> w \<or> dl_height l \<noteq> h
      then l\<lparr>dl_width := w, dl_height := h, dl_layout_id := dl_layout_id l + 1\<rparr> else l)"

text \<open>A cell's place: \<open>make_bounds\<close> and \<open>bounds_of\<close> put it at its position below the top.\<close>

definition cell_bounds :: "('d :: plus) rect \<Rightarrow> 'd cell_info \<Rightarrow> 'd rect" where
  "cell_bounds b c = b\<lparr>re_top := re_top b + ci_pos c, re_bottom := re_top b + ci_pos c + ci_size c\<rparr>"

definition bounds_of :: "('d :: plus) rect \<Rightarrow> int \<Rightarrow> 'd dynamic_list \<Rightarrow> 'd rect option" where
  "bounds_of b ix l = map_option (cell_bounds b) (cell_at l ix)"

section \<open>Drawing the window\<close>

text \<open>
  From \<open>lower_bound\<close> on, a cell that shows is composed if it is not yet, laid out if its layout is
  an old one, and drawn, until a cell starts below the clip. The result: the cells, the indices
  drawn, and where the loop stopped.
\<close>

fun draw_from ::
  "('d :: {ord, plus}) cell_env \<Rightarrow> int \<Rightarrow> 'd rect \<Rightarrow> 'd rect \<Rightarrow> nat \<Rightarrow> 'd cell_info list \<Rightarrow> ('d cell_info list \<times> nat list) \<times> nat" where
  "draw_from env lid b clip i [] = (([], []), i)"
| "draw_from env lid b clip i (c # cs) =
     (let r = cell_bounds b c; shown = ce_intersects env clip r;
          c1 = (if shown \<and> (\<not> ci_composed c \<or> ci_layout_id c \<noteq> lid)
                then c\<lparr>ci_composed := True, ci_layout_id := lid\<rparr> else c);
          mine = (if shown then [i] else [])
      in if re_top r > re_bottom clip then ((c1 # cs, mine), i)
         else (case draw_from env lid b clip (i + 1) cs of
                 ((cs', drawn), stop) \<Rightarrow> ((c1 # cs', mine @ drawn), stop)))"

text \<open>\<open>std::lower_bound\<close> over cells that end before the pivot.\<close>

definition first_shown :: "('d :: {ord, plus, minus}) rect \<Rightarrow> 'd rect \<Rightarrow> 'd cell_info list \<Rightarrow> nat" where
  "first_shown b clip cells =
     length (takeWhile (\<lambda>c. ci_pos c + ci_size c < re_top clip - re_top b) cells)"

definition forget_layouts :: "nat \<times> nat \<Rightarrow> nat \<times> nat \<Rightarrow> 'd cell_info list \<Rightarrow> 'd cell_info list" where
  "forget_layouts old new cells =
     (if old = new then cells
      else map (\<lambda>(i, c). if fst old \<le> i \<and> i < snd old \<and> (i < fst new \<or> i \<ge> snd new)
                         then c\<lparr>ci_layout_id := -1\<rparr> else c) (enumerate 0 cells))"

definition draw ::
  "('d :: {ord, plus, minus, zero}) cell_env \<Rightarrow> 'd rect \<Rightarrow> 'd rect \<Rightarrow> 'd dynamic_list \<Rightarrow> nat list \<times> 'd dynamic_list" where
  "draw env b clip l =
     (let l1 = (if dl_request l then update_cells env l else l) in
      if \<not> ce_intersects env b clip then ([], l1)
      else
        let s = first_shown b clip (dl_cells l1) in
        (case draw_from env (dl_layout_id l1) b clip s (drop s (dl_cells l1)) of
           ((cells, drawn), stop) \<Rightarrow>
             (drawn, l1\<lparr>dl_cells := forget_layouts (dl_window l1) (s, stop) (take s (dl_cells l1) @ cells),
                dl_window := (s, stop), dl_width := re_right b - re_left b, dl_height := re_bottom b - re_top b\<rparr>)))"

section \<open>Hit test\<close>

text \<open>The first composed cell that takes the control (when asked) and contains the point.\<close>

definition hit_element :: "('d :: plus) cell_env \<Rightarrow> 'd rect \<Rightarrow> bool \<Rightarrow> 'd dynamic_list \<Rightarrow> nat option" where
  "hit_element env b control l =
     scan (\<lambda>ix. let c = dl_cells l ! ix; r = cell_bounds b c in
        ci_composed c \<and> (\<not> control \<or> ce_wants_control env ix) \<and> ce_includes env r \<and> ce_hit env ix r)
       (length (dl_cells l))"

section \<open>Focus\<close>

text \<open>The second access to the cells is reached only for an index that is not -1.\<close>

definition new_focus :: "int \<Rightarrow> 'd dynamic_list \<Rightarrow> 'd dynamic_list option" where
  "new_focus index l =
     (let l1 = l\<lparr>dl_focus := index\<rparr> in
      if index = -1 then Some l1 else map_option (\<lambda>_. l1) (cell_at l1 index))"

definition focus_at :: "nat \<Rightarrow> 'd dynamic_list \<Rightarrow> 'd dynamic_list" where
  "focus_at index l = (if index < length (dl_cells l) then l\<lparr>dl_focus := int index\<rparr> else l)"

definition wants_focus :: "'d cell_env \<Rightarrow> 'd dynamic_list \<Rightarrow> bool" where
  "wants_focus env l = (scan (\<lambda>ix. ci_composed (dl_cells l ! ix) \<and> ce_wants_focus env ix) (length (dl_cells l)) \<noteq> None)"

definition wants_control :: "'d cell_env \<Rightarrow> 'd dynamic_list \<Rightarrow> bool" where
  "wants_control env l = (scan (\<lambda>ix. ci_composed (dl_cells l ! ix) \<and> ce_wants_control env ix) (length (dl_cells l)) \<noteq> None)"

definition begin_focus_list :: "'d cell_env \<Rightarrow> 'd dynamic_list \<Rightarrow> 'd dynamic_list option" where
  "begin_focus_list env l =
     (let l1 = (if dl_focus l = -1 then l\<lparr>dl_focus := dl_saved_focus l\<rparr> else l);
          l2 = (if dl_focus l1 = -1
                then (case scan (\<lambda>ix. ci_composed (dl_cells l1 ! ix) \<and> ce_wants_focus env ix) (length (dl_cells l1)) of
                        None \<Rightarrow> l1
                      | Some ix \<Rightarrow> l1\<lparr>dl_focus := int ix\<rparr>)
                else l1)
      in if dl_focus l2 = -1 then Some l2 else map_option (\<lambda>_. l2) (cell_at l2 (dl_focus l2)))"

definition end_focus_list :: "'d dynamic_list \<Rightarrow> 'd dynamic_list option" where
  "end_focus_list l =
     (let l1 = l\<lparr>dl_saved_focus := dl_focus l, dl_focus := -1\<rparr> in
      if dl_focus l = -1 then Some l1 else map_option (\<lambda>_. l1) (cell_at l (dl_focus l)))"

text \<open>The focused element: \<open>None\<close> inside for no element.\<close>

definition focused :: "'d dynamic_list \<Rightarrow> int option option" where
  "focused l =
     (if dl_cells l = [] \<or> dl_focus l = -1 then Some None
      else map_option (\<lambda>c. if ci_composed c then Some (dl_focus l) else None) (cell_at l (dl_focus l)))"

definition reset :: "'d dynamic_list \<Rightarrow> 'd dynamic_list" where
  "reset l = l\<lparr>dl_focus := -1, dl_saved_focus := -1, dl_click := -1, dl_cursor := -1, dl_hovering := []\<rparr>"

section \<open>Events\<close>

text \<open>A key's element is asked through \<open>compose\<close>, which answers for any index; its bounds are read from the cells.\<close>

definition click_list :: "('d :: plus) cell_env \<Rightarrow> 'd rect \<Rightarrow> bool \<Rightarrow> 'd dynamic_list \<Rightarrow> (bool \<times> 'd dynamic_list) option" where
  "click_list env b down l =
     (let missed = Some (False, l\<lparr>dl_click := -1\<rparr>) in
      if dl_cells l = [] then missed
      else if down then
        (case hit_element env b True l of
           None \<Rightarrow> missed
         | Some ix \<Rightarrow>
             Option.bind (if wants_focus env l \<and> dl_focus l \<noteq> int ix then new_focus (int ix) l else Some l) (\<lambda>l1.
               if ce_accepts_click env ix then Some (True, l1\<lparr>dl_click := int ix\<rparr>) else Some (False, l1\<lparr>dl_click := -1\<rparr>)))
      else if dl_click l \<noteq> -1 then
        Option.bind (bounds_of b (dl_click l) l) (\<lambda>_.
          if ce_accepts_click env (nat (dl_click l)) then Some (True, l) else missed)
      else missed)"

definition text_list :: "('d :: plus) cell_env \<Rightarrow> 'd rect \<Rightarrow> 'd dynamic_list \<Rightarrow> bool option" where
  "text_list env b l =
     (if dl_focus l \<noteq> -1 then
        Option.bind (cell_at l (dl_focus l)) (\<lambda>c. if ci_composed c then Some (ce_accepts_text env (nat (dl_focus l))) else None)
      else Some False)"

definition drag_list :: "('d :: plus) rect \<Rightarrow> 'd dynamic_list \<Rightarrow> unit option" where
  "drag_list b l = (if dl_click l \<noteq> -1 then map_option (\<lambda>_. ()) (bounds_of b (dl_click l) l) else Some ())"

text \<open>The scans of Tab: the next index up to the end, or down to 0, that wants the focus.\<close>

definition tab_target :: "'d cell_env \<Rightarrow> bool \<Rightarrow> 'd dynamic_list \<Rightarrow> nat option" where
  "tab_target env shift l =
     (let n = length (dl_cells l) in
      if dl_focus l = -1 \<or> \<not> shift
      then find (ce_wants_focus env) [nat (dl_focus l + 1)..<n]
      else find (ce_wants_focus env) (rev [0..<nat (dl_focus l)]))"

definition key_list :: "('d :: plus) cell_env \<Rightarrow> 'd rect \<Rightarrow> bool \<Rightarrow> bool \<Rightarrow> 'd dynamic_list \<Rightarrow> (bool \<times> 'd dynamic_list) option" where
  "key_list env b tab shift l =
     Option.bind (if dl_focus l \<noteq> -1 then map_option (\<lambda>_. ce_accepts_key env (nat (dl_focus l))) (bounds_of b (dl_focus l) l)
                  else Some False) (\<lambda>taken.
       if taken then Some (True, l)
       else if tab \<and> dl_cells l \<noteq> [] then
         (case tab_target env shift l of
            None \<Rightarrow> Some (False, l)
          | Some ix \<Rightarrow> map_option (Pair True) (new_focus (int ix) l))
       else Some (False, l))"

definition scroll_list :: "('d :: plus) cell_env \<Rightarrow> 'd rect \<Rightarrow> 'd rect \<Rightarrow> 'd dynamic_list \<Rightarrow> nat option" where
  "scroll_list env b view l =
     (case hit_element env b True l of
        None \<Rightarrow> None
      | Some ix \<Rightarrow> if ce_intersects env (cell_bounds b (dl_cells l ! ix)) view then Some ix else None)"

text \<open>Hovered cells the point has left are told so and dropped; then the cell under it is entered.\<close>

definition still_hovered :: "('d :: plus) cell_env \<Rightarrow> 'd rect \<Rightarrow> 'd dynamic_list \<Rightarrow> int \<Rightarrow> bool" where
  "still_hovered env b l ix =
     (if ix < int (length (dl_cells l)) then
        (let r = cell_bounds b (dl_cells l ! nat ix) in ce_includes env r \<and> ce_hit env (nat ix) r)
      else True)"

definition cursor_list :: "('d :: plus) cell_env \<Rightarrow> 'd rect \<Rightarrow> bool \<Rightarrow> 'd dynamic_list \<Rightarrow> 'd dynamic_list" where
  "cursor_list env b leaving l =
     (let l1 = (if dl_cursor l \<ge> int (length (dl_cells l)) then l\<lparr>dl_cursor := -1\<rparr> else l) in
      if leaving then l1
      else
        let l2 = l1\<lparr>dl_hovering := filter (still_hovered env b l1) (dl_hovering l1)\<rparr> in
        (case hit_element env b True l2 of
           None \<Rightarrow> l2
         | Some ix \<Rightarrow> l2\<lparr>dl_cursor := int ix, dl_hovering := List.insert (int ix) (dl_hovering l2)\<rparr>))"

section \<open>The cells follow the composer\<close>

text \<open>
  While an update is requested there are no cells; otherwise there is one per row of the composer,
  as high as the row, below the rows before it.
\<close>

definition row_top :: "('d :: monoid_add) cell_env \<Rightarrow> nat \<Rightarrow> 'd" where
  "row_top env i = sum_list (map (ce_main_axis_size env) [0..<i])"

definition place :: "'d cell_info \<Rightarrow> 'd \<times> 'd" where
  "place c = (ci_pos c, ci_size c)"

definition list_ok :: "('d :: monoid_add) cell_env \<Rightarrow> 'd dynamic_list \<Rightarrow> bool" where
  "list_ok env l \<longleftrightarrow> (if dl_request l then dl_cells l = []
     else map place (dl_cells l) = map (\<lambda>i. (row_top env i, ce_main_axis_size env i)) [0..<dl_count l])"

lemma lay_out_Cons:
  "fst (lay_out y extent (i # is)) =
     \<lparr>ci_pos = y, ci_size = extent i, ci_composed = False, ci_layout_id = -1\<rparr> # fst (lay_out (y + extent i) extent is)"
  "snd (lay_out y extent (i # is)) = snd (lay_out (y + extent i) extent is)"
  by (simp_all add: Let_def split: prod.split)

declare lay_out.simps(2) [simp del]

lemma length_lay_out: "length (fst (lay_out y extent is)) = length is"
  by (induction "is" arbitrary: y) (simp_all add: lay_out_Cons)

lemma lay_out_nth:
  fixes y :: "'d :: linordered_ab_group_add"
  shows "k < length is \<Longrightarrow> place (fst (lay_out y extent is) ! k) = (y + sum_list (map extent (take k is)), extent (is ! k))"
proof (induction "is" arbitrary: y k)
  case (Cons i "is")
  then show ?case by (cases k) (simp_all add: lay_out_Cons add.assoc place_def)
qed simp

lemma lay_out_full:
  fixes y :: "'d :: linordered_ab_group_add"
  shows "snd (lay_out y extent is) = y + sum_list (map extent is)"
  by (induction "is" arbitrary: y) (simp_all add: lay_out_Cons add.assoc)

lemma lay_out_rows:
  fixes env :: "('d :: linordered_ab_group_add) cell_env"
  shows "map place (fst (lay_out 0 (ce_main_axis_size env) [0..<n])) = map (\<lambda>i. (row_top env i, ce_main_axis_size env i)) [0..<n]"
  by (rule nth_equalityI) (simp_all add: length_lay_out lay_out_nth row_top_def take_upt)

lemma list_ok_update:
  fixes l :: "('d :: linordered_ab_group_add) dynamic_list"
  assumes "list_ok env l" and "dl_request l"
  shows "list_ok env (update_cells env l) \<and> dl_count (update_cells env l) = dl_count l \<and> \<not> dl_request (update_cells env l)"
proof -
  obtain cells full where lo: "lay_out 0 (ce_main_axis_size env) [0..<dl_count l] = (cells, full)" by fastforce
  then have "map place cells = map (\<lambda>i. (row_top env i, ce_main_axis_size env i)) [0..<dl_count l]"
    using lay_out_rows [of env "dl_count l"] by simp
  then show ?thesis using assms by (auto simp: update_cells_def list_ok_def lo Let_def)
qed

lemma row_top_mono:
  fixes env :: "('d :: linordered_ab_group_add) cell_env"
  assumes "\<And>i. 0 \<le> ce_main_axis_size env i" and "i \<le> j"
  shows "row_top env i \<le> row_top env j"
  using assms(2)
proof (induction j)
  case (Suc j)
  then show ?case using assms(1) [of j] by (auto simp: row_top_def le_Suc_eq intro: add_increasing2)
qed (simp add: row_top_def)

lemma cells_sorted:
  fixes l :: "('d :: linordered_ab_group_add) dynamic_list"
  assumes "list_ok env l" and "\<And>i. 0 \<le> ce_main_axis_size env i"
  shows "sorted_wrt (\<lambda>c d. ci_pos c \<le> ci_pos d) (dl_cells l)"
proof (cases "dl_request l")
  case False
  with assms(1) have p: "map place (dl_cells l) = map (\<lambda>i. (row_top env i, ce_main_axis_size env i)) [0..<dl_count l]"
    by (simp add: list_ok_def)
  then have n: "length (dl_cells l) = dl_count l" by (metis length_map diff_zero length_upt)
  have "ci_pos (dl_cells l ! i) = row_top env i" if "i < dl_count l" for i
    using arg_cong [OF p, of "\<lambda>xs. fst (xs ! i)"] that n by (simp add: place_def)
  with n show ?thesis using row_top_mono [of env] assms(2) by (simp add: sorted_wrt_iff_nth_less)
qed (use assms(1) in \<open>simp add: list_ok_def\<close>)

text \<open>Rectangles that intersect overlap along the list's axis.\<close>

definition clip_law :: "('d :: ord) cell_env \<Rightarrow> bool" where
  "clip_law env \<longleftrightarrow> (\<forall>r s. ce_intersects env r s \<longrightarrow> re_top r \<le> re_bottom s \<and> re_top s \<le> re_bottom r)"

lemma clip_lawD: "clip_law env \<Longrightarrow> ce_intersects env r s \<Longrightarrow> re_top r \<le> re_bottom s \<and> re_top s \<le> re_bottom r"
  by (simp add: clip_law_def)

lemma draw_from_drawn:
  fixes cs :: "('d :: linordered_ab_group_add) cell_info list"
  assumes law: "clip_law env"
    and "sorted_wrt (\<lambda>c d. ci_pos c \<le> ci_pos d) cs"
  shows "snd (fst (draw_from env lid b clip i cs)) =
    map fst (filter (\<lambda>(k, c). ce_intersects env clip (cell_bounds b c)) (enumerate i cs))"
  using assms(2)
proof (induction cs arbitrary: i)
  case (Cons c cs)
  show ?case
  proof (cases "re_top (cell_bounds b c) > re_bottom clip")
    case True
    have "\<not> ce_intersects env clip (cell_bounds b d)" if "d \<in> set cs" for d
    proof -
      have "re_top (cell_bounds b c) \<le> re_top (cell_bounds b d)"
        using Cons.prems that by (simp add: cell_bounds_def)
      then show ?thesis using clip_lawD [OF law, of clip "cell_bounds b d"] True by fastforce
    qed
    then have "filter (\<lambda>(k, c). ce_intersects env clip (cell_bounds b c)) (enumerate (Suc i) cs) = []"
      by (auto simp: filter_empty_conv in_set_enumerate_eq)
    then show ?thesis using True by (simp add: Let_def)
  next
    case False
    then show ?thesis using Cons by (simp add: Let_def split: prod.split) (metis fst_conv snd_conv)
  qed
qed simp

lemma enumerate_nth: "enumerate i xs = map (\<lambda>k. (i + k, xs ! k)) [0..<length xs]"
  by (rule nth_equalityI) (simp_all add: nth_enumerate_eq)

lemma above_hidden:
  fixes cells :: "('d :: linordered_ab_group_add) cell_info list"
  assumes law: "clip_law env"
    and "k < first_shown b clip cells"
  shows "\<not> ce_intersects env clip (cell_bounds b (cells ! k))"
proof -
  let ?P = "\<lambda>c. ci_pos c + ci_size c < re_top clip - re_top b"
  have "takeWhile ?P cells ! k \<in> set (takeWhile ?P cells)" using assms(2) by (simp add: first_shown_def)
  then have "?P (cells ! k)"
    using assms(2) set_takeWhileD by (fastforce simp: first_shown_def takeWhile_nth)
  then have "re_bottom (cell_bounds b (cells ! k)) < re_top clip"
    by (simp add: cell_bounds_def algebra_simps less_diff_eq)
  with clip_lawD [OF law, of clip "cell_bounds b (cells ! k)"] show ?thesis by fastforce
qed

lemma first_shown_le: "first_shown b clip cells \<le> length cells"
  by (simp add: first_shown_def length_takeWhile_le)

lemma window_exact:
  fixes cells :: "('d :: linordered_ab_group_add) cell_info list"
  assumes law: "clip_law env"
    and sorted: "sorted_wrt (\<lambda>c d. ci_pos c \<le> ci_pos d) cells" and s: "s = first_shown b clip cells"
  shows "snd (fst (draw_from env lid b clip s (drop s cells))) =
    filter (\<lambda>i. ce_intersects env clip (cell_bounds b (cells ! i))) [0..<length cells]"
proof -
  let ?Q = "\<lambda>i. ce_intersects env clip (cell_bounds b (cells ! i))"
  have le: "s \<le> length cells" unfolding s by (rule first_shown_le)
  have "sorted_wrt (\<lambda>c d. ci_pos c \<le> ci_pos d) (drop s cells)" using sorted by (rule sorted_wrt_drop)
  from draw_from_drawn [OF law this]
  have "snd (fst (draw_from env lid b clip s (drop s cells))) =
      map fst (filter (\<lambda>(k, c). ce_intersects env clip (cell_bounds b c)) (map (\<lambda>k. (s + k, cells ! (s + k))) [0..<length cells - s]))"
    using le by (simp add: enumerate_nth cong: map_cong)
  also have "\<dots> = map ((+) s) (filter (\<lambda>k. ?Q (s + k)) [0..<length cells - s])"
    by (simp add: filter_map comp_def)
  also have "\<dots> = filter ?Q (map ((+) s) [0..<length cells - s])" by (simp add: filter_map comp_def)
  also have "map ((+) s) [0..<length cells - s] = [s..<length cells]"
    proof -
    have "map ((+) s) [0..<length cells - s] = map (\<lambda>i. i + s) [0..<length cells - s]" by (simp add: add.commute)
    with le show ?thesis using map_add_upt [of s "length cells - s"] by simp
  qed
  also have "filter ?Q [s..<length cells] = filter ?Q ([0..<s] @ [s..<length cells])"
    using above_hidden [OF law] s by (auto simp: filter_empty_conv)
  also have "[0..<s] @ [s..<length cells] = [0..<length cells]" using le upt_add_eq_append [of 0 s "length cells - s"] by simp
  finally show ?thesis .
qed

text \<open>Drawing moves no cell.\<close>

lemma place_drawn [simp]: "place (c\<lparr>ci_composed := x, ci_layout_id := y\<rparr>) = place c"
  by (simp add: place_def)

lemma draw_from_pos: "map place (fst (fst (draw_from env lid b clip i cs))) = map place cs"
proof (induction cs arbitrary: i)
  case (Cons c cs)
  obtain cs' drawn stop where r: "draw_from env lid b clip (i + 1) cs = ((cs', drawn), stop)" by (metis prod.exhaust)
  with Cons.IH [of "i + 1"] have "map place cs' = map place cs" by simp
  with r show ?case by (simp add: Let_def)
qed simp

lemma forget_layouts_pos: "map place (forget_layouts old new cells) = map place cells"
  by (auto simp: forget_layouts_def enumerate_nth place_def intro!: nth_equalityI)

lemma list_ok_place:
  "list_ok env l \<Longrightarrow> map place (dl_cells l') = map place (dl_cells l) \<Longrightarrow> dl_request l' = dl_request l \<Longrightarrow>
     dl_count l' = dl_count l \<Longrightarrow> list_ok env l'"
  by (auto simp: list_ok_def)

section \<open>Events in any order\<close>

datatype 'd list_event =
    L_Limits
  | L_Layout 'd 'd
  | L_Draw "'d rect" "'d rect"
  | L_Resize nat
  | L_Click "'d rect" bool
  | L_Key "'d rect" bool bool
  | L_Cursor "'d rect" bool
  | L_Begin_Focus
  | L_End_Focus
  | L_Focus nat
  | L_Reset

definition list_step ::
  "('d :: {ord, plus, minus, zero}) cell_env \<Rightarrow> 'd list_event \<Rightarrow> 'd dynamic_list \<Rightarrow> 'd dynamic_list option" where
  "list_step env ev l =
     (case ev of
        L_Limits \<Rightarrow> Some (snd (limits env l))
      | L_Layout w h \<Rightarrow> Some (layout w h l)
      | L_Draw b clip \<Rightarrow> Some (snd (draw env b clip l))
      | L_Resize n \<Rightarrow> Some (resize n l)
      | L_Click b down \<Rightarrow> map_option snd (click_list env b down l)
      | L_Key b tab shift \<Rightarrow> map_option snd (key_list env b tab shift l)
      | L_Cursor b leaving \<Rightarrow> Some (cursor_list env b leaving l)
      | L_Begin_Focus \<Rightarrow> begin_focus_list env l
      | L_End_Focus \<Rightarrow> end_focus_list l
      | L_Focus i \<Rightarrow> Some (focus_at i l)
      | L_Reset \<Rightarrow> Some (reset l))"

fun list_run ::
  "('d :: {ord, plus, minus, zero}) cell_env \<Rightarrow> 'd list_event list \<Rightarrow> 'd dynamic_list \<Rightarrow> 'd dynamic_list option" where
  "list_run env [] l = Some l"
| "list_run env (ev # evs) l = Option.bind (list_step env ev l) (list_run env evs)"

lemma list_ok_same: "list_ok env l \<Longrightarrow> dl_cells l' = dl_cells l \<Longrightarrow> dl_request l' = dl_request l \<Longrightarrow> dl_count l' = dl_count l \<Longrightarrow> list_ok env l'"
  by (simp add: list_ok_def)

definition same_cells :: "'d dynamic_list \<Rightarrow> 'd dynamic_list \<Rightarrow> bool" where
  "same_cells l l' \<longleftrightarrow> dl_cells l' = dl_cells l \<and> dl_request l' = dl_request l \<and> dl_count l' = dl_count l"

lemma new_focus_same: "new_focus ix l = Some l' \<Longrightarrow> same_cells l l'"
  by (auto simp: new_focus_def same_cells_def Let_def split: if_splits)

lemma event_same:
  "click_list env b down l = Some (r, l') \<Longrightarrow> same_cells l l'"
  "key_list env b tab shift l = Some (r, l') \<Longrightarrow> same_cells l l'"
  "begin_focus_list env l = Some l' \<Longrightarrow> same_cells l l'"
  "end_focus_list l = Some l' \<Longrightarrow> same_cells l l'"
  "same_cells l (cursor_list env b leaving l)"
  "same_cells l (focus_at i l)" "same_cells l (reset l)" "same_cells l (layout w h l)"
  by (auto simp: click_list_def key_list_def begin_focus_list_def end_focus_list_def cursor_list_def focus_at_def
      reset_def layout_def same_cells_def Let_def bind_eq_Some_conv dest!: new_focus_same split: if_splits option.splits)

lemma list_ok_draw:
  fixes l :: "('d :: linordered_ab_group_add) dynamic_list"
  assumes "list_ok env l"
  shows "list_ok env (snd (draw env b clip l))"
proof -
  define l1 where "l1 = (if dl_request l then update_cells env l else l)"
  have ok: "list_ok env l1" using assms list_ok_update [of env l] by (auto simp: l1_def)
  let ?s = "first_shown b clip (dl_cells l1)"
  obtain cs drawn stop where d: "draw_from env (dl_layout_id l1) b clip ?s (drop ?s (dl_cells l1)) = ((cs, drawn), stop)"
    by (metis prod.exhaust)
  have "map place cs = map place (drop ?s (dl_cells l1))"
    using draw_from_pos [of env "dl_layout_id l1" b clip ?s "drop ?s (dl_cells l1)"] d by simp
  then have "map place (take ?s (dl_cells l1) @ cs) = map place (dl_cells l1)"
    by (metis append_take_drop_id map_append)
  with ok d show ?thesis
    by (auto simp: draw_def l1_def [symmetric] Let_def forget_layouts_pos intro: list_ok_place [OF ok])
qed

lemma list_ok_step:
  fixes l :: "('d :: linordered_ab_group_add) dynamic_list"
  assumes "list_ok env l" and "list_step env ev l = Some l'"
  shows "list_ok env l'"
proof -
  have same: "same_cells l l' \<Longrightarrow> ?thesis" using assms(1) by (auto simp: same_cells_def intro: list_ok_same)
  show ?thesis
  proof (cases ev)
    case L_Limits
    with assms list_ok_update [of env l] show ?thesis by (auto simp: list_step_def limits_def Let_def)
  next
    case (L_Draw b clip)
    with assms list_ok_draw [of env l] show ?thesis by (auto simp: list_step_def)
  next
    case (L_Resize n)
    with assms(2) show ?thesis by (auto simp: list_step_def resize_def request_update_def list_ok_def)
  next
    case (L_Click b down)
    with assms(2) show ?thesis by (auto simp: list_step_def intro: same event_same(1))
  next
    case (L_Key b tab shift)
    with assms(2) show ?thesis by (auto simp: list_step_def intro: same event_same(2))
  next
    case L_Begin_Focus
    with assms(2) have "begin_focus_list env l = Some l'" by (simp add: list_step_def)
    then show ?thesis by (rule same [OF event_same(3)])
  next
    case L_End_Focus
    with assms(2) have "end_focus_list l = Some l'" by (simp add: list_step_def)
    then show ?thesis by (rule same [OF event_same(4)])
  next
    case (L_Cursor b leaving)
    with assms(2) have "l' = cursor_list env b leaving l" by (simp add: list_step_def)
    then show ?thesis using event_same(5) same by blast
  next
    case (L_Focus i)
    with assms(2) have "l' = focus_at i l" by (simp add: list_step_def)
    then show ?thesis using event_same(6) same by blast
  next
    case L_Reset
    with assms(2) have "l' = reset l" by (simp add: list_step_def)
    then show ?thesis using event_same(7) same by blast
  next
    case (L_Layout w h)
    with assms(2) have "l' = layout w h l" by (simp add: list_step_def)
    then show ?thesis using event_same(8) same by blast
  qed
qed

lemma list_ok_new: "list_ok env (dynamic_list_new n zero)"
  by (simp add: list_ok_def dynamic_list_new_def)

lemma list_ok_run:
  fixes l :: "('d :: linordered_ab_group_add) dynamic_list"
  shows "list_run env evs l = Some l' \<Longrightarrow> list_ok env l \<Longrightarrow> list_ok env l'"
  by (induction evs arbitrary: l) (auto simp: bind_eq_Some_conv dest: list_ok_step)

section \<open>Rows of labels\<close>

text \<open>
  Rows that take neither the focus nor a click, as labels do: nothing is tracked, and no event reads
  past the cells.
\<close>

definition plain_rows :: "'d cell_env \<Rightarrow> bool" where
  "plain_rows env \<longleftrightarrow> (\<forall>i. \<not> ce_wants_focus env i \<and> \<not> ce_accepts_click env i)"

definition untracked :: "'d dynamic_list \<Rightarrow> bool" where
  "untracked l \<longleftrightarrow> dl_focus l = -1 \<and> dl_saved_focus l = -1 \<and> dl_click l = -1"

lemma plain_tab: "plain_rows env \<Longrightarrow> tab_target env shift l = None"
  by (auto simp: tab_target_def plain_rows_def find_None_iff Let_def)

lemma plain_focus: "plain_rows env \<Longrightarrow> \<not> wants_focus env l"
  by (auto simp: wants_focus_def plain_rows_def scan_Some_iff)

lemma plain_scan: "plain_rows env \<Longrightarrow> scan (\<lambda>ix. P ix \<and> ce_wants_focus env ix) n = None"
  by (auto simp: plain_rows_def scan_None_iff)

lemma plain_step:
  assumes rows: "plain_rows env" and "untracked l" and "\<And>i. ev \<noteq> L_Focus i"
  shows "\<exists>l'. list_step env ev l = Some l' \<and> untracked l'"
proof (cases ev)
  case (L_Click b down)
  then show ?thesis
    using assms plain_focus [OF rows, of l]
    by (auto simp: list_step_def click_list_def untracked_def plain_rows_def Let_def split: option.split)
next
  case (L_Key b tab shift)
  then show ?thesis
    using assms(2) by (simp add: list_step_def key_list_def untracked_def plain_tab [OF rows] ex_bool_eq)
next
  case L_Begin_Focus
  then show ?thesis
    using assms(2) by (simp add: list_step_def begin_focus_list_def untracked_def plain_scan [OF rows] Let_def)
qed (use assms(2,3) in \<open>auto simp: list_step_def limits_def layout_def draw_def update_cells_def resize_def request_update_def
       cursor_list_def end_focus_list_def reset_def untracked_def Let_def split: prod.split option.split\<close>)

section \<open>Properties\<close>

definition row_bounds :: "('d :: monoid_add) cell_env \<Rightarrow> 'd rect \<Rightarrow> nat \<Rightarrow> 'd rect" where
  "row_bounds env b i = b\<lparr>re_top := re_top b + row_top env i, re_bottom := re_top b + row_top env i + ce_main_axis_size env i\<rparr>"

lemma draw_visible:
  fixes env :: "('d :: linordered_ab_group_add) cell_env"
  assumes ok: "list_ok env l"
    and sizes: "\<And>i. 0 \<le> ce_main_axis_size env i" and law: "clip_law env" and "ce_intersects env b clip"
  shows "fst (draw env b clip l) = filter (\<lambda>i. ce_intersects env clip (row_bounds env b i)) [0..<dl_count l]"
proof -
  define l1 where "l1 = (if dl_request l then update_cells env l else l)"
  from ok have ok1: "list_ok env l1" and r: "\<not> dl_request l1" "dl_count l1 = dl_count l"
    using list_ok_update [of env l] by (auto simp: l1_def)
  then have p: "map place (dl_cells l1) = map (\<lambda>i. (row_top env i, ce_main_axis_size env i)) [0..<dl_count l]"
    by (simp add: list_ok_def)
  then have len: "length (dl_cells l1) = dl_count l" by (metis length_map diff_zero length_upt)
  have bounds: "cell_bounds b (dl_cells l1 ! i) = row_bounds env b i" if "i < dl_count l" for i
    using arg_cong [OF p, of "\<lambda>xs. xs ! i"] that len by (simp add: place_def cell_bounds_def row_bounds_def)
  have "fst (draw env b clip l) = filter (\<lambda>i. ce_intersects env clip (cell_bounds b (dl_cells l1 ! i))) [0..<length (dl_cells l1)]"
    using window_exact [OF law cells_sorted [OF ok1 sizes] refl] assms(4)
    by (simp add: draw_def l1_def [symmetric] Let_def split: prod.split) (metis fst_conv snd_conv)
  also have "\<dots> = filter (\<lambda>i. ce_intersects env clip (row_bounds env b i)) [0..<dl_count l]"
    unfolding len by (rule filter_cong) (simp_all add: bounds)
  finally show ?thesis .
qed

text \<open>
  The windowed drawing is the naive one: after any events, with rows added and removed in between,
  \<open>draw\<close> draws exactly the composer's rows whose place, the heights above it below the list's top,
  meets the clip; the binary search and the early stop leave none of them out.
\<close>

theorem draws_exactly_the_visible_rows:
  fixes env :: "('d :: linordered_ab_group_add) cell_env"
  assumes run: "list_run env evs (dynamic_list_new n 0) = Some l"
    and sizes: "\<And>i. 0 \<le> ce_main_axis_size env i" and law: "clip_law env" and "ce_intersects env b clip"
  shows "fst (draw env b clip l) = filter (\<lambda>i. ce_intersects env clip (row_bounds env b i)) [0..<dl_count l]"
  by (rule draw_visible [OF list_ok_run [OF run list_ok_new] sizes law assms(4)])

definition rows_env :: "int cell_env" where
  "rows_env = \<lparr>ce_main_axis_size = (\<lambda>i. 20), ce_wants_focus = (\<lambda>i. i = 2), ce_wants_control = (\<lambda>_. True),
     ce_hit = (\<lambda>_ _. True), ce_includes = (\<lambda>_. True), ce_accepts_click = (\<lambda>_. True), ce_accepts_key = (\<lambda>_. False),
     ce_accepts_text = (\<lambda>_. True),
     ce_intersects = (\<lambda>r s. re_top r \<le> re_bottom s \<and> re_top s \<le> re_bottom r)\<rparr>"

definition box_at :: "int \<Rightarrow> int \<Rightarrow> int rect" where
  "box_at upper lower = \<lparr>re_left = 0, re_top = upper, re_right = 100, re_bottom = lower\<rparr>"

lemma rows_env_law: "clip_law rows_env" "0 \<le> ce_main_axis_size rows_env i"
  by (simp_all add: clip_law_def rows_env_def)

lemma draws_exactly_the_visible_rows_witness:
  "\<exists>l. list_run rows_env [L_Limits, L_Draw (box_at 0 100) (box_at 0 100), L_Resize 8] (dynamic_list_new 5 0) = Some l \<and>
     fst (draw rows_env (box_at 0 160) (box_at 50 90) l) = [2, 3, 4]"
proof -
  let ?b = "box_at 0 160" and ?clip = "box_at 50 90"
  obtain l where l: "list_run rows_env [L_Limits, L_Draw (box_at 0 100) (box_at 0 100), L_Resize 8] (dynamic_list_new 5 0) = Some l"
    "dl_count l = 8"
    by (simp add: list_step_def resize_def request_update_def)
  have "ce_intersects rows_env ?b ?clip" by (simp add: rows_env_def box_at_def)
  then have "fst (draw rows_env ?b ?clip l) = filter (\<lambda>i. ce_intersects rows_env ?clip (row_bounds rows_env ?b i)) [0..<8]"
    using draws_exactly_the_visible_rows [OF l(1) rows_env_law(2,1)] l(2) by simp
  also have "\<dots> = [2, 3, 4]" by code_simp
  finally show ?thesis using l by blast
qed

text \<open>
  An update drops the cells and keeps the indices: with the focus on the third row, a list shrunk to
  one row reads past its cells at the next typed character. (The rows of this program, labels, do
  not take the focus.)
\<close>

lemma stale_focus_reads_past_cells:
  "Option.bind (list_run rows_env [L_Limits, L_Draw (box_at 0 100) (box_at 0 100), L_Begin_Focus, L_Resize 1, L_Limits]
     (dynamic_list_new 3 0)) (text_list rows_env (box_at 0 100)) = None"
  "map_option dl_focus (list_run rows_env [L_Limits, L_Draw (box_at 0 100) (box_at 0 100), L_Begin_Focus, L_Resize 1, L_Limits]
     (dynamic_list_new 3 0)) = Some 2"
  by code_simp+

text \<open>The release of a click that the element takes leaves the tracked index in place, so later drags reach it still.\<close>

lemma release_keeps_tracking:
  "map_option dl_click (list_run rows_env [L_Limits, L_Draw (box_at 0 100) (box_at 0 100), L_Click (box_at 0 100) True,
     L_Click (box_at 0 100) False] (dynamic_list_new 3 0)) = Some 0"
  by code_simp

section \<open>The vertical axis\<close>

definition get_main_axis_start :: "'d rect \<Rightarrow> 'd" where
  "get_main_axis_start r = re_top r"

definition get_main_axis_end :: "'d rect \<Rightarrow> 'd" where
  "get_main_axis_end r = re_bottom r"

text \<open>The smallest and the largest extent, as (x, y): the list is as high as its cells, no more and no less.\<close>

definition make_limits :: "'d \<Rightarrow> 'd \<times> 'd \<Rightarrow> ('d \<times> 'd) \<times> ('d \<times> 'd)" where
  "make_limits main_axis_size secondary = ((fst secondary, main_axis_size), (snd secondary, main_axis_size))"

end
