(* ===== verification/Reports.thy ===== *)
theory Reports
  imports Winnet Proxy_Endpoint
begin

text \<open>
  How the injector prints what a capsule reports: \<open>operator<<\<close> of an \<open>IpAddr\<close>
  (src/common/schema.hpp) and the two \<open>process_connect\<close> handlers with their notices
  (src/injector/injector_cli.hpp, injector_gui.hpp). A line is \<open>None\<close> where printing it is
  undefined; \<open>throws\<close> says that an exception (formatting, memory) ends the printing.
\<close>

section \<open>Printing\<close>

definition show_addr :: "(ip_address \<Rightarrow> string) \<Rightarrow> u8 list \<Rightarrow> IpAddr \<Rightarrow> string option" where
  "show_addr text stack addr =
     map_option (\<lambda>(address, port). address @ '':'' @ decimal (unat port)) (to_asio text stack addr)"

text \<open>A pid is printed as \<open>(int)pid_\<close>.\<close>

definition show_int :: "int \<Rightarrow> string" where
  "show_int i = (if i < 0 then ''-'' @ decimal (nat (- i)) else decimal (nat i))"

definition unset_field :: string where
  "unset_field = ''<unset>''"

definition dropped_report :: string where
  "dropped_report = ''a connection report was not printed''"

definition shown_syscall :: "InjecteeConnect \<Rightarrow> string" where
  "shown_syscall msg = (case ic_syscall msg of Some call \<Rightarrow> call | None \<Rightarrow> unset_field)"

definition shown_target :: "(ip_address \<Rightarrow> string) \<Rightarrow> u8 list \<Rightarrow> InjecteeConnect \<Rightarrow> string option" where
  "shown_target text stack msg =
     (case ic_addr msg of Some addr \<Rightarrow> show_addr text stack addr | None \<Rightarrow> Some unset_field)"

section \<open>The command line tool\<close>

definition cli_connect_line ::
  "bool \<Rightarrow> (ip_address \<Rightarrow> string) \<Rightarrow> u8 list \<Rightarrow> u32 \<Rightarrow> InjecteeConnect \<Rightarrow> string option" where
  "cli_connect_line throws text stack pid msg =
     (if throws then Some dropped_report
      else Option.bind (shown_target text stack msg) (\<lambda>addr.
        let line = show_int (sint pid) @ '': '' @ shown_syscall msg @ '' '' @ addr in
        case ic_proxy msg of
          Some proxy \<Rightarrow> map_option (\<lambda>p. line @ '' via '' @ p) (show_addr text stack proxy)
        | None \<Rightarrow> Some line))"

definition cli_pid_line :: "bool \<Rightarrow> u32 \<Rightarrow> string" where
  "cli_pid_line throws pid =
     (if throws then dropped_report else show_int (sint pid) @ '': established injectee connection'')"

definition cli_close_line :: "bool \<Rightarrow> u32 \<Rightarrow> string" where
  "cli_close_line throws pid = (if throws then dropped_report else show_int (sint pid) @ '': closed'')"

section \<open>The window\<close>

definition newline :: string where
  "newline = [CHR 0x0A]"

definition failure_line :: string where
  "failure_line = ''[report] '' @ dropped_report @ newline"

text \<open>\<open>stamp\<close> is the local time with its milliseconds, as printed.\<close>

definition gui_connect_line ::
  "bool \<Rightarrow> (ip_address \<Rightarrow> string) \<Rightarrow> u8 list \<Rightarrow> string \<Rightarrow> u32 \<Rightarrow> InjecteeConnect \<Rightarrow> string option" where
  "gui_connect_line throws text stack stamp pid msg =
     (if throws then Some failure_line
      else
        let start = ''['' @ stamp @ ''] '' @ show_int (sint pid) @ '': '' @ shown_syscall msg @ '' '' in
        Option.bind (shown_target text stack msg) (\<lambda>addr.
          map_option (\<lambda>via. start @ addr @ via @ newline)
            (case ic_proxy msg of
               Some proxy \<Rightarrow> map_option (\<lambda>p. '' via '' @ p) (show_addr text stack proxy)
             | None \<Rightarrow> Some [])))"

section \<open>Lemmas\<close>

text \<open>The addresses that can be printed: a port, and octets that fit or a domain.\<close>

definition printable :: "IpAddr \<Rightarrow> bool" where
  "printable addr \<longleftrightarrow> ia_port addr \<noteq> None \<and>
     (ia_v4_addr addr \<noteq> None \<or>
      (case ia_v6_addr addr of Some v \<Rightarrow> length v \<le> 16 | None \<Rightarrow> ia_domain addr \<noteq> None))"

lemma show_addr_Some: "show_addr text stack addr \<noteq> None \<longleftrightarrow> printable addr"
  by (auto simp: show_addr_def to_asio_def printable_def split: option.splits)

lemma show_addr_None: "show_addr text stack addr = None \<longleftrightarrow> \<not> printable addr"
  using show_addr_Some by blast

lemma to_ip_addr_printable: "to_ip_addr name = Some addr \<Longrightarrow> printable addr"
  by (auto simp: to_ip_addr_def printable_def sin6_addr_def split: if_splits)

lemma from_asio_printable: "addr = AddressV4 v \<or> addr = AddressV6 v6 \<and> length v6 = 16 \<Longrightarrow> printable (from_asio addr port)"
  by (auto simp: from_asio_def printable_def)

text \<open>The two front ends print the same report: the window's is the tool's between its stamp and a newline.\<close>

lemma gui_line_of_cli:
  "gui_connect_line False text stack stamp pid msg =
     map_option (\<lambda>line. ''['' @ stamp @ ''] '' @ line @ newline) (cli_connect_line False text stack pid msg)"
  by (cases "shown_target text stack msg"; cases "ic_proxy msg")
    (auto simp: gui_connect_line_def cli_connect_line_def Let_def option.map_comp comp_def)

definition report_printable :: "InjecteeConnect \<Rightarrow> bool" where
  "report_printable msg \<longleftrightarrow>
     (case ic_addr msg of Some addr \<Rightarrow> printable addr | None \<Rightarrow> True) \<and>
     (case ic_proxy msg of Some addr \<Rightarrow> printable addr | None \<Rightarrow> True)"

text \<open>
  A report is printed by both front ends, as the same line, or by neither, and it is printed exactly
  when each address that it carries has a port and fits; in particular every report a capsule makes
  of a socket address and a configured proxy is.
\<close>

lemma cli_line_printed: "cli_connect_line False text stack pid msg \<noteq> None \<longleftrightarrow> report_printable msg"
proof -
  have shown: "printable addr \<longleftrightarrow> (\<exists>s. show_addr text stack addr = Some s)" for addr
    using show_addr_Some [of "text" stack addr] by auto
  show ?thesis
    unfolding report_printable_def shown
    by (auto simp: cli_connect_line_def shown_target_def bind_eq_None_conv Let_def split: option.splits)
qed

theorem front_ends_print_alike:
  "(cli_connect_line False text stack pid msg \<noteq> None \<longleftrightarrow> report_printable msg) \<and>
   gui_connect_line False text stack stamp pid msg =
     map_option (\<lambda>line. ''['' @ stamp @ ''] '' @ line @ newline) (cli_connect_line False text stack pid msg)"
  using cli_line_printed gui_line_of_cli by blast

lemma capsule_report_printed:
  assumes "to_ip_addr name = Some addr" and "\<And>p. proxy = Some p \<Longrightarrow> printable p"
  shows "report_printable \<lparr>ic_handle = h, ic_addr = Some addr, ic_proxy = proxy, ic_syscall = call\<rparr>"
  using assms to_ip_addr_printable by (auto simp: report_printable_def split: option.split)

text \<open>
  A report is accepted from any connection, with no hello before it. One without a port makes the
  injector read an empty optional, one with seventeen octets of IPv6 address write past the array:
  fields inside an address are not looked at before they are used.
\<close>

lemma forged_report_undefined:
  "cli_connect_line False text stack pid
     \<lparr>ic_handle = None, ic_addr = Some ip_addr_init, ic_proxy = None, ic_syscall = None\<rparr> = None"
  "cli_connect_line False text stack pid
     \<lparr>ic_handle = None, ic_addr = Some (ip_addr_init\<lparr>ia_v6_addr := Some (replicate 17 0), ia_port := Some 80\<rparr>),
      ic_proxy = None, ic_syscall = None\<rparr> = None"
  by (simp_all add: cli_connect_line_def shown_target_def show_addr_def to_asio_def ip_addr_init_def)

text \<open>The capsule stores the octets of an IPv6 address in reverse and the injector prints them as stored.\<close>

lemma ipv6_target_printed_reversed:
  assumes "length v6 = 16" and "length stack = 16"
  shows "map_option (show_addr text stack) (to_ip_addr (sockaddr_in6_bytes v6 port)) =
    Some (Some (text (AddressV6 (rev v6)) @ '':'' @ decimal (unat port)))"
  using assms by (simp add: to_ip_addr_bytes show_addr_def to_asio_def from_asio_def)

text \<open>A pid with the top bit set is printed as a negative number.\<close>

lemma large_pid_printed_negative: "cli_close_line False 4294967295 = ''-1: closed''"
  by code_simp

end
