(* ===== verification/Gui_Window.thy ===== *)
theory Gui_Window
  imports Gui_Panel Text_Box Dynamic_List Reports "HOL-Library.Multiset"
begin

text \<open>
  The window at run time (src/injector/injector_gui.hpp): the log box with what the panels and the
  sessions put in it, the process list and the rows behind it, the hint texts, the two toggles.
  Sessions run on the io thread and reach the widgets by posting to the view, which runs what was
  posted later, in any order; clicks run on the window's thread. A failing allocation is a \<open>fault\<close>
  of the event; its flag says that the notice about it was lost too.
\<close>

section \<open>Hints and rows\<close>

definition input_tips :: "(string \<times> string) list" where
  "input_tips =
     [(''pid'', ''a process ID (e.g. `2333`)''),
      (''name'', ''a process name with wildcard matching (e.g. `python`, `py*`, `py??on`)''),
      (''name regexp'', ''a regular expression for process name (e.g. `python`, `py.*|firefox`)''),
      (''path'', ''a process full path with wildcard matching (e.g. `C:/program.exe`, `C:/programs/*.exe`)''),
      (''path regexp'', ''a regular expression for process full path (e.g. `C:/program.exe`, `C:/programs/(a|b).*`)''),
      (''exec'', ''command line (e.g. `python`, `C:/programs/something --some-option`)'')]"

definition input_tip_options :: "string list" where
  "input_tip_options = map fst input_tips"

definition input_tip_text :: "string \<Rightarrow> string" where
  "input_tip_text option = (case map_of input_tips option of None \<Rightarrow> [] | Some tip \<Rightarrow> tip)"

text \<open>Picking a selector: the new placeholder, or the line of the refusal.\<close>

definition selector_hint :: "string \<Rightarrow> string + string" where
  "selector_hint str =
     (case map_of input_tips str of None \<Rightarrow> Inl ''that process selector is not known'' | Some tip \<Rightarrow> Inr tip)"

text \<open>The labels of a row.\<close>

definition process_row :: "process_vector \<Rightarrow> nat \<Rightarrow> string list" where
  "process_row vec index =
     (if index < length vec then [decimal (unat (fst (vec ! index))), snd (vec ! index)] else [''unknown''])"

definition log_toggle :: "bool \<Rightarrow> bool \<Rightarrow> string + server_cmd list" where
  "log_toggle throws on = (if throws then Inl ''the connection log was not switched'' else Inr [EnableLog on])"

definition subprocess_toggle :: "bool \<Rightarrow> bool \<Rightarrow> string + server_cmd list" where
  "subprocess_toggle throws on =
     (if throws then Inl ''subprocess injection was not switched'' else Inr [EnableSubprocess on])"

section \<open>State\<close>

datatype window_post = Append string | Resize_Rows

datatype fault = No_Fault | Early bool | Late bool

record ('c, 'd) window =
  gw_rows :: process_vector
  gw_posts :: "window_post list"
  gw_list :: "'d dynamic_list"
  gw_log :: "'c text_box"

definition window_new :: "'c \<Rightarrow> ('d :: zero) \<Rightarrow> ('c, 'd) window" where
  "window_new x d = \<lparr>gw_rows = [], gw_posts = [], gw_list = dynamic_list_new 0 d, gw_log = text_box_init [] x []\<rparr>"

section \<open>The log\<close>

definition log_append :: "string \<Rightarrow> 'c text_box \<Rightarrow> 'c text_box" where
  "log_append line log = set_text (tb_text log @ line) log"

text \<open>\<open>report\<close> and \<open>guarded\<close> of \<open>make_controls\<close>.\<close>

definition report_line :: "string \<Rightarrow> string \<Rightarrow> string" where
  "report_line panel why = panel @ '' '' @ why @ newline"

definition report_refusal :: "bool \<Rightarrow> string \<Rightarrow> string \<Rightarrow> ('c, 'd) window \<Rightarrow> ('c, 'd) window" where
  "report_refusal throws panel why w =
     (if throws then w else w\<lparr>gw_log := log_append (report_line panel why) (gw_log w)\<rparr>)"

definition guarded ::
  "bool \<Rightarrow> (('c, 'd) window \<Rightarrow> ('c, 'd) window) \<Rightarrow> string \<Rightarrow> string \<Rightarrow> ('c, 'd) window \<Rightarrow> ('c, 'd) window" where
  "guarded throws action panel line w = (if throws then report_refusal False panel line w else action w)"

definition clean_click :: "bool \<Rightarrow> ('c, 'd) window \<Rightarrow> ('c, 'd) window" where
  "clean_click throws =
     guarded throws (\<lambda>w. w\<lparr>gw_log := set_text [] (gw_log w)\<rparr>) ''[proxy]'' ''the log was not cleared''"

section \<open>What a session does\<close>

definition post :: "window_post \<Rightarrow> ('c, 'd) window \<Rightarrow> ('c, 'd) window" where
  "post p w = w\<lparr>gw_posts := gw_posts w @ [p]\<rparr>"

definition report_failure :: "bool \<Rightarrow> ('c, 'd) window \<Rightarrow> ('c, 'd) window" where
  "report_failure mute w = (if mute then w else post (Append failure_line) w)"

text \<open>\<open>refresh\<close>, with the rows already changed (they are sorted with the change); a late fault is one of the post.\<close>

definition refresh :: "fault \<Rightarrow> process_vector \<Rightarrow> ('c, 'd) window \<Rightarrow> ('c, 'd) window" where
  "refresh fault rows w =
     (case fault of
        No_Fault \<Rightarrow> post Resize_Rows (w\<lparr>gw_rows := rows\<rparr>)
      | Early mute \<Rightarrow> report_failure mute w
      | Late mute \<Rightarrow> report_failure mute (w\<lparr>gw_rows := rows\<rparr>))"

definition session_pid :: "fault \<Rightarrow> DWORD \<Rightarrow> string \<Rightarrow> ('c, 'd) window \<Rightarrow> ('c, 'd) window" where
  "session_pid fault pid name w = refresh fault (gui_process_pid name pid (gw_rows w)) w"

definition session_close :: "fault \<Rightarrow> DWORD \<Rightarrow> ('c, 'd) window \<Rightarrow> ('c, 'd) window" where
  "session_close fault pid w =
     (if list_ex (\<lambda>row. fst row = pid) (gw_rows w)
      then refresh fault (gui_process_close pid (gw_rows w)) w else w)"

definition session_connect ::
  "(ip_address \<Rightarrow> string) \<Rightarrow> u8 list \<Rightarrow> fault \<Rightarrow> string \<Rightarrow> DWORD \<Rightarrow> InjecteeConnect \<Rightarrow> ('c, 'd) window \<Rightarrow> ('c, 'd) window option" where
  "session_connect text stack fault stamp pid msg w =
     (case fault of
        No_Fault \<Rightarrow> map_option (\<lambda>line. post (Append line) w) (gui_connect_line False text stack stamp pid msg)
      | Early mute \<Rightarrow> Some (report_failure mute w)
      | Late mute \<Rightarrow> Some (report_failure mute w))"

text \<open>The view runs one of the posted functions; \<open>resize\<close> reads the number of rows then.\<close>

definition run_posted :: "nat \<Rightarrow> ('c, 'd :: zero) window \<Rightarrow> ('c, 'd) window" where
  "run_posted i w =
     (if i < length (gw_posts w) then
        (let w1 = w\<lparr>gw_posts := take i (gw_posts w) @ drop (Suc i) (gw_posts w)\<rparr>
         in case gw_posts w ! i of
              Append line \<Rightarrow> w1\<lparr>gw_log := log_append line (gw_log w1)\<rparr>
            | Resize_Rows \<Rightarrow> w1\<lparr>gw_list := resize (length (gw_rows w1)) (gw_list w1)\<rparr>)
      else w)"

section \<open>Events\<close>

datatype ('c, 'd) window_event =
    Session_Pid fault DWORD string
  | Session_Close fault DWORD
  | Session_Connect fault string DWORD InjecteeConnect
  | Run_Posted nat
  | Refusal bool string string
  | Clean bool
  | Log_Event "'c box_event"
  | List_Event "'d list_event"

record ('c, 'd) window_env =
  we_lib :: text_lib
  we_ctx :: "'c text_ctx"
  we_cells :: "'d cell_env"
  we_text :: "ip_address \<Rightarrow> string"
  we_stack :: "u8 list"

fun window_step ::
  "('c :: {ord, plus, minus, times, uminus}, 'd :: {ord, plus, minus, zero}) window_env \<Rightarrow> ('c, 'd) window_event \<Rightarrow>
     ('c, 'd) window \<Rightarrow> ('c, 'd) window option" where
  "window_step env (Session_Pid fault pid name) w = Some (session_pid fault pid name w)"
| "window_step env (Session_Close fault pid) w = Some (session_close fault pid w)"
| "window_step env (Session_Connect fault stamp pid msg) w = session_connect (we_text env) (we_stack env) fault stamp pid msg w"
| "window_step env (Run_Posted i) w = Some (run_posted i w)"
| "window_step env (Refusal throws panel why) w = Some (report_refusal throws panel why w)"
| "window_step env (Clean throws) w = Some (clean_click throws w)"
| "window_step env (Log_Event ev) w = map_option (\<lambda>b. w\<lparr>gw_log := b\<rparr>) (box_step (we_lib env) (we_ctx env) ev (gw_log w))"
| "window_step env (List_Event ev) w = map_option (\<lambda>l. w\<lparr>gw_list := l\<rparr>) (list_step (we_cells env) ev (gw_list w))"

fun window_run ::
  "('c :: {ord, plus, minus, times, uminus}, 'd :: {ord, plus, minus, zero}) window_env \<Rightarrow> ('c, 'd) window_event list \<Rightarrow>
     ('c, 'd) window \<Rightarrow> ('c, 'd) window option" where
  "window_run env [] w = Some w"
| "window_run env (ev # evs) w = Option.bind (window_step env ev w) (window_run env evs)"

section \<open>The log as a specification\<close>

text \<open>
  What the window promises of a line: one that a session posts is pending until it is shown once, one
  of a panel is shown at once, and a cleaning empties what is shown. The state is the pending lines
  and those shown.
\<close>

type_synonym log_spec_state = "string multiset \<times> string list"

definition spec_notice :: "bool \<Rightarrow> log_spec_state \<Rightarrow> log_spec_state" where
  "spec_notice mute a = (if mute then a else (add_mset failure_line (fst a), snd a))"

definition spec_fault :: "fault \<Rightarrow> log_spec_state \<Rightarrow> log_spec_state" where
  "spec_fault fault a = (case fault of No_Fault \<Rightarrow> a | Early mute \<Rightarrow> spec_notice mute a | Late mute \<Rightarrow> spec_notice mute a)"

fun log_spec ::
  "(ip_address \<Rightarrow> string) \<Rightarrow> u8 list \<Rightarrow> ('c, 'd) window_event \<Rightarrow> log_spec_state \<Rightarrow> log_spec_state \<Rightarrow> bool" where
  "log_spec text stack (Session_Connect fault stamp pid msg) a b =
     (if fault = No_Fault
      then \<exists>line. gui_connect_line False text stack stamp pid msg = Some line \<and> b = (add_mset line (fst a), snd a)
      else b = spec_fault fault a)"
| "log_spec text stack (Session_Pid fault pid name) a b = (b = spec_fault fault a)"
| "log_spec text stack (Session_Close fault pid) a b = (b = a \<or> b = spec_fault fault a)"
| "log_spec text stack (Run_Posted i) a b =
     (b = a \<or> (\<exists>line. line \<in># fst a \<and> b = (fst a - {#line#}, snd a @ [line])))"
| "log_spec text stack (Refusal throws panel why) a b =
     (b = (if throws then a else (fst a, snd a @ [report_line panel why])))"
| "log_spec text stack (Clean throws) a b =
     (b = (fst a, if throws then snd a @ [report_line ''[proxy]'' ''the log was not cleared''] else []))"
| "log_spec text stack (Log_Event ev) a b = (b = a)"
| "log_spec text stack (List_Event ev) a b = (b = a)"

fun posted_line :: "window_post \<Rightarrow> string multiset" where
  "posted_line (Append line) = {#line#}"
| "posted_line Resize_Rows = {#}"

definition pending_lines :: "window_post list \<Rightarrow> string multiset" where
  "pending_lines posts = sum_list (map posted_line posts)"

lemma pending_lines_simps [simp]:
  "pending_lines [] = {#}" "pending_lines (p # ps) = posted_line p + pending_lines ps"
  "pending_lines (ps @ qs) = pending_lines ps + pending_lines qs"
  by (simp_all add: pending_lines_def)

lemma pending_lines_take_out:
  "i < length posts \<Longrightarrow> pending_lines posts = posted_line (posts ! i) + pending_lines (take i posts @ drop (Suc i) posts)"
  by (subst id_take_nth_drop [of i posts]) (simp_all add: add.commute add.left_commute)

text \<open>Between a window and a state of the specification.\<close>

definition displays :: "('c, 'd) window \<Rightarrow> log_spec_state \<Rightarrow> bool" where
  "displays w a \<longleftrightarrow> fst a = pending_lines (gw_posts w) \<and> concat (snd a) = tb_text (gw_log w)"

text \<open>
  The events the log is specified for: no Ctrl-Z (it puts an old text back), and on the list none of the
  focus and the length that only its own posts set.
\<close>

fun regular :: "('c, 'd) window_event \<Rightarrow> bool" where
  "regular (Log_Event ev) = keeps_text ev"
| "regular (List_Event ev) = ((\<forall>i. ev \<noteq> L_Focus i) \<and> (\<forall>n. ev \<noteq> L_Resize n))"
| "regular _ = True"

definition env_law :: "('c, 'd) window_env \<Rightarrow> bool" where
  "env_law env \<longleftrightarrow> text_law (we_lib env) \<and> layout_law (we_ctx env) \<and> plain_rows (we_cells env)"

text \<open>
  The two events whose behaviour is undefined: a report with a forged address, which any connection
  can send (\<open>forged_report_undefined\<close>), and Up or Down in an empty log laid out in no row.
\<close>

definition undefined_event :: "('c, 'd) window_env \<Rightarrow> ('c, 'd) window_event \<Rightarrow> ('c, 'd) window \<Rightarrow> bool" where
  "undefined_event env ev w \<longleftrightarrow>
     (case ev of
        Session_Connect fault stamp pid msg \<Rightarrow> fault = No_Fault \<and> \<not> report_printable msg
      | Log_Event e \<Rightarrow> on_no_rows (we_ctx env) e (gw_log w)
      | _ \<Rightarrow> False)"

text \<open>The invariant: the selection is in the log, and the list tracks nothing.\<close>

definition window_ok :: "('c, 'd) window \<Rightarrow> bool" where
  "window_ok w \<longleftrightarrow> box_wf (gw_log w) \<and> untracked (gw_list w)"

lemma set_text_simps [simp]:
  "tb_text (set_text txt b) = txt" "tb_text (log_append line b) = tb_text b @ line"
  by (simp_all add: set_text_def log_append_def)

lemma box_wf_set_text [simp]: "box_wf b \<Longrightarrow> box_wf (set_text txt b)" "box_wf b \<Longrightarrow> box_wf (log_append line b)"
  using box_wf_sel [of b] by (auto simp: log_append_def set_text_def box_wf_def capture_state_def)

lemma untracked_resize [simp]: "untracked (resize n l) = untracked l"
  by (simp add: untracked_def resize_def request_update_def)

lemma window_ok_post [simp]: "window_ok (post p w) = window_ok w" "window_ok (w\<lparr>gw_rows := rows\<rparr>) = window_ok w"
  by (simp_all add: window_ok_def post_def)

lemma displays_post [simp]:
  "displays (post Resize_Rows w) a = displays w a" "displays (w\<lparr>gw_rows := rows\<rparr>) a = displays w a"
  "displays w a \<Longrightarrow> displays (post (Append line) w) (add_mset line (fst a), snd a)"
  by (simp_all add: displays_def post_def)

lemma displays_notice:
  assumes "displays w a"
  shows "displays (report_failure mute w) (spec_notice mute a)"
  using assms displays_post(3) [OF assms, of failure_line] by (simp add: report_failure_def spec_notice_def)

lemma refresh_step:
  assumes "window_ok w" and "displays w a"
  shows "window_ok (refresh fault rows w) \<and> displays (refresh fault rows w) (spec_fault fault a)"
  using assms displays_notice [of w a] displays_notice [of "w\<lparr>gw_rows := rows\<rparr>" a]
  by (cases fault) (simp_all add: refresh_def spec_fault_def report_failure_def)

lemma run_posted_step:
  assumes "window_ok w" and "displays w a"
  shows "window_ok (run_posted i w) \<and> (\<exists>b. log_spec txt stack (Run_Posted i) a b \<and> displays (run_posted i w) b)"
proof (cases "i < length (gw_posts w)")
  case True
  note out = pending_lines_take_out [OF True]
  show ?thesis
  proof (cases "gw_posts w ! i")
    case (Append line)
    have "displays (run_posted i w) (fst a - {#line#}, snd a @ [line])"
      using assms(2) True Append out by (simp add: displays_def run_posted_def)
    moreover have "line \<in># fst a" using assms(2) out Append by (simp add: displays_def)
    ultimately show ?thesis using assms(1) True Append by (auto simp: run_posted_def window_ok_def)
  next
    case Resize_Rows
    then have "displays (run_posted i w) a" using assms(2) True out by (simp add: displays_def run_posted_def)
    then show ?thesis using assms(1) True Resize_Rows by (auto simp: run_posted_def window_ok_def simp del: split_paired_Ex)
  qed
qed (use assms in \<open>auto simp: run_posted_def simp del: split_paired_Ex\<close>)

lemma window_step_ok:
  assumes law: "env_law env" and ok: "window_ok w" and a: "displays w a" and reg: "regular ev"
    and defd: "\<not> undefined_event env ev w"
  shows "\<exists>w'. window_step env ev w = Some w' \<and> window_ok w' \<and>
    (\<exists>b. log_spec (we_text env) (we_stack env) ev a b \<and> displays w' b)"
proof (cases ev)
  case (Session_Pid fault pid name)
  with refresh_step [OF ok a] show ?thesis by (simp add: session_pid_def)
next
  case (Session_Close fault pid)
  with refresh_step [OF ok a] ok a show ?thesis by (auto simp: session_close_def simp del: split_paired_Ex)
next
  case (Session_Connect fault stamp pid msg)
  show ?thesis
  proof (cases "fault = No_Fault")
    case True
    then obtain line where "gui_connect_line False (we_text env) (we_stack env) stamp pid msg = Some line"
      using defd Session_Connect cli_line_printed [of "we_text env" "we_stack env" pid msg]
      by (auto simp: gui_line_of_cli undefined_event_def)
    with True Session_Connect ok a show ?thesis by (simp add: session_connect_def)
  next
    case False
    then show ?thesis
      using Session_Connect ok a displays_notice [OF a]
      by (cases fault) (simp_all add: session_connect_def spec_fault_def report_failure_def)
  qed
next
  case (Run_Posted i)
  with run_posted_step [OF ok a, of i "we_text env" "we_stack env"] show ?thesis by simp
next
  case (Refusal throws panel why)
  with ok a show ?thesis by (simp add: report_refusal_def window_ok_def displays_def)
next
  case (Clean throws)
  with ok a show ?thesis by (simp add: clean_click_def guarded_def report_refusal_def window_ok_def displays_def)
next
  case (Log_Event ev')
  obtain b' where b: "box_step (we_lib env) (we_ctx env) ev' (gw_log w) = Some b'" "box_wf b'"
    using box_step_ok [of "we_lib env" "we_ctx env" "gw_log w" ev'] law ok defd Log_Event
    unfolding env_law_def window_ok_def undefined_event_def by auto
  then have "tb_text b' = tb_text (gw_log w)" using reg Log_Event by (intro box_step_text [OF b(1)]) simp
  with b Log_Event ok a show ?thesis by (simp add: window_ok_def displays_def)
next
  case (List_Event ev')
  obtain l' where "list_step (we_cells env) ev' (gw_list w) = Some l'" "untracked l'"
    using plain_step [of "we_cells env" "gw_list w" ev'] law ok reg List_Event unfolding env_law_def window_ok_def by auto
  with List_Event ok a show ?thesis by (simp add: window_ok_def displays_def)
qed

lemma window_new_ok: "window_ok (window_new x d)" "displays (window_new x d) ({#}, [])"
  by (simp_all add: window_ok_def window_new_def box_wf_def text_box_init_def capture_state_def untracked_def
      dynamic_list_new_def displays_def)

definition logged :: "('c, 'd) window_env \<Rightarrow> ('c :: {ord, plus, minus, times, uminus}, 'd :: {ord, plus, minus, zero}) window_event list \<Rightarrow>
    ('c, 'd) window \<Rightarrow> log_spec_state \<Rightarrow> ('c, 'd) window \<Rightarrow> bool" where
  "logged env evs w a w' \<longleftrightarrow> window_run env evs w = Some w' \<and>
     (\<exists>b. spec_run (log_spec (we_text env) (we_stack env)) evs a b \<and> displays w' b)"

lemma logged_Cons:
  assumes "window_step env ev w = Some w1" and "log_spec (we_text env) (we_stack env) ev a c" and "logged env evs w1 c w'"
  shows "logged env (ev # evs) w a w'"
  using assms unfolding logged_def by (metis bind.bind_lunit spec_run.simps(2) window_run.simps(2))

lemma window_run_ok:
  assumes law: "env_law env" and "window_ok w" and "displays w a" and "\<forall>ev \<in> set evs. regular ev"
  shows "(\<exists>w'. logged env evs w a w') \<or>
    (\<exists>before ev after w'. evs = before @ ev # after \<and> logged env before w a w' \<and> undefined_event env ev w')"
  using assms(2-4)
proof (induction evs arbitrary: w a)
  case Nil
  then show ?case by (auto simp: logged_def)
next
  case (Cons ev evs)
  show ?case
  proof (cases "undefined_event env ev w")
    case True
    moreover have "logged env [] w a w" using Cons.prems(2) by (auto simp: logged_def)
    ultimately show ?thesis by (metis append_Nil)
  next
    case False
    then obtain w1 c where one: "window_step env ev w = Some w1" "window_ok w1"
        "log_spec (we_text env) (we_stack env) ev a c" "displays w1 c"
      using window_step_ok [OF law Cons.prems(1,2), of ev] Cons.prems(3) by auto
    note Cons.IH [OF one(2,4)]
    with Cons.prems(3) show ?thesis
      using logged_Cons [OF one(1,3)] by (metis append_Cons list.set_intros(2))
  qed
qed

section \<open>The rows of the list\<close>

text \<open>The list has as many cells as there are rows, unless a change is still posted.\<close>

definition rows_ok :: "('c, 'd :: monoid_add) window_env \<Rightarrow> ('c, 'd) window \<Rightarrow> bool" where
  "rows_ok env w \<longleftrightarrow> list_ok (we_cells env) (gw_list w) \<and>
     (Resize_Rows \<in> set (gw_posts w) \<or> dl_count (gw_list w) = length (gw_rows w))"

text \<open>An allocation that fails between the change of the rows and its post.\<close>

definition punctual :: "('c, 'd) window_event \<Rightarrow> bool" where
  "punctual ev = (case ev of
     Session_Pid fault pid name \<Rightarrow> (\<forall>m. fault \<noteq> Late m) | Session_Close fault pid \<Rightarrow> (\<forall>m. fault \<noteq> Late m) | _ \<Rightarrow> True)"

lemma list_step_count:
  fixes l :: "('d :: linordered_ab_group_add) dynamic_list"
  assumes "list_step env ev l = Some l'" and "list_ok env l" and "\<And>n. ev \<noteq> L_Resize n"
  shows "dl_count l' = dl_count l"
  using assms list_ok_update [of env l]
  by (cases ev)
    (auto simp: list_step_def limits_def draw_def Let_def same_cells_def split: prod.splits if_splits
      dest!: event_same(1-4) intro: event_same(5-8) [unfolded same_cells_def, THEN conjunct2, THEN conjunct2])

lemma rows_ok_log [simp]: "rows_ok env (w\<lparr>gw_log := b\<rparr>) = rows_ok env w"
  by (simp add: rows_ok_def)

lemma rows_ok_refresh:
  "rows_ok env w \<Longrightarrow> (\<And>m. fault \<noteq> Late m) \<Longrightarrow> rows_ok env (refresh fault rows w)"
  by (cases fault) (auto simp: rows_ok_def refresh_def post_def report_failure_def)

lemma rows_ok_posted:
  fixes w :: "('c, 'd :: linordered_ab_group_add) window"
  assumes "rows_ok env w"
  shows "rows_ok env (run_posted i w)"
proof (cases "i < length (gw_posts w)")
  case True
  have "set (gw_posts w) = insert (gw_posts w ! i) (set (take i (gw_posts w) @ drop (Suc i) (gw_posts w)))"
    by (subst id_take_nth_drop [OF True]) simp
  then show ?thesis
    using assms True list_ok_step [of "we_cells env" "gw_list w" "L_Resize (length (gw_rows w))"]
    by (cases "gw_posts w ! i") (auto simp: rows_ok_def run_posted_def list_step_def resize_def request_update_def)
qed (use assms in \<open>simp add: run_posted_def\<close>)

lemma rows_ok_step:
  fixes w :: "('c :: {ord, plus, minus, times, uminus}, 'd :: linordered_ab_group_add) window"
  assumes "window_step env ev w = Some w'" and "rows_ok env w" and "regular ev" and "punctual ev"
  shows "rows_ok env w'"
proof (cases ev)
  case (Session_Connect fault stamp pid msg)
  with assms show ?thesis
    by (cases fault) (auto simp: session_connect_def report_failure_def post_def rows_ok_def split: if_splits)
next
  case (List_Event ev')
  then obtain l' where l: "list_step (we_cells env) ev' (gw_list w) = Some l'" "w' = w\<lparr>gw_list := l'\<rparr>"
    using assms(1) by auto
  with list_step_count [OF l(1)] list_ok_step [of "we_cells env" "gw_list w" ev' l'] assms(2,3) List_Event
  show ?thesis by (auto simp: rows_ok_def)
qed (use assms in \<open>auto simp: session_pid_def session_close_def punctual_def report_refusal_def clean_click_def guarded_def
       intro: rows_ok_refresh rows_ok_posted split: if_splits\<close>)

lemma rows_ok_run:
  fixes w :: "('c :: {ord, plus, minus, times, uminus}, 'd :: linordered_ab_group_add) window"
  shows "window_run env evs w = Some w' \<Longrightarrow> rows_ok env w \<Longrightarrow> \<forall>ev \<in> set evs. regular ev \<and> punctual ev \<Longrightarrow> rows_ok env w'"
  by (induction evs arbitrary: w) (auto simp: bind_eq_Some_conv dest: rows_ok_step)

lemma rows_ok_new: "rows_ok env (window_new x d)"
  by (simp add: rows_ok_def window_new_def list_ok_new) (simp add: dynamic_list_new_def)

section \<open>Properties\<close>

text \<open>C6: 
  The log shows what it is handed: whatever the user does short of Ctrl-Z, with sessions reporting and
  the view running what they posted in any order, the log box shows exactly the lines handed to it
  and run since it was last cleaned, each once, while the others are still pending. A report hands
  over its line, or, when an allocation fails on the way, the notice of that failure, or nothing when
  the notice fails as well; a panel hands over the line of its refusal. The run is defined to its end
  unless it meets a report with a forged address, or Up or Down in an empty log that the library lays
  out in no row, and up to that event the log is as said. (The rows of the process list are labels,
  which take neither the focus nor a click; of the library \<open>text_law\<close> and \<open>layout_law\<close>.)
\<close>

theorem window_shows_every_report:
  assumes "env_law env" and "\<forall>ev \<in> set evs. regular ev"
  shows "\<exists>before after w pending shown. evs = before @ after \<and> window_run env before (window_new x d) = Some w \<and>
    spec_run (log_spec (we_text env) (we_stack env)) before ({#}, []) (pending, shown) \<and>
    tb_text (gw_log w) = concat shown \<and> pending_lines (gw_posts w) = pending \<and>
    (after = [] \<or> undefined_event env (hd after) w)"
proof -
  have "\<exists>before after w. evs = before @ after \<and> logged env before (window_new x d) ({#}, []) w \<and>
      (after = [] \<or> undefined_event env (hd after) w)"
    using window_run_ok [OF assms(1) window_new_ok assms(2)] by (metis append_Nil2 list.sel(1))
  then show ?thesis unfolding logged_def displays_def by (metis prod.collapse)
qed

definition window_demo :: "(int, int) window_env" where
  "window_demo = \<lparr>we_lib = ascii_lib, we_ctx = one_row_ctx,
     we_cells = rows_env\<lparr>ce_wants_focus := (\<lambda>_. False), ce_accepts_click := (\<lambda>_. False)\<rparr>,
     we_text = (\<lambda>_. ''10.0.0.1''), we_stack = replicate 16 0\<rparr>"

definition demo_report :: InjecteeConnect where
  "demo_report = \<lparr>ic_handle = None, ic_addr = Some (from_asio (AddressV4 167772161) 80), ic_proxy = None, ic_syscall = Some ''connect''\<rparr>"

lemma window_demo_law: "env_law window_demo" "clip_law (we_cells window_demo)" "0 \<le> ce_main_axis_size (we_cells window_demo) i"
  using ascii_law one_row_law rows_env_law by (simp_all add: env_law_def window_demo_def plain_rows_def clip_law_def)

definition demo_session :: "(int, int) window_event list" where
  "demo_session = [Session_Pid No_Fault 7 ''app'', Session_Connect No_Fault ''12:00'' 7 demo_report,
     Clean False, Run_Posted 1, Refusal False ''[process]'' ''injected'']"

lemma demo_session_regular: "\<forall>ev \<in> set demo_session. regular ev"
  by (simp add: demo_session_def)

lemma demo_session_defined: "ev \<in> set demo_session \<Longrightarrow> \<not> undefined_event window_demo ev w"
proof -
  have "report_printable demo_report" by (simp add: demo_report_def report_printable_def from_asio_printable)
  then show "ev \<in> set demo_session \<Longrightarrow> \<not> undefined_event window_demo ev w"
    by (auto simp: demo_session_def undefined_event_def)
qed

lemma window_shows_every_report_witness:
  "\<exists>w pending shown. window_run window_demo demo_session (window_new 0 0) = Some w \<and>
     spec_run (log_spec (we_text window_demo) (we_stack window_demo)) demo_session ({#}, []) (pending, shown) \<and>
     tb_text (gw_log w) = concat shown \<and> pending_lines (gw_posts w) = pending"
proof -
  from window_shows_every_report [OF window_demo_law(1) demo_session_regular, of 0 0]
  obtain before after w pending shown where run: "demo_session = before @ after" "window_run window_demo before (window_new 0 0) = Some w"
    "spec_run (log_spec (we_text window_demo) (we_stack window_demo)) before ({#}, []) (pending, shown)"
    "tb_text (gw_log w) = concat shown" "pending_lines (gw_posts w) = pending" "after = [] \<or> undefined_event window_demo (hd after) w"
    by blast
  have "after = []"
  proof (rule ccontr)
    assume "after \<noteq> []"
    then have "hd after \<in> set demo_session" unfolding run(1) by simp
    with demo_session_defined run(6) \<open>after \<noteq> []\<close> show False by blast
  qed
  with run show ?thesis by auto
qed

text \<open>C7: 
  The process list draws its rows: in any run without Ctrl-Z, once no refresh is posted any more, and
  no allocation failed in between, what is drawn is exactly those of the rows, as the sessions left
  them, whose place meets the clip, in their order.
\<close>

theorem list_shows_the_sessions:
  fixes env :: "('c :: {ord, plus, minus, times, uminus}, 'd :: linordered_ab_group_add) window_env"
  assumes run: "window_run env evs (window_new x 0) = Some w" and evs: "\<forall>ev \<in> set evs. regular ev \<and> punctual ev"
    and idle: "Resize_Rows \<notin> set (gw_posts w)"
    and cells: "\<And>i. 0 \<le> ce_main_axis_size (we_cells env) i" "clip_law (we_cells env)" "ce_intersects (we_cells env) b clip"
  shows "fst (draw (we_cells env) b clip (gw_list w)) =
    filter (\<lambda>i. ce_intersects (we_cells env) clip (row_bounds (we_cells env) b i)) [0..<length (gw_rows w)]"
proof -
  have "rows_ok env w" using rows_ok_run [OF run rows_ok_new evs] .
  with idle have "list_ok (we_cells env) (gw_list w)" "dl_count (gw_list w) = length (gw_rows w)" by (simp_all add: rows_ok_def)
  with draw_visible [OF this(1) cells] show ?thesis by simp
qed

lemma list_shows_the_sessions_witness:
  "\<exists>w. window_run window_demo [Session_Pid No_Fault 7 ''app'', Session_Pid No_Fault 3 ''sh'', Run_Posted 0, Run_Posted 0]
      (window_new 0 0) = Some w \<and> gw_rows w = [(3, ''sh''), (7, ''app'')] \<and>
     fst (draw (we_cells window_demo) (box_at 0 40) (box_at 0 10) (gw_list w)) = [0]"
proof -
  obtain w where w: "window_run window_demo [Session_Pid No_Fault 7 ''app'', Session_Pid No_Fault 3 ''sh'', Run_Posted 0, Run_Posted 0]
      (window_new 0 0) = Some w" "gw_rows w = [(3, ''sh''), (7, ''app'')]" "gw_posts w = []"
    by (simp add: session_pid_def refresh_def post_def window_new_def run_posted_def gui_process_pid_def)
  have "ce_intersects (we_cells window_demo) (box_at 0 40) (box_at 0 10)" by code_simp
  from list_shows_the_sessions [OF w(1) _ _ window_demo_law(3,2) this]
  have "fst (draw (we_cells window_demo) (box_at 0 40) (box_at 0 10) (gw_list w)) =
      filter (\<lambda>i. ce_intersects (we_cells window_demo) (box_at 0 10) (row_bounds (we_cells window_demo) (box_at 0 40) i)) [0..<length (gw_rows w)]"
    by (simp add: punctual_def w(3))
  also have "\<dots> = [0]" unfolding w(2) by code_simp
  finally show ?thesis using w by blast
qed

text \<open>The menu offers what the click handles: each option is one of \<open>click_targets\<close> and has its hint.\<close>

lemma menu_options_handled:
  "known_option option \<longleftrightarrow> option \<in> set input_tip_options"
  "option \<in> set input_tip_options \<Longrightarrow> selector_hint option = Inr (input_tip_text option) \<and> input_tip_text option \<noteq> []"
  by (auto simp: known_option_def input_tip_options_def input_tips_def selector_hint_def input_tip_text_def)

text \<open>
  An allocation that fails behind the change of the rows leaves the list at its old length for good:
  the row of the new session is not shown until another one comes or goes.
\<close>

lemma late_fault_hides_row:
  "map_option (\<lambda>w. (length (gw_rows w), dl_count (gw_list w), gw_posts w))
     (window_run window_demo [Session_Pid (Late False) 7 ''app'', Run_Posted 0] (window_new 0 0)) = Some (1, 0, [])"
  by (simp add: session_pid_def refresh_def report_failure_def post_def window_new_def run_posted_def gui_process_pid_def
      dynamic_list_new_def)

end
