(* ===== verification/Tooltip.thy ===== *)
theory Tooltip
  imports Dynamic_List
begin

text \<open>
  src/injector/ui_elements/tooltip.cpp: the tip under a button as a state machine. Hovering posts a
  delayed opening, leaving posts a check; the view runs what was posted in any order, and reports
  the cursor to the popup while it is open. What the popup is told (\<open>open\<close>, \<open>close\<close>) and the calls
  of \<open>on_hover\<close> are kept in the state.
\<close>

section \<open>State\<close>

datatype tip_status = tip_hidden | tip_delayed | tip_visible

datatype tip_post = Open_Later | Check_Left

record tooltip =
  tt_status :: tip_status
  tt_in_tip :: bool
  tt_posted :: "tip_post list"
  tt_popup_open :: bool
  tt_hover_calls :: "bool list"

definition tooltip_new :: tooltip where
  "tooltip_new = \<lparr>tt_status = tip_hidden, tt_in_tip = False, tt_posted = [], tt_popup_open = False, tt_hover_calls = []\<rparr>"

section \<open>Handlers\<close>

definition close_tip :: "tooltip \<Rightarrow> tooltip" where
  "close_tip t =
     (if tt_status t \<noteq> tip_hidden then
        (let t1 = (if tt_status t = tip_visible
                   then t\<lparr>tt_hover_calls := tt_hover_calls t @ [False], tt_popup_open := False\<rparr> else t)
         in t1\<lparr>tt_status := tip_hidden, tt_in_tip := False\<rparr>)
      else t)"

definition tip_cursor :: "bool \<Rightarrow> tooltip \<Rightarrow> tooltip" where
  "tip_cursor leaving t =
     (if \<not> leaving then
        (if tt_status t \<noteq> tip_visible
         then t\<lparr>tt_status := tip_delayed, tt_posted := tt_posted t @ [Open_Later]\<rparr> else t)
      else t\<lparr>tt_posted := tt_posted t @ [Check_Left]\<rparr>)"

definition run_post :: "tip_post \<Rightarrow> tooltip \<Rightarrow> tooltip" where
  "run_post p t =
     (case p of
        Open_Later \<Rightarrow>
          if tt_status t = tip_delayed
          then t\<lparr>tt_hover_calls := tt_hover_calls t @ [True], tt_status := tip_visible, tt_popup_open := True\<rparr> else t
      | Check_Left \<Rightarrow> if \<not> tt_in_tip t then close_tip t else t)"

text \<open>The popup's \<open>on_cursor\<close>; \<open>over_button\<close> says whether the point is in the button's bounds.\<close>

definition popup_cursor :: "bool \<Rightarrow> bool \<Rightarrow> tooltip \<Rightarrow> tooltip" where
  "popup_cursor leaving over_button t =
     (let t1 = t\<lparr>tt_in_tip := \<not> leaving\<rparr> in if leaving \<and> \<not> over_button then close_tip t1 else t1)"

text \<open>A key the button does not take itself.\<close>

definition tip_key :: "bool \<Rightarrow> bool \<Rightarrow> tooltip \<Rightarrow> tooltip" where
  "tip_key taken escape t = (if \<not> taken \<and> escape then close_tip t else t)"

section \<open>Steps\<close>

inductive tip_step :: "tooltip \<Rightarrow> tooltip \<Rightarrow> bool" where
  hover: "tip_step t (tip_cursor leaving t)"
| posted: "tt_posted t = before @ p # after \<Longrightarrow> tip_step t (run_post p (t\<lparr>tt_posted := before @ after\<rparr>))"
| in_popup: "tt_popup_open t \<Longrightarrow> tip_step t (popup_cursor leaving over_button t)"
| key: "tip_step t (tip_key taken escape t)"

inductive_cases tip_stepE: "tip_step t t'"

text \<open>\<open>on_hover\<close> was called with true, false, true, ... as far as it was called.\<close>

fun alternates :: "bool \<Rightarrow> bool list \<Rightarrow> bool" where
  "alternates b [] = True"
| "alternates b (x # xs) = (x = b \<and> alternates (\<not> b) xs)"

lemma alternates_snoc: "alternates b (xs @ [x]) \<longleftrightarrow> alternates b xs \<and> x = (if even (length xs) then b else \<not> b)"
  by (induction xs arbitrary: b) auto

definition tip_ok :: "tooltip \<Rightarrow> bool" where
  "tip_ok t \<longleftrightarrow> tt_popup_open t = (tt_status t = tip_visible) \<and> (tt_in_tip t \<longrightarrow> tt_popup_open t) \<and>
     alternates True (tt_hover_calls t) \<and> odd (length (tt_hover_calls t)) = tt_popup_open t"

lemma tip_ok_close: "tip_ok t \<Longrightarrow> tip_ok (close_tip t) \<and> \<not> tt_popup_open (close_tip t)"
  by (auto simp: tip_ok_def close_tip_def Let_def alternates_snoc)

lemma tip_ok_posted [simp]: "tip_ok (t\<lparr>tt_posted := ps\<rparr>) = tip_ok t"
  by (simp add: tip_ok_def)

lemma tip_ok_step: "tip_step t t' \<Longrightarrow> tip_ok t \<Longrightarrow> tip_ok t'"
proof (induction rule: tip_step.induct)
  case (hover t leaving)
  then show ?case by (auto simp: tip_cursor_def tip_ok_def)
next
  case (posted t before p after)
  then have "tip_ok (t\<lparr>tt_posted := before @ after\<rparr>)" by simp
  with tip_ok_close [OF this] show ?case
    by (cases p) (auto simp: run_post_def tip_ok_def alternates_snoc)
next
  case (in_popup t leaving over_button)
  then have "tip_ok (t\<lparr>tt_in_tip := \<not> leaving\<rparr>)" by (simp add: tip_ok_def)
  with tip_ok_close [OF this] show ?case by (cases leaving) (auto simp: popup_cursor_def Let_def)
next
  case (key t taken escape)
  then show ?case using tip_ok_close by (simp add: tip_key_def)
qed

lemma tip_ok_reach: "tip_step\<^sup>*\<^sup>* tooltip_new t \<Longrightarrow> tip_ok t"
proof (induction rule: rtranclp_induct)
  case base
  show ?case by (simp add: tip_ok_def tooltip_new_def)
qed (rule tip_ok_step)

text \<open>
  In every order of hovering, leaving, delays and keys the popup is open exactly while the status is
  visible, \<open>on_hover\<close> is called alternately with true and false, and the check posted by leaving
  the button, when it runs with the cursor outside the tip, leaves the tip closed.
\<close>

theorem tip_open_iff_visible:
  assumes "tip_step\<^sup>*\<^sup>* tooltip_new t"
  shows "tt_popup_open t = (tt_status t = tip_visible) \<and> alternates True (tt_hover_calls t) \<and>
    (\<not> tt_in_tip t \<longrightarrow> \<not> tt_popup_open (run_post Check_Left t))"
  using tip_ok_reach [OF assms] tip_ok_close by (auto simp: tip_ok_def run_post_def)

lemma tip_open_iff_visible_witness:
  "tt_popup_open (run_post Open_Later (tooltip_new\<lparr>tt_status := tip_delayed\<rparr>)) \<and>
   alternates True (tt_hover_calls (run_post Open_Later (tooltip_new\<lparr>tt_status := tip_delayed\<rparr>)))"
proof -
  have "tip_step tooltip_new (tip_cursor False tooltip_new)" by (rule tip_step.hover)
  moreover have "tip_step (tip_cursor False tooltip_new) (run_post Open_Later (tooltip_new\<lparr>tt_status := tip_delayed\<rparr>))"
    using tip_step.posted [of "tip_cursor False tooltip_new" "[]" Open_Later "[]"]
    by (simp add: tip_cursor_def tooltip_new_def)
  ultimately have "tip_step\<^sup>*\<^sup>* tooltip_new (run_post Open_Later (tooltip_new\<lparr>tt_status := tip_delayed\<rparr>))"
    by (meson converse_rtranclp_into_rtranclp r_into_rtranclp)
  from tip_open_iff_visible [OF this] show ?thesis by (simp add: run_post_def)
qed

text \<open>
  A posted opening is not withdrawn when the tip closes: one left over from an earlier hover opens
  the tip of a later one at once, before its own delay is over.
\<close>

lemma stale_opening_skips_delay:
  "let t1 = tip_cursor False tooltip_new;
       t2 = run_post Check_Left ((tip_cursor True t1)\<lparr>tt_posted := [Open_Later]\<rparr>);
       t3 = tip_cursor False t2
   in tt_status t2 = tip_hidden \<and> tt_posted t3 = [Open_Later, Open_Later] \<and>
      tt_popup_open (run_post Open_Later (t3\<lparr>tt_posted := [Open_Later]\<rparr>))"
  by (simp add: tip_cursor_def tooltip_new_def run_post_def close_tip_def Let_def)

section \<open>Where the tip goes\<close>

text \<open>\<open>move_to\<close> is the library's \<open>rect::move_to\<close>; \<open>size\<close> is the smallest extent of the tip.\<close>

definition tip_location :: "('d rect \<Rightarrow> 'd \<Rightarrow> 'd \<Rightarrow> 'd rect) \<Rightarrow> 'd rect \<Rightarrow> 'd rect \<Rightarrow> 'd rect" where
  "tip_location move_to wh ctx = move_to wh (re_left ctx) (re_bottom ctx)"

text \<open>\<open>make_tip_below_r\<close> of injector_gui.hpp puts another one in its place.\<close>

definition tip_location_r :: "('d rect \<Rightarrow> 'd \<Rightarrow> 'd \<Rightarrow> 'd rect) \<Rightarrow> 'd rect \<Rightarrow> ('d :: minus) rect \<Rightarrow> 'd rect" where
  "tip_location_r move_to wh ctx = move_to wh (re_right ctx - re_right wh) (re_bottom ctx)"

definition tip_bounds :: "('d rect \<Rightarrow> 'd rect \<Rightarrow> 'd rect) \<Rightarrow> 'd \<times> 'd \<Rightarrow> ('d :: zero) rect \<Rightarrow> 'd rect" where
  "tip_bounds location extent ctx = location \<lparr>re_left = 0, re_top = 0, re_right = fst extent, re_bottom = snd extent\<rparr> ctx"

text \<open>A moved rectangle has its corner at the place and keeps its extent.\<close>

definition move_law :: "(int rect \<Rightarrow> int \<Rightarrow> int \<Rightarrow> int rect) \<Rightarrow> bool" where
  "move_law move_to \<longleftrightarrow> (\<forall>r x y. re_left (move_to r x y) = x \<and> re_top (move_to r x y) = y \<and>
     re_right (move_to r x y) - x = re_right r - re_left r \<and> re_bottom (move_to r x y) - y = re_bottom r - re_top r)"

text \<open>Both tips hang below their button, the one flush with its left edge, the other with its right.\<close>

lemma tip_hangs_below:
  assumes "move_law move_to"
  shows "re_top (tip_bounds (tip_location move_to) extent ctx) = re_bottom ctx \<and>
      re_left (tip_bounds (tip_location move_to) extent ctx) = re_left ctx"
    and "re_top (tip_bounds (tip_location_r move_to) extent ctx) = re_bottom ctx \<and>
      re_right (tip_bounds (tip_location_r move_to) extent ctx) = re_right ctx"
proof -
  have "re_right (move_to r x y) = x + (re_right r - re_left r)" for r x y
    using assms unfolding move_law_def by (metis add.commute diff_add_cancel)
  moreover have "re_left (move_to r x y) = x" "re_top (move_to r x y) = y" for r x y
    using assms unfolding move_law_def by blast+
  ultimately show "re_top (tip_bounds (tip_location move_to) extent ctx) = re_bottom ctx \<and>
      re_left (tip_bounds (tip_location move_to) extent ctx) = re_left ctx"
    "re_top (tip_bounds (tip_location_r move_to) extent ctx) = re_bottom ctx \<and>
      re_right (tip_bounds (tip_location_r move_to) extent ctx) = re_right ctx"
    by (simp_all add: tip_bounds_def tip_location_def tip_location_r_def)
qed

end
