(* ===== verification/Scope_Bind.thy ===== *)
theory Scope_Bind
  imports Prelude
begin

text \<open>
  \<open>scope_ptr_bind\<close> and \<open>load_scope\<close> (src/common/winraii.hpp) as \<open>do_client\<close> (src/injectee/injectee.cpp)
  and the detours use them: the client thread makes three objects and binds a global to each, and
  the victim's threads load the globals at any moment. A store or a load is one step (each is one
  atomic access, release and acquire). What a load saw is kept, because a detour goes on using it.
\<close>

section \<open>State\<close>

datatype slot = Slot_Queue | Slot_Config | Slot_Map

text \<open>An object is named by the slot it is made for.\<close>

record scopes =
  sc_slot :: "slot \<Rightarrow> slot option"
  sc_alive :: "slot set"

definition scopes_init :: scopes where
  "scopes_init = \<lparr>sc_slot = (\<lambda>_. None), sc_alive = {}\<rparr>"

definition scope_ptr_bind :: "slot \<Rightarrow> slot \<Rightarrow> scopes \<Rightarrow> scopes" where
  "scope_ptr_bind ptr bind s = s\<lparr>sc_slot := (sc_slot s)(ptr := Some bind)\<rparr>"

definition scope_ptr_unbind :: "slot \<Rightarrow> scopes \<Rightarrow> scopes" where
  "scope_ptr_unbind ptr s = s\<lparr>sc_slot := (sc_slot s)(ptr := None)\<rparr>"

definition load_scope :: "slot \<Rightarrow> scopes \<Rightarrow> slot option" where
  "load_scope ptr s = sc_slot s ptr"

section \<open>The client thread\<close>

datatype scope_action = Make slot | Bind slot | Unbind slot | Free slot

fun scope_act :: "scope_action \<Rightarrow> scopes \<Rightarrow> scopes" where
  "scope_act (Make obj) s = s\<lparr>sc_alive := insert obj (sc_alive s)\<rparr>"
| "scope_act (Bind obj) s = scope_ptr_bind obj obj s"
| "scope_act (Unbind obj) s = scope_ptr_unbind obj s"
| "scope_act (Free obj) s = s\<lparr>sc_alive := sc_alive s - {obj}\<rparr>"

text \<open>\<open>do_client\<close> up to the client's construction; after it the thread parks.\<close>

definition client_binds :: "scope_action list" where
  "client_binds = [Make Slot_Queue, Make Slot_Config, Make Slot_Map, Bind Slot_Queue, Bind Slot_Config, Bind Slot_Map]"

text \<open>What unwinding would run instead of the park: the destructors in reverse order.\<close>

definition client_unwind :: "scope_action list" where
  "client_unwind = [Unbind Slot_Map, Unbind Slot_Config, Unbind Slot_Queue, Free Slot_Map, Free Slot_Config, Free Slot_Queue]"

section \<open>Interleaving with the detours\<close>

type_synonym loads = "(nat \<times> slot \<times> slot option) list"

text \<open>The scopes, what the client thread has left to do, and the loads so far with the thread of each.\<close>

type_synonym scope_config = "(scopes \<times> scope_action list) \<times> loads"

inductive scope_step :: "scope_config \<Rightarrow> scope_config \<Rightarrow> bool" where
  client: "scope_step ((s, a # as), seen) ((scope_act a s, as), seen)"
| detour: "scope_step ((s, as), seen) ((s, as), seen @ [(t, ptr, load_scope ptr s)])"

inductive_cases scope_stepE: "scope_step ((s, as), seen) c"

abbreviation scope_reach :: "scope_action list \<Rightarrow> scope_config \<Rightarrow> bool" where
  "scope_reach program \<equiv> scope_step\<^sup>*\<^sup>* ((scopes_init, program), [])"

section \<open>While the client parks\<close>

definition bound :: "scopes \<Rightarrow> slot set" where
  "bound s = {p. sc_slot s p \<noteq> None}"

text \<open>
  Every slot holds its own living object, what is left to do neither unbinds nor frees, makes an
  object before it binds it and binds the queue before the configuration.
\<close>

fun program_ok :: "slot set \<Rightarrow> slot set \<Rightarrow> scope_action list \<Rightarrow> bool" where
  "program_ok alive bd [] = True"
| "program_ok alive bd (Make p # as) = program_ok (insert p alive) bd as"
| "program_ok alive bd (Bind p # as) =
     (p \<in> alive \<and> (p = Slot_Config \<longrightarrow> Slot_Queue \<in> bd) \<and> program_ok alive (insert p bd) as)"
| "program_ok alive bd (a # as) = False"

text \<open>A load of the queue behind a load that saw the configuration saw the queue.\<close>

definition ordered :: "loads \<Rightarrow> bool" where
  "ordered seen \<longleftrightarrow>
     (\<forall>i j t u p q. i < j \<longrightarrow> j < length seen \<longrightarrow> seen ! i = (t, Slot_Config, Some p) \<longrightarrow> seen ! j = (u, Slot_Queue, q) \<longrightarrow> q \<noteq> None)"

definition scopes_ok :: "scope_config \<Rightarrow> bool" where
  "scopes_ok c \<longleftrightarrow> (case c of ((s, as), seen) \<Rightarrow>
     (\<forall>p obj. sc_slot s p = Some obj \<longrightarrow> obj = p \<and> p \<in> sc_alive s) \<and>
     (Slot_Config \<in> bound s \<longrightarrow> Slot_Queue \<in> bound s) \<and> program_ok (sc_alive s) (bound s) as \<and>
     (\<forall>t p obj. (t, p, Some obj) \<in> set seen \<longrightarrow> sc_slot s p = Some obj) \<and> ordered seen)"

lemma ordered_snoc:
  assumes "ordered seen" and "\<And>t p. (t, Slot_Config, Some p) \<in> set seen \<Longrightarrow> ptr = Slot_Queue \<Longrightarrow> v \<noteq> None"
  shows "ordered (seen @ [(u, ptr, v)])"
  unfolding ordered_def
proof (intro allI impI)
  fix i j t u' p q
  assume h: "i < j" "j < length (seen @ [(u, ptr, v)])" "(seen @ [(u, ptr, v)]) ! i = (t, Slot_Config, Some p)"
    "(seen @ [(u, ptr, v)]) ! j = (u', Slot_Queue, q)"
  show "q \<noteq> None"
  proof (cases "j < length seen")
    case True
    then have "seen ! i = (t, Slot_Config, Some p)" "seen ! j = (u', Slot_Queue, q)" using h by (simp_all add: nth_append)
    then show ?thesis using assms(1) h(1) True unfolding ordered_def by blast
  next
    case False
    then have "j = length seen" "ptr = Slot_Queue" "v = q" "seen ! i = (t, Slot_Config, Some p)" using h by (auto simp: nth_append)
    then show ?thesis using assms(2) h(1) nth_mem [of i seen] by metis
  qed
qed

lemma bound_act [simp]:
  "bound (s\<lparr>sc_alive := A\<rparr>) = bound s" "bound (scope_ptr_bind p obj s) = insert p (bound s)"
  by (auto simp: bound_def scope_ptr_bind_def)

lemma scopes_ok_step: "scope_step c c' \<Longrightarrow> scopes_ok c \<Longrightarrow> scopes_ok c'"
proof (induction rule: scope_step.induct)
  case (client s a as seen)
  show ?case
  proof (cases a)
    case (Make p)
    with client show ?thesis by (fastforce simp: scopes_ok_def)
  next
    case (Bind p)
    have own: "obj = q \<and> q \<in> sc_alive s" if "sc_slot s q = Some obj" for q obj
      using client that by (simp add: scopes_ok_def)
    have seen: "sc_slot s q = Some obj" if "(t, q, Some obj) \<in> set seen" for t q obj
      using client that by (simp add: scopes_ok_def)
    have rest: "p \<in> sc_alive s" "p = Slot_Config \<longrightarrow> Slot_Queue \<in> bound s"
        "program_ok (sc_alive s) (insert p (bound s)) as" "ordered seen" "Slot_Config \<in> bound s \<longrightarrow> Slot_Queue \<in> bound s"
      using client Bind by (simp_all add: scopes_ok_def)
    have slots: "sc_slot (scope_ptr_bind p p s) q = (if q = p then Some p else sc_slot s q)"
        "sc_alive (scope_ptr_bind p p s) = sc_alive s" for q
      by (simp_all add: scope_ptr_bind_def)
    show ?thesis
      unfolding scopes_ok_def Bind using own seen rest by (auto simp: slots dest: own [OF seen])
  qed (use client in \<open>simp_all add: scopes_ok_def\<close>)
next
  case (detour s as seen t ptr)
  then have "ordered (seen @ [(t, ptr, load_scope ptr s)])"
    by (intro ordered_snoc) (auto simp: scopes_ok_def load_scope_def bound_def)
  with detour show ?case by (auto simp: scopes_ok_def load_scope_def)
qed

lemma scopes_ok_init: "scopes_ok ((scopes_init, client_binds), [])"
  by (simp add: scopes_ok_def scopes_init_def client_binds_def bound_def ordered_def)

lemma scopes_ok_reach: "scope_reach client_binds c \<Longrightarrow> scopes_ok c"
  by (induction rule: rtranclp_induct) (auto simp: scopes_ok_init intro: scopes_ok_step)

text \<open>C24: 
  With a client thread that parks, a pointer a detour has loaded stays good: in every interleaving
  each object that any load saw is still alive and still what its global holds, and a thread that
  finds the configuration finds the report queue in every later load.
\<close>

theorem loaded_pointers_stay_good:
  assumes "scope_reach client_binds ((s, as), seen)"
  shows "(\<forall>t p obj. (t, p, Some obj) \<in> set seen \<longrightarrow> obj \<in> sc_alive s \<and> load_scope p s = Some obj) \<and> ordered seen"
proof -
  have "sc_slot s p = Some obj \<and> obj \<in> sc_alive s" if "(t, p, Some obj) \<in> set seen" for t p obj
    using scopes_ok_reach [OF assms] that unfolding scopes_ok_def by fastforce
  then show ?thesis using scopes_ok_reach [OF assms] by (auto simp: scopes_ok_def load_scope_def)
qed

text \<open>The whole client program with a load in between, for examples.\<close>

lemma reach_client:
  "scope_reach program ((s, as @ bs), seen) \<Longrightarrow> scope_reach program ((fold scope_act as s, bs), seen)"
proof (induction as arbitrary: s)
  case (Cons a as)
  have "scope_reach program ((scope_act a s, as @ bs), seen)"
    using Cons.prems scope_step.client [of s a "as @ bs" seen] by (auto intro: rtranclp.rtrancl_into_rtrancl)
  from Cons.IH [OF this] show ?case by simp
qed simp

lemma reach_load:
  "scope_reach program ((s, as), seen) \<Longrightarrow> scope_reach program ((s, as), seen @ [(t, ptr, load_scope ptr s)])"
  by (auto intro: rtranclp.rtrancl_into_rtrancl scope_step.detour)

lemma loaded_pointers_stay_good_witness:
  "\<exists>s. Slot_Config \<in> sc_alive s \<and> load_scope Slot_Config s = Some Slot_Config"
proof -
  let ?s = "fold scope_act (take 5 client_binds) scopes_init"
  have "scope_reach client_binds ((?s, drop 5 client_binds), [])"
    by (rule reach_client) simp
  then have "scope_reach client_binds ((?s, drop 5 client_binds), [(1, Slot_Config, Some Slot_Config)])"
    using reach_load [of client_binds ?s "drop 5 client_binds" "[]" 1 Slot_Config]
    by (simp add: client_binds_def load_scope_def scope_ptr_bind_def)
  from loaded_pointers_stay_good [OF this] show ?thesis by auto
qed

text \<open>
  The configuration is bound before the map of non-blocking modes, so a connect in between is proxied
  while what it looks up and what the victim sets of its sockets is not recorded yet.
\<close>

lemma map_is_bound_last:
  "\<exists>s. scope_reach client_binds ((s, [Bind Slot_Map]), [(1, Slot_Config, Some Slot_Config), (1, Slot_Map, None)])"
proof -
  let ?s = "fold scope_act (take 5 client_binds) scopes_init"
  have "scope_reach client_binds ((?s, drop 5 client_binds), [])"
    by (rule reach_client) simp
  from reach_load [OF reach_load [OF this, of 1 Slot_Config], of 1 Slot_Map] show ?thesis
    by (intro exI [of _ ?s]) (simp add: client_binds_def load_scope_def scope_ptr_bind_def scopes_init_def)
qed

text \<open>
  Unwinding instead of parking, with the globals nulled before the objects are freed, does not close
  the window: a pointer loaded before is dead while the detour still holds it.
\<close>

lemma unwinding_kills_loaded_pointer:
  "\<exists>s. scope_reach (client_binds @ client_unwind) ((s, []), [(1, Slot_Config, Some Slot_Config)]) \<and> Slot_Config \<notin> sc_alive s"
proof -
  let ?p = "client_binds @ client_unwind" and ?s = "fold scope_act client_binds scopes_init"
  have "scope_reach ?p ((?s, client_unwind), [])"
    by (rule reach_client) simp
  from reach_load [OF this, of 1 Slot_Config]
  have "scope_reach ?p ((?s, client_unwind), [(1, Slot_Config, Some Slot_Config)])"
    by (simp add: client_binds_def load_scope_def scope_ptr_bind_def)
  then have "scope_reach ?p ((fold scope_act client_unwind ?s, []), [(1, Slot_Config, Some Slot_Config)])"
    using reach_client [of ?p ?s client_unwind "[]"] by simp
  then show ?thesis by (intro exI conjI) (auto simp: client_unwind_def scope_ptr_unbind_def)
qed

end
