(* ===== verification/Server_Threads.thy ===== *)
theory Server_Threads
  imports Server
begin

text \<open>
  src/injector/server.hpp under two threads. The handlers of Server run as one step there; the code
  runs them on the io thread and on the front end's thread, and only single operations on the
  client table, the kept record, the token records, a session's atomic flag and the configuration
  are locked. Here every call is the sequence of those operations, a \<open>task\<close> each, and a schedule
  runs one task of one thread at a time, for any number of threads. Nothing here is said of the order
  of the bytes on a socket, which the io thread alone writes.
\<close>

section \<open>Locked regions\<close>

text \<open>
  Injection: \<open>Check\<close> the port and the table, \<open>Publish\<close>, \<open>Load\<close>, \<open>Rollback\<close> or \<open>Unkeep\<close>; the flag
  says that the call answers a subprocess report, with \<open>Reply\<close>. Hello: \<open>Match\<close> the token, \<open>Insert\<close>,
  \<open>Drop_Kept\<close>, \<open>Store_Opened\<close>, \<open>Get_Config\<close>, \<open>Send_Config\<close>. Ending: \<open>Find\<close> (close only), \<open>Exchange\<close>,
  \<open>Remove\<close> (reads \<open>pid_\<close>, then the kept record), \<open>Forget\<close>, \<open>Erase\<close>, \<open>Hook\<close>. \<open>Whole\<close> is a command that
  holds one lock throughout.
\<close>

datatype task =
    Check injection_env DWORD bool
  | Publish injection_env DWORD bool
  | Load injection_env DWORD bool bool "u8 list"
  | Rollback DWORD bool "u8 list"
  | Unkeep DWORD bool bool
  | Reply DWORD inject_verdict
  | Match "(injection_env \<times> DWORD) list" nat DWORD "u8 list option"
  | Insert "(injection_env \<times> DWORD) list" nat DWORD
  | Drop_Kept DWORD
  | Store_Opened nat bool
  | Get_Config "(injection_env \<times> DWORD) list" nat
  | Send_Config nat InjectorConfig
  | Find DWORD
  | Exchange nat session_end
  | Remove nat session_end
  | Forget DWORD
  | Erase DWORD
  | Hook
  | Whole server_cmd

definition inject_answer :: "bool \<Rightarrow> DWORD \<Rightarrow> inject_verdict \<Rightarrow> task list" where
  "inject_answer reply pid v = (if reply then [Reply pid v] else [])"

text \<open>The part of \<open>injector::inject\<close> up to and including \<open>publish\<close>.\<close>

definition publish_region :: "injection_env \<Rightarrow> DWORD \<Rightarrow> u16 \<Rightarrow> bootstrap_store \<Rightarrow> u8 list option \<times> bootstrap_store" where
  "publish_region env pid port b =
     (if ie_opened env \<and> ie_wow64 env \<noteq> None \<and> ie_injectee_found env
      then publish (ie_draw env) (ie_mapped env) (ie_viewed env) pid port b else (None, b))"

definition removal :: "DWORD \<Rightarrow> session_end \<Rightarrow> injector_server \<Rightarrow> task list \<times> injector_server" where
  "removal pid end sv =
     (case end of
        retired \<Rightarrow> ([Forget pid, Erase pid, Hook], sv\<lparr>sv_kept := kept_drop pid (sv_kept sv)\<rparr>)
      | lost \<Rightarrow>
          (case kept_keep pid (sv_kept sv) of
             (None, kept) \<Rightarrow> ([Erase pid, Hook], sv\<lparr>sv_kept := kept\<rparr>)
           | (Some stale, kept) \<Rightarrow> ([Forget stale, Erase pid, Hook], sv\<lparr>sv_kept := kept\<rparr>)))"

text \<open>One region: what its thread does next, and the shared state after it.\<close>

fun task_step :: "task \<Rightarrow> injector_server \<Rightarrow> task list \<times> injector_server" where
  "task_step (Check env pid reply) sv =
     (if sv_port sv = no_port then (inject_answer reply pid not_started, sv)
      else if clients_contains pid (sv_clients sv) then (inject_answer reply pid already_registered, sv)
      else ([Publish env pid reply], sv))"
| "task_step (Publish env pid reply) sv =
     (case publish_region env pid (sv_port sv) (sv_store sv) of
        (None, b) \<Rightarrow> (inject_answer reply pid failed, sv\<lparr>sv_store := b\<rparr>)
      | (Some token, b) \<Rightarrow> ([Load env pid reply (ie_resident env) token], sv\<lparr>sv_store := b\<rparr>))"
| "task_step (Load env pid reply resident token) sv =
     (case fst (load_into pid token (ie_load env) resident (sv_store sv)) of
        (ok, already) \<Rightarrow> (if ok then [Unkeep pid reply already] else [Rollback pid reply token], sv))"
| "task_step (Rollback pid reply token) sv =
     (inject_answer reply pid failed, sv\<lparr>sv_store := snd (forget_bootstrap pid token (sv_store sv))\<rparr>)"
| "task_step (Unkeep pid reply already) sv =
     (inject_answer reply pid (if already then already_encapsulated else attached), sv\<lparr>sv_kept := kept_drop pid (sv_kept sv)\<rparr>)"
| "task_step (Reply pid v) sv = ([], sv\<lparr>sv_subpids := sv_subpids sv @ [(ucast pid, verdict_ok v)]\<rparr>)"
| "task_step (Match children sid pid token) sv =
     (if token_matches pid token (sv_store sv) then ([Insert children sid pid], sv) else ([Exchange sid lost], sv))"
| "task_step (Insert children sid pid) sv =
     (let sv1 = put_session sid ((sv_sessions sv sid)\<lparr>se_pid := pid\<rparr>) sv in
      case clients_insert pid sid (sv_clients sv1) of
        (False, _) \<Rightarrow> ([Store_Opened sid False, Get_Config children sid], sv1)
      | (True, cs) \<Rightarrow> ([Drop_Kept pid, Store_Opened sid True, Get_Config children sid], sv1\<lparr>sv_clients := cs\<rparr>))"
| "task_step (Drop_Kept pid) sv = ([], sv\<lparr>sv_kept := kept_drop pid (sv_kept sv)\<rparr>)"
| "task_step (Store_Opened sid ok) sv = ([], put_session sid ((sv_sessions sv sid)\<lparr>se_opened := ok\<rparr>) sv)"
| "task_step (Get_Config children sid) sv =
     ((if cf_subprocess (sv_config sv) = Some True then map (\<lambda>(env, child). Check env child False) children else [])
        @ [Send_Config sid (sv_config sv)], sv)"
| "task_step (Send_Config sid cfg) sv = ([], send_config sid cfg sv)"
| "task_step (Find pid) sv =
     (case clients_find pid (sv_clients sv) of None \<Rightarrow> ([], sv) | Some sid \<Rightarrow> ([Exchange sid retired], sv))"
| "task_step (Exchange sid end) sv =
     (if se_opened (sv_sessions sv sid) then [Remove sid end] else [],
      put_session sid ((sv_sessions sv sid)\<lparr>se_connected := False, se_opened := False\<rparr>) sv)"
| "task_step (Remove sid end) sv = removal (se_pid (sv_sessions sv sid)) end sv"
| "task_step (Forget pid) sv = ([], sv\<lparr>sv_store := forget_token pid (sv_store sv)\<rparr>)"
| "task_step (Erase pid) sv = ([], sv\<lparr>sv_clients := snd (clients_erase pid (sv_clients sv))\<rparr>)"
| "task_step Hook sv = ([], process_close sv)"
| "task_step (Whole c) sv = ([], server_step c sv)"

text \<open>The tasks a command of Server starts with.\<close>

fun calls :: "server_cmd \<Rightarrow> task list" where
  "calls (Inject env pid) = [Check env pid False]"
| "calls (Message children env sid msg) =
     (case compare_message_pid msg of
        Some pid \<Rightarrow> [Match children sid pid (im_token msg)]
      | None \<Rightarrow>
          (case compare_message_connect msg of
             Some _ \<Rightarrow> []
           | None \<Rightarrow> (case compare_message_subpid msg of Some pid \<Rightarrow> [Check env pid True] | None \<Rightarrow> [])))"
| "calls (LostSession sid) = [Exchange sid lost]"
| "calls (CloseClient pid) = [Find pid]"
| "calls c = [Whole c]"

section \<open>A call nobody interrupts\<close>

fun weight :: "task \<Rightarrow> nat" where
  "weight (Check _ _ _) = 5"
| "weight (Publish _ _ _) = 4"
| "weight (Load _ _ _ _ _) = 3"
| "weight (Rollback _ _ _) = 2"
| "weight (Unkeep _ _ _) = 2"
| "weight (Match children _ _ _) = 15 + 5 * length children"
| "weight (Insert children _ _) = 10 + 5 * length children"
| "weight (Get_Config children _) = 3 + 5 * length children"
| "weight (Find _) = 7"
| "weight (Exchange _ _) = 6"
| "weight (Remove _ _) = 5"
| "weight _ = 1"

lemma weight_children: "(\<Sum>c\<leftarrow>children. weight (case c of (env, child) \<Rightarrow> Check env child False)) = 5 * length children"
  by (induction children) auto

lemma removal_weight: "sum_list (map weight (fst (removal pid end sv))) \<le> 3"
  by (simp add: removal_def split: session_end.split prod.split option.split)

lemma task_step_weight: "sum_list (map weight (fst (task_step t sv))) < weight t"
proof (cases t)
  case (Remove sid "end")
  then show ?thesis using removal_weight [of "se_pid (sv_sessions sv sid)" "end" sv] by simp
qed (auto simp: inject_answer_def Let_def weight_children comp_def split: prod.split option.split bool.split)

function run_tasks :: "task list \<Rightarrow> injector_server \<Rightarrow> injector_server" where
  "run_tasks [] sv = sv"
| "run_tasks (t # ts) sv = run_tasks (fst (task_step t sv) @ ts) (snd (task_step t sv))"
  by pat_completeness auto
termination
  by (relation "measure (\<lambda>(ts, sv). sum_list (map weight ts))") (simp_all add: task_step_weight)

declare run_tasks.simps(2) [simp del]

lemma run_tasks_append: "run_tasks (a @ b) sv = run_tasks b (run_tasks a sv)"
  by (induction a sv rule: run_tasks.induct) (simp_all add: run_tasks.simps(2))

lemma run_tasks_step: "run_tasks (t # ts) sv = run_tasks ts (run_tasks (fst (task_step t sv)) (snd (task_step t sv)))"
  by (simp add: run_tasks.simps(2) run_tasks_append)

lemma run_simple [simp]:
  "run_tasks [Drop_Kept pid] sv = sv\<lparr>sv_kept := kept_drop pid (sv_kept sv)\<rparr>"
  "run_tasks [Store_Opened sid ok] sv = put_session sid ((sv_sessions sv sid)\<lparr>se_opened := ok\<rparr>) sv"
  "run_tasks [Send_Config sid cfg] sv = send_config sid cfg sv"
  "run_tasks [Forget pid] sv = sv\<lparr>sv_store := forget_token pid (sv_store sv)\<rparr>"
  "run_tasks [Erase pid] sv = sv\<lparr>sv_clients := snd (clients_erase pid (sv_clients sv))\<rparr>"
  "run_tasks [Hook] sv = process_close sv" "run_tasks [Whole c] sv = server_step c sv"
  by (simp_all add: run_tasks_step)

definition answered :: "bool \<Rightarrow> DWORD \<Rightarrow> inject_verdict \<times> injector_server \<Rightarrow> injector_server" where
  "answered reply pid r =
     (if reply then (snd r)\<lparr>sv_subpids := sv_subpids (snd r) @ [(ucast pid, verdict_ok (fst r))]\<rparr> else snd r)"

lemma run_answer [simp]: "run_tasks (inject_answer reply pid v) sv = answered reply pid (v, sv)"
  by (simp add: inject_answer_def answered_def run_tasks_step)

lemma same_store [simp]: "sv\<lparr>sv_store := sv_store sv\<rparr> = sv"
  by (cases sv) simp

lemma publish_load:
  "injector_inject env pid port b =
     (case publish_region env pid port b of
        (None, b1) \<Rightarrow> ((False, snd (fst (injector_inject env pid port b))), b1)
      | (Some token, b1) \<Rightarrow> load_into pid token (ie_load env) (ie_resident env) b1)"
  by (auto simp: injector_inject_def inject_process_def publish_region_def Let_def split: option.splits prod.splits)

lemma load_into_split:
  "load_into pid token rl already b =
     (fst (load_into pid token rl already b'),
      if fst (fst (load_into pid token rl already b')) then b else snd (forget_bootstrap pid token b))"
  by (simp add: load_into_def Let_def split: option.split)

lemma run_load:
  "run_tasks [Load env pid reply resident token] sv =
     (case load_into pid token (ie_load env) resident (sv_store sv) of
        ((ok, already), b) \<Rightarrow>
          answered reply pid
            (if ok then (if already then already_encapsulated else attached,
                         sv\<lparr>sv_store := b, sv_kept := kept_drop pid (sv_kept sv)\<rparr>)
             else (failed, sv\<lparr>sv_store := b\<rparr>)))"
proof -
  obtain ok already where l: "fst (load_into pid token (ie_load env) resident (sv_store sv)) = (ok, already)"
    by (metis prod.exhaust)
  then show ?thesis
    using load_into_split [of pid token "ie_load env" resident "sv_store sv" "sv_store sv"]
    by (cases ok) (simp_all add: run_tasks_step)
qed

lemma run_inject: "run_tasks [Check env pid reply] sv = answered reply pid (server_inject env pid sv)"
proof (cases "sv_port sv = no_port \<or> clients_contains pid (sv_clients sv)")
  case True
  then show ?thesis by (auto simp: run_tasks_step [of "Check env pid reply"] server_inject_def)
next
  case False
  obtain token b1 where p: "publish_region env pid (sv_port sv) (sv_store sv) = (token, b1)" by (metis prod.exhaust)
  have "run_tasks [Check env pid reply] sv = run_tasks [Publish env pid reply] sv"
    using False by (simp add: run_tasks_step [of "Check env pid reply"])
  also have "\<dots> = answered reply pid (server_inject env pid sv)"
  proof (cases token)
    case None
    have "injector_inject env pid (sv_port sv) (sv_store sv) =
        ((False, snd (fst (injector_inject env pid (sv_port sv) (sv_store sv)))), b1)"
      using publish_load [of env pid "sv_port sv" "sv_store sv"] p None by simp
    then have "server_inject env pid sv = (failed, sv\<lparr>sv_store := b1\<rparr>)"
      using False by (auto simp: server_inject_def Let_def split: prod.split)
    then show ?thesis using p None by (simp add: run_tasks_step [of "Publish env pid reply"])
  next
    case (Some t)
    then have "injector_inject env pid (sv_port sv) (sv_store sv) = load_into pid t (ie_load env) (ie_resident env) b1"
      using publish_load [of env pid "sv_port sv" "sv_store sv"] p by simp
    then show ?thesis
      using False p Some
      by (simp add: run_tasks_step [of "Publish env pid reply"] run_load server_inject_def split: prod.split)
  qed
  finally show ?thesis .
qed

lemma run_children:
  "run_tasks (map (\<lambda>(env, child). Check env child False) children) sv = inject_children children sv"
proof (induction children arbitrary: sv)
  case (Cons c children)
  obtain env child where c: "c = (env, child)" by (cases c)
  have "run_tasks (map (\<lambda>(env, child). Check env child False) (c # children)) sv =
      run_tasks (map (\<lambda>(env, child). Check env child False) children) (run_tasks [Check env child False] sv)"
    using run_tasks_append [of "[Check env child False]" "map (\<lambda>(env, child). Check env child False) children" sv] c by simp
  then show ?case using Cons.IH c by (simp add: run_inject answered_def inject_children_def)
qed (simp add: inject_children_def)

lemma run_get_config:
  "run_tasks [Get_Config children sid] sv =
     send_config sid (sv_config sv) (if cf_subprocess (sv_config sv) = Some True then inject_children children sv else sv)"
  by (simp add: run_tasks_step [of "Get_Config children sid"] run_tasks_append run_children)

lemma run_two: "run_tasks [a, b] sv = run_tasks [b] (run_tasks [a] sv)"
  using run_tasks_append [of "[a]" "[b]" sv] by simp

lemma run_three: "run_tasks [a, b, c] sv = run_tasks [c] (run_tasks [b] (run_tasks [a] sv))"
  using run_tasks_append [of "[a]" "[b, c]" sv] by (simp add: run_two)

lemma run_removal:
  "run_tasks (fst (removal pid end sv)) (snd (removal pid end sv)) = process_close (snd (server_remove pid end sv))"
proof (cases "end")
  case lost
  obtain stale kept where "kept_keep pid (sv_kept sv) = (stale, kept)" by (metis prod.exhaust)
  with lost show ?thesis
    by (cases stale) (simp_all add: removal_def run_two run_three server_remove_def clients_erase_def)
next
  case retired
  then show ?thesis by (simp add: removal_def run_three server_remove_def clients_erase_def)
qed

lemma run_exchange: "run_tasks [Exchange sid end] sv = session_halt sid end sv"
proof -
  let ?sv1 = "put_session sid ((sv_sessions sv sid)\<lparr>se_connected := False, se_opened := False\<rparr>) sv"
  have "se_pid (sv_sessions ?sv1 sid) = se_pid (sv_sessions sv sid)" by (simp add: put_session_def)
  then show ?thesis
    by (simp add: run_tasks_step [of "Exchange sid end"] run_tasks_step [of "Remove sid end"] run_removal session_halt_def Let_def)
qed

lemma run_hello: "run_tasks [Match children sid pid token] sv = process_hello children sid pid token sv"
proof (cases "token_matches pid token (sv_store sv)")
  case False
  then show ?thesis by (simp add: run_tasks_step [of "Match children sid pid token"] run_exchange process_hello_def)
next
  case True
  obtain ok cs where ins: "clients_insert pid sid (sv_clients sv) = (ok, cs)" by (metis prod.exhaust)
  from True have "run_tasks [Match children sid pid token] sv = run_tasks [Insert children sid pid] sv"
    by (simp add: run_tasks_step [of "Match children sid pid token"])
  also have "\<dots> = process_hello children sid pid token sv"
    using True ins
    by (cases ok) (simp_all add: run_tasks_step [of "Insert children sid pid"] run_two run_three run_get_config
        process_hello_def server_open_def put_session_def)
  finally show ?thesis .
qed

text \<open>The handlers of the server are what their locked regions add up to: calls that do not overlap
  leave the server in exactly the state that the same commands leave it in as single steps, every
  branch of inject, hello and close included; no call runs for ever.\<close>

theorem handlers_from_regions: "run_tasks (concat (map calls cs)) sv = server_run cs sv"
proof -
  have one: "run_tasks (calls c) sv = server_step c sv" for c sv
  proof (cases c)
    case (Inject env pid)
    then show ?thesis by (simp add: run_inject answered_def)
  next
    case (Message children env sid msg)
    have "answered True pid r = (case r of (v, sv1) \<Rightarrow> sv1\<lparr>sv_subpids := sv_subpids sv1 @ [(ucast pid, verdict_ok v)]\<rparr>)" for pid r
      by (simp add: answered_def split: prod.split)
    then show ?thesis
      using Message by (simp add: run_hello run_inject process_injectee_def split: option.split)
  next
    case (CloseClient pid)
    then show ?thesis by (simp add: run_tasks_step [of "Find pid"] run_exchange server_close_def split: option.split)
  qed (simp_all add: run_exchange)
  show ?thesis
    by (induction cs arbitrary: sv) (simp_all add: server_run_def run_tasks_append one)
qed

section \<open>Calls that overlap\<close>

text \<open>
  The threads, each with what is left of its call; \<open>Call\<close> starts one on a thread that is free.
  \<open>pl_done\<close> records the regions that have run, oldest first.
\<close>

record server_pool =
  pl_server :: injector_server
  pl_threads :: "task list list"
  pl_done :: "task list"

datatype turn = Call nat server_cmd | Run nat

definition pool_init :: "nat \<Rightarrow> injector_server \<Rightarrow> server_pool" where
  "pool_init n sv = \<lparr>pl_server = sv, pl_threads = replicate n [], pl_done = []\<rparr>"

fun pool_step :: "turn \<Rightarrow> server_pool \<Rightarrow> server_pool" where
  "pool_step (Call i c) p =
     (if i < length (pl_threads p) \<and> pl_threads p ! i = [] then p\<lparr>pl_threads := (pl_threads p)[i := calls c]\<rparr> else p)"
| "pool_step (Run i) p =
     (if i < length (pl_threads p)
      then (case pl_threads p ! i of
              [] \<Rightarrow> p
            | t # ts \<Rightarrow> \<lparr>pl_server = snd (task_step t (pl_server p)),
                pl_threads = (pl_threads p)[i := fst (task_step t (pl_server p)) @ ts], pl_done = pl_done p @ [t]\<rparr>)
      else p)"

definition pool_run :: "turn list \<Rightarrow> server_pool \<Rightarrow> server_pool" where
  "pool_run s p = fold pool_step s p"

abbreviation pending :: "server_pool \<Rightarrow> task list" where
  "pending p \<equiv> concat (pl_threads p)"

text \<open>What holds at every moment of every schedule, and what only a region under way may suspend.\<close>

definition tables_ok :: "injector_server \<Rightarrow> bool" where
  "tables_ok sv \<longleftrightarrow> distinct (map fst (sv_clients sv)) \<and> distinct (sv_kept sv) \<and> length (sv_kept sv) \<le> kept_cap \<and>
     store_ok (sv_store sv)"

definition kept_excused :: "task list \<Rightarrow> injector_server \<Rightarrow> bool" where
  "kept_excused ts sv \<longleftrightarrow>
     (\<forall>pid \<in> set (sv_kept sv). registered sv pid \<noteq> None \<longrightarrow> Erase pid \<in> set ts \<or> Drop_Kept pid \<in> set ts)"

lemma tables_ok_irrelevant [simp]:
  "tables_ok (sv\<lparr>sv_config := c\<rparr>) = tables_ok sv" "tables_ok (sv\<lparr>sv_port := port\<rparr>) = tables_ok sv"
  "tables_ok (sv\<lparr>sv_sent := l\<rparr>) = tables_ok sv" "tables_ok (sv\<lparr>sv_subpids := x\<rparr>) = tables_ok sv"
  "tables_ok (sv\<lparr>sv_exited := b\<rparr>) = tables_ok sv" "tables_ok (sv\<lparr>sv_sessions := ss\<rparr>) = tables_ok sv"
  by (simp_all add: tables_ok_def)

lemma kept_excused_irrelevant [simp]:
  "kept_excused ts (sv\<lparr>sv_config := c\<rparr>) = kept_excused ts sv" "kept_excused ts (sv\<lparr>sv_port := port\<rparr>) = kept_excused ts sv"
  "kept_excused ts (sv\<lparr>sv_sent := l\<rparr>) = kept_excused ts sv" "kept_excused ts (sv\<lparr>sv_subpids := x\<rparr>) = kept_excused ts sv"
  "kept_excused ts (sv\<lparr>sv_exited := b\<rparr>) = kept_excused ts sv" "kept_excused ts (sv\<lparr>sv_sessions := ss\<rparr>) = kept_excused ts sv"
  "kept_excused ts (sv\<lparr>sv_store := st\<rparr>) = kept_excused ts sv"
  by (simp_all add: kept_excused_def)

lemma kept_excused_mono: "kept_excused ts sv \<Longrightarrow> set ts \<subseteq> set ts' \<Longrightarrow> kept_excused ts' sv"
  unfolding kept_excused_def by blast

text \<open>\<open>Whole\<close> is only ever a command that leaves both tables alone.\<close>

fun whole_command :: "server_cmd \<Rightarrow> bool" where
  "whole_command (Inject _ _) = False"
| "whole_command (Message _ _ _ _) = False"
| "whole_command (LostSession _) = False"
| "whole_command (CloseClient _) = False"
| "whole_command _ = True"

lemma whole_step:
  assumes "whole_command c"
  shows "sv_clients (server_step c sv) = sv_clients sv" "sv_kept (server_step c sv) = sv_kept sv"
    "sv_store (server_step c sv) = sv_store sv" "sv_sessions (server_step c sv) = sv_sessions sv"
  using assms
  by (cases c; simp add: set_port_def set_proxy_def config_proxy_def clear_proxy_def set_proxy_credentials_def
      clear_proxy_credentials_def enable_log_def enable_subprocess_def broadcast_config_def Let_def)+

text \<open>One region keeps the tables, and excuses a kept pid that is registered.\<close>

lemma publish_region_pairs: "store_ok b \<Longrightarrow> store_ok (snd (publish_region env pid port b))"
  by (auto simp: publish_region_def publish_result store_ok_def split: option.split)

lemma kept_drop_length: "length order \<le> kept_cap \<Longrightarrow> length (kept_drop pid order) \<le> kept_cap"
  using kept_drop_facts(3) le_trans by blast

lemma removal_fields [simp]:
  "sv_clients (snd (removal pid end sv)) = sv_clients sv" "sv_store (snd (removal pid end sv)) = sv_store sv"
  "sv_sessions (snd (removal pid end sv)) = sv_sessions sv" "Erase pid \<in> set (fst (removal pid end sv))"
  by (simp_all add: removal_def split: session_end.split option.split prod.split)

lemma removal_kept:
  assumes "distinct (sv_kept sv)" and "length (sv_kept sv) \<le> kept_cap"
  shows "distinct (sv_kept (snd (removal pid end sv)))" "length (sv_kept (snd (removal pid end sv))) \<le> kept_cap"
    "set (sv_kept (snd (removal pid end sv))) \<subseteq> insert pid (set (sv_kept sv))"
proof -
  obtain stale kept where k: "kept_keep pid (sv_kept sv) = (stale, kept)" by (metis prod.exhaust)
  have "sv_kept (snd (removal pid end sv)) = (if end = lost then kept else kept_drop pid (sv_kept sv))"
    by (simp add: removal_def k split: session_end.split option.split)
  then show "distinct (sv_kept (snd (removal pid end sv)))" "length (sv_kept (snd (removal pid end sv))) \<le> kept_cap"
    "set (sv_kept (snd (removal pid end sv))) \<subseteq> insert pid (set (sv_kept sv))"
    using kept_keep_result [OF k assms] kept_drop_length [OF assms(2)] assms(1) by auto
qed

lemma tables_ok_step:
  assumes "tables_ok sv" and "\<And>c. t = Whole c \<Longrightarrow> whole_command c"
  shows "tables_ok (snd (task_step t sv))"
proof (cases t)
  case (Publish env pid reply)
  have "store_ok (snd (publish_region env pid (sv_port sv) (sv_store sv)))"
    using assms(1) publish_region_pairs by (simp add: tables_ok_def)
  then show ?thesis using Publish assms(1) by (auto simp: tables_ok_def split: prod.split option.split)
next
  case (Insert children sid pid)
  then show ?thesis using assms(1) distinct_insort_fst [of "sv_clients sv" pid sid]
    by (cases "map_of (sv_clients sv) pid") (simp_all add: tables_ok_def clients_insert_def put_session_def Let_def)
next
  case (Remove sid "end")
  then show ?thesis using assms(1) removal_kept by (simp add: tables_ok_def)
next
  case (Whole c)
  then show ?thesis using assms by (simp add: tables_ok_def whole_step)
next
  case (Erase pid)
  then show ?thesis using assms(1) by (simp add: tables_ok_def clients_erase_def distinct_map_filter)
qed (use assms(1) in \<open>auto simp: tables_ok_def put_session_def send_config_def process_close_def forget_bootstrap_result
    store_ok_forget kept_drop_length split: prod.split option.split\<close>)

lemma registered_insert:
  "clients_insert pid sid (sv_clients sv) = (True, cs) \<Longrightarrow> registered (sv\<lparr>sv_clients := cs\<rparr>) = (registered sv)(pid \<mapsto> sid)"
  by (auto simp: registered_def clients_insert_def map_of_insort fun_eq_iff split: if_splits)

lemma kept_excused_step:
  assumes ex: "kept_excused (t # ts) sv" and "tables_ok sv" and "\<And>c. t = Whole c \<Longrightarrow> whole_command c"
  shows "kept_excused (fst (task_step t sv) @ ts) (snd (task_step t sv))"
proof (cases t)
  case (Publish env pid reply)
  then show ?thesis using ex by (auto simp: kept_excused_def split: prod.split option.split)
next
  case (Insert children sid pid)
  obtain ok cs where i: "clients_insert pid sid (sv_clients sv) = (ok, cs)" by (metis prod.exhaust)
  then show ?thesis
    using Insert ex registered_insert [of pid sid "put_session sid ((sv_sessions sv sid)\<lparr>se_pid := pid\<rparr>) sv" cs]
    by (cases ok) (auto simp: kept_excused_def put_session_def Let_def)
next
  case (Remove sid "end")
  let ?pid = "se_pid (sv_sessions sv sid)"
  have "set (sv_kept (snd (removal ?pid end sv))) \<subseteq> insert ?pid (set (sv_kept sv))"
    using assms(2) removal_kept(3) by (simp add: tables_ok_def)
  moreover have "registered (snd (removal ?pid end sv)) = registered sv" by (simp add: registered_def fun_eq_iff)
  moreover have "Erase ?pid \<in> set (fst (removal ?pid end sv))" by simp
  moreover have "pid = ?pid \<or> pid \<in> set (sv_kept sv)" if "pid \<in> set (sv_kept (snd (removal ?pid end sv)))" for pid
    using that calculation(1) by blast
  ultimately show ?thesis using ex Remove by (fastforce simp: kept_excused_def)
next
  case (Whole c)
  then show ?thesis using ex assms(3) by (simp add: kept_excused_def registered_def whole_step)
next
  case (Erase pid)
  then show ?thesis using ex by (auto simp: kept_excused_def clients_erase_def)
qed (use ex in \<open>auto simp: kept_excused_def put_session_def send_config_def process_close_def
    split: prod.split option.split\<close>)

section \<open>Invariants of a schedule\<close>

lemma concat_update:
  assumes "i < length xs"
  obtains a b where "concat xs = a @ xs ! i @ b" "\<And>ys. concat (xs[i := ys]) = a @ ys @ b"
proof
  show "concat xs = concat (take i xs) @ xs ! i @ concat (drop (Suc i) xs)"
    using id_take_nth_drop [OF assms] by (metis concat.simps(2) concat_append)
  show "concat (xs[i := ys]) = concat (take i xs) @ ys @ concat (drop (Suc i) xs)" for ys
    using assms by (simp add: upd_conv_take_nth_drop)
qed

text \<open>
  A step of a pool starts the tasks of a call, runs a task at the head of a thread, or does nothing.
  The rest of the tasks stands to both sides.
\<close>

lemma pool_step_cases:
  obtains (nothing) "pool_step e p = p"
  | (call) i c a b where "e = Call i c" "pending p = a @ b" "pending (pool_step e p) = a @ calls c @ b"
      "pl_server (pool_step e p) = pl_server p" "pl_done (pool_step e p) = pl_done p"
  | (run) t a b where "pending p = a @ t # b" "pending (pool_step e p) = a @ fst (task_step t (pl_server p)) @ b"
      "pl_server (pool_step e p) = snd (task_step t (pl_server p))" "pl_done (pool_step e p) = pl_done p @ [t]"
proof (cases e)
  case (Call i c)
  show thesis
  proof (cases "i < length (pl_threads p) \<and> pl_threads p ! i = []")
    case True
    then obtain a b where ab: "pending p = a @ pl_threads p ! i @ b"
        "\<And>ys. concat ((pl_threads p)[i := ys]) = a @ ys @ b"
      using concat_update by metis
    with True Call show thesis by (intro call [of i c a b]) simp_all
  next
    case False
    show thesis by (rule nothing) (use False Call in auto)
  qed
next
  case (Run i)
  show thesis
  proof (cases "i < length (pl_threads p) \<and> pl_threads p ! i \<noteq> []")
    case True
    then obtain a b where ab: "pending p = a @ pl_threads p ! i @ b"
        "\<And>ys. concat ((pl_threads p)[i := ys]) = a @ ys @ b"
      using concat_update by metis
    from True obtain t ts where "pl_threads p ! i = t # ts" by (meson neq_Nil_conv)
    with True Run ab show thesis by (intro run [of a t "ts @ b"]) simp_all
  next
    case False
    show thesis by (rule nothing) (use False Run in \<open>auto split: list.split\<close>)
  qed
qed

definition pool_ok :: "server_pool \<Rightarrow> bool" where
  "pool_ok p \<longleftrightarrow> tables_ok (pl_server p) \<and> kept_excused (pending p) (pl_server p) \<and>
     (\<forall>c. Whole c \<in> set (pending p) \<longrightarrow> whole_command c)"

lemma calls_whole: "Whole c' \<in> set (calls c) \<Longrightarrow> whole_command c'"
  by (cases c) (auto split: option.splits)

lemma task_step_whole: "Whole c \<notin> set (fst (task_step t sv))"
  by (cases t) (auto simp: inject_answer_def removal_def Let_def split: prod.split option.split bool.split session_end.split)

lemma pool_ok_step: "pool_ok p \<Longrightarrow> pool_ok (pool_step e p)"
proof (cases e p rule: pool_step_cases)
  case (call i c a b)
  then show "pool_ok p \<Longrightarrow> ?thesis"
    using calls_whole kept_excused_mono [of "a @ b" "pl_server p" "a @ calls c @ b"]
    by (auto simp: pool_ok_def)
next
  case (run t a b)
  assume ok: "pool_ok p"
  then have w: "\<And>c. t = Whole c \<Longrightarrow> whole_command c" using run(1) by (auto simp: pool_ok_def)
  have t: "tables_ok (pl_server p)" using ok by (simp add: pool_ok_def)
  have "kept_excused (t # a @ b) (pl_server p)"
    using ok run(1) by (auto simp: pool_ok_def intro: kept_excused_mono)
  from kept_excused_step [OF this t w]
  have "kept_excused (pending (pool_step e p)) (pl_server (pool_step e p))"
    using run(2,3) by (auto intro: kept_excused_mono)
  moreover have "Whole c \<in> set (pending (pool_step e p)) \<Longrightarrow> whole_command c" for c
    using ok run(1,2) task_step_whole by (auto simp: pool_ok_def)
  ultimately show ?thesis using tables_ok_step [OF t w] run(3) by (simp add: pool_ok_def)
qed simp

lemma pool_ok_init: "pool_ok (pool_init n server_init)"
proof -
  have "concat (replicate n ([] :: task list)) = []" by (induction n) simp_all
  then show ?thesis
    by (simp add: pool_ok_def pool_init_def tables_ok_def kept_excused_def server_init_def store_ok_new kept_cap_def)
qed

interpretation pool: invariant_steps pool_step pool_ok "pool_init n server_init" for n
  by unfold_locales (simp_all add: pool_ok_step pool_ok_init)

text \<open>How often a session was opened, and how often its teardown began.\<close>

fun opens :: "nat \<Rightarrow> task \<Rightarrow> bool" where
  "opens sid (Store_Opened s ok) \<longleftrightarrow> s = sid \<and> ok"
| "opens sid _ \<longleftrightarrow> False"

fun tears_down :: "nat \<Rightarrow> task \<Rightarrow> bool" where
  "tears_down sid (Remove s _) \<longleftrightarrow> s = sid"
| "tears_down sid _ \<longleftrightarrow> False"

abbreviation count_tasks :: "(task \<Rightarrow> bool) \<Rightarrow> task list \<Rightarrow> nat" where
  "count_tasks P ts \<equiv> length (filter P ts)"

definition teardown_owed :: "nat \<Rightarrow> server_pool \<Rightarrow> bool" where
  "teardown_owed sid p \<longleftrightarrow>
     count_tasks (tears_down sid) (pl_done p) + count_tasks (tears_down sid) (pending p) +
       of_bool (se_opened (sv_sessions (pl_server p) sid)) \<le> count_tasks (opens sid) (pl_done p)"

lemma task_step_owes:
  assumes "\<And>c. t = Whole c \<Longrightarrow> whole_command c"
  shows "count_tasks (tears_down sid) (fst (task_step t sv)) + of_bool (se_opened (sv_sessions (snd (task_step t sv)) sid))
    \<le> of_bool (se_opened (sv_sessions sv sid)) + (of_bool (opens sid t) :: nat)"
proof (cases t)
  case (Whole c)
  then show ?thesis using assms by (simp add: whole_step)
next
  case (Get_Config children s)
  have "filter (tears_down sid) (map (\<lambda>(env, child). Check env child False) children) = []"
    by (induction children) auto
  then show ?thesis using Get_Config by simp
next
  case (Insert children s pid)
  obtain ok cs where "clients_insert pid s (sv_clients sv) = (ok, cs)" by (metis prod.exhaust)
  with Insert show ?thesis by (cases ok) (auto simp: put_session_def Let_def)
next
  case (Remove s "end")
  then show ?thesis by (simp add: removal_def split: session_end.split prod.split option.split)
qed (auto simp: inject_answer_def put_session_def send_config_def process_close_def split: prod.split option.split)

lemma teardown_owed_step: "pool_ok p \<Longrightarrow> teardown_owed sid p \<Longrightarrow> teardown_owed sid (pool_step e p)"
proof (cases e p rule: pool_step_cases)
  case (call i c a b)
  have "filter (tears_down sid) (calls c) = []" by (cases c) (auto split: option.split)
  with call show "teardown_owed sid p \<Longrightarrow> ?thesis" by (simp add: teardown_owed_def)
next
  case (run t a b)
  assume "pool_ok p" "teardown_owed sid p"
  then show ?thesis
    using run task_step_owes [of t sid "pl_server p"] by (force simp: teardown_owed_def pool_ok_def)
qed simp

lemma teardown_owed_run:
  assumes "pool_ok p" "teardown_owed sid p" shows "teardown_owed sid (pool_run s p)"
  using assms unfolding pool_run_def
  by (induction s arbitrary: p) (simp_all add: pool_ok_step teardown_owed_step)

text \<open>C16: However the threads overlap, at every moment of a run from the start the client table and
  the kept record hold each pid at most once and the record stays within its bound, the two halves
  of each bootstrap go together, and a pid that is both kept and registered is one whose erasure
  or release is the unfinished business of some thread.\<close>

theorem tables_under_threads:
  "let p = pool_run s (pool_init n server_init); sv = pl_server p in
    distinct (map fst (sv_clients sv)) \<and> distinct (sv_kept sv) \<and> length (sv_kept sv) \<le> kept_cap \<and>
    (\<forall>pid. bs_tokens (sv_store sv) pid = map_option token_of (bs_mappings (sv_store sv) pid)) \<and>
    (\<forall>pid. Erase pid \<notin> set (pending p) \<longrightarrow> Drop_Kept pid \<notin> set (pending p) \<longrightarrow> pid \<in> set (sv_kept sv) \<longrightarrow>
       pid \<notin> fst ` set (sv_clients sv))"
proof -
  have "pool_ok (pool_run s (pool_init n server_init))" unfolding pool_run_def by (rule pool.always_inv)
  then show ?thesis
    unfolding pool_ok_def tables_ok_def store_ok_def kept_excused_def registered_def Let_def
    by (metis map_of_eq_None_iff set_map)
qed

definition alone :: "server_cmd \<Rightarrow> turn list" where
  "alone c = Call 0 c # replicate 12 (Run 0)"

definition demo_schedule :: "turn list" where
  "demo_schedule = concat (map alone (demo_setup @ [LostSession 1]))"

lemma tables_under_threads_witness:
  "(7 :: DWORD) \<notin> fst ` set (sv_clients (pl_server (pool_run demo_schedule (pool_init 2 server_init))))"
proof -
  have "list_all (\<lambda>_. False) (pending (pool_run demo_schedule (pool_init 2 server_init)))"
    and kept: "7 \<in> set (sv_kept (pl_server (pool_run demo_schedule (pool_init 2 server_init))))"
    by code_simp+
  then have none: "pending (pool_run demo_schedule (pool_init 2 server_init)) = []"
    by (cases "pending (pool_run demo_schedule (pool_init 2 server_init))") simp_all
  have "Erase 7 \<notin> set (pending (pool_run demo_schedule (pool_init 2 server_init))) \<longrightarrow>
      Drop_Kept 7 \<notin> set (pending (pool_run demo_schedule (pool_init 2 server_init))) \<longrightarrow>
      7 \<in> set (sv_kept (pl_server (pool_run demo_schedule (pool_init 2 server_init)))) \<longrightarrow> ?thesis"
    using tables_under_threads [of demo_schedule 2] unfolding Let_def by blast
  from this [unfolded none] kept show ?thesis by simp
qed

text \<open>C17: The teardown of a session is run once for each time it was opened, whichever threads notice
  its end and whenever: in every schedule a session's removal has begun at most as often as a hello
  opened it.\<close>

theorem teardown_at_most_once:
  "count_tasks (tears_down sid) (pl_done (pool_run s (pool_init n server_init)))
    \<le> count_tasks (opens sid) (pl_done (pool_run s (pool_init n server_init)))"
proof -
  have "concat (replicate n ([] :: task list)) = []" by (induction n) simp_all
  then have "teardown_owed sid (pool_init n server_init)"
    by (simp add: teardown_owed_def pool_init_def server_init_def session_init_def)
  from teardown_owed_run [OF pool_ok_init this, of s] show ?thesis by (simp add: teardown_owed_def)
qed

section \<open>Registration under threads\<close>

lemma task_step_insert:
  "Insert children sid pid \<in> set (fst (task_step t sv)) \<longleftrightarrow>
     (\<exists>token. t = Match children sid pid token \<and> token_matches pid token (sv_store sv))"
  by (cases t) (auto simp: inject_answer_def removal_def Let_def split: prod.splits option.splits session_end.splits bool.splits)

lemma task_step_match: "Match children sid pid token \<notin> set (fst (task_step t sv))"
  by (cases t) (auto simp: inject_answer_def removal_def Let_def split: prod.splits option.splits session_end.splits bool.splits)

lemma task_step_registered:
  assumes "\<And>c. t = Whole c \<Longrightarrow> whole_command c" and "registered (snd (task_step t sv)) pid = Some sid"
  shows "registered sv pid = Some sid \<or> (\<exists>children. t = Insert children sid pid)"
proof (cases t)
  case (Insert children s p)
  obtain ok cs where i: "clients_insert p s (sv_clients sv) = (ok, cs)" by (metis prod.exhaust)
  then have "sv_clients (snd (task_step t sv)) = (if ok then cs else sv_clients sv)"
    using Insert by (cases ok) (simp_all add: put_session_def Let_def)
  then have "registered (snd (task_step t sv)) = (if ok then registered (sv\<lparr>sv_clients := cs\<rparr>) else registered sv)"
    by (simp add: registered_def fun_eq_iff)
  also have "\<dots> = (if ok then (registered sv)(p \<mapsto> s) else registered sv)"
    using i registered_insert [of p s sv cs] by simp
  finally show ?thesis using Insert assms(2) by (auto split: if_splits)
next
  case (Whole c)
  then show ?thesis using assms by (simp add: registered_def whole_step)
next
  case (Erase p)
  then show ?thesis using assms(2) by (auto simp: registered_def clients_erase_def map_of_erase split: if_splits)
qed (use assms(2) in \<open>auto simp: registered_def put_session_def send_config_def process_close_def
    split: prod.splits option.splits if_splits\<close>)

text \<open>
  The region that checked the token has run in the schedule \<open>s\<close>, for a hello of that session, at a
  moment when the token was the one recorded for the pid.
\<close>

definition token_checked :: "nat \<Rightarrow> turn list \<Rightarrow> DWORD \<Rightarrow> nat \<Rightarrow> bool" where
  "token_checked n s pid sid \<longleftrightarrow>
     (\<exists>before e after children token i env msg. s = before @ e # after \<and> Call i (Message children env sid msg) \<in> set before \<and>
       compare_message_pid msg = Some pid \<and> im_token msg = Some token \<and>
       pl_done (pool_run (before @ [e]) (pool_init n server_init)) =
         pl_done (pool_run before (pool_init n server_init)) @ [Match children sid pid (Some token)] \<and>
       bs_tokens (sv_store (pl_server (pool_run before (pool_init n server_init)))) pid = Some token)"

lemma token_checked_snoc: "token_checked n s pid sid \<Longrightarrow> token_checked n (s @ [e]) pid sid"
  unfolding token_checked_def by (metis append_Cons append_assoc)

definition hello_sent :: "turn list \<Rightarrow> task \<Rightarrow> bool" where
  "hello_sent s t \<longleftrightarrow> (case t of
     Match children sid pid token \<Rightarrow>
       (\<exists>i env msg. Call i (Message children env sid msg) \<in> set s \<and> compare_message_pid msg = Some pid \<and> im_token msg = token)
   | _ \<Rightarrow> True)"

definition insert_checked :: "nat \<Rightarrow> turn list \<Rightarrow> task \<Rightarrow> bool" where
  "insert_checked n s t \<longleftrightarrow> (case t of Insert children sid pid \<Rightarrow> token_checked n s pid sid | _ \<Rightarrow> True)"

lemma calls_sent: "t \<in> set (calls c) \<Longrightarrow> hello_sent (s @ [Call i c]) t"
  unfolding hello_sent_def set_append by (cases c) (auto split: option.splits)

lemma calls_checked: "t \<in> set (calls c) \<Longrightarrow> insert_checked n s t"
  unfolding insert_checked_def by (cases c) (auto split: option.splits)

lemma hello_sent_snoc: "hello_sent s t \<Longrightarrow> hello_sent (s @ [e]) t"
  by (cases t) (auto simp: hello_sent_def)

lemma insert_checked_snoc: "insert_checked n s t \<Longrightarrow> insert_checked n (s @ [e]) t"
  by (cases t) (auto simp: insert_checked_def token_checked_snoc)

definition hellos_known :: "nat \<Rightarrow> turn list \<Rightarrow> bool" where
  "hellos_known n s \<longleftrightarrow> (let p = pool_run s (pool_init n server_init) in
     (\<forall>t \<in> set (pending p). hello_sent s t \<and> insert_checked n s t) \<and>
     (\<forall>sid pid. registered (pl_server p) pid = Some sid \<longrightarrow> token_checked n s pid sid))"

lemma hellos_known_step:
  assumes known: "hellos_known n s"
  shows "hellos_known n (s @ [e])"
proof -
  let ?p = "pool_run s (pool_init n server_init)"
  have ok: "pool_ok ?p" unfolding pool_run_def by (rule pool.always_inv)
  have next_p: "pool_run (s @ [e]) (pool_init n server_init) = pool_step e ?p" by (simp add: pool_run_def)
  have old: "hello_sent (s @ [e]) t \<and> insert_checked n (s @ [e]) t" if "t \<in> set (pending ?p)" for t
    using known that hello_sent_snoc insert_checked_snoc unfolding hellos_known_def Let_def by blast
  have reg: "token_checked n (s @ [e]) pid sid" if "registered (pl_server ?p) pid = Some sid" for pid sid
    using known that token_checked_snoc unfolding hellos_known_def Let_def by blast
  have goal: ?thesis
    if "\<And>t. t \<in> set (pending (pool_step e ?p)) \<Longrightarrow> hello_sent (s @ [e]) t \<and> insert_checked n (s @ [e]) t"
      and "\<And>pid sid. registered (pl_server (pool_step e ?p)) pid = Some sid \<Longrightarrow> token_checked n (s @ [e]) pid sid"
    unfolding hellos_known_def next_p Let_def using that by blast
  show ?thesis
  proof (cases e ?p rule: pool_step_cases)
    case nothing
    then show ?thesis using old reg by (intro goal) simp_all
  next
    case (call i c a b)
    have new: "hello_sent (s @ [e]) t \<and> insert_checked n (s @ [e]) t" if "t \<in> set (calls c)" for t
      using calls_sent [OF that] calls_checked [OF that] call(1) by simp
    show ?thesis
    proof (rule goal)
      fix t assume "t \<in> set (pending (pool_step e ?p))"
      then have "t \<in> set (pending ?p) \<or> t \<in> set (calls c)" unfolding call(2,3) by auto
      then show "hello_sent (s @ [e]) t \<and> insert_checked n (s @ [e]) t" using old new by blast
    qed (use reg call(4) in simp)
  next
    case (run t a b)
    have t: "t \<in> set (pending ?p)" unfolding run(1) by simp
    have w: "\<And>c. t = Whole c \<Longrightarrow> whole_command c" using ok t by (auto simp: pool_ok_def)
    have checked: "token_checked n (s @ [e]) pid sid"
      if m: "t = Match children sid pid token" "token_matches pid token (sv_store (pl_server ?p))" for children sid pid token
    proof -
      obtain tok where tok: "token = Some tok" "bs_tokens (sv_store (pl_server ?p)) pid = Some tok"
        using m(2) by (auto simp: token_matches_iff)
      have "hello_sent s t" using known t unfolding hellos_known_def Let_def by blast
      then obtain j env msg where "Call j (Message children env sid msg) \<in> set s" "compare_message_pid msg = Some pid"
          "im_token msg = Some tok"
        using m(1) tok(1) by (auto simp: hello_sent_def)
      moreover have "pl_done (pool_run (s @ [e]) (pool_init n server_init)) = pl_done ?p @ [Match children sid pid (Some tok)]"
        using run(4) m(1) tok(1) unfolding next_p by simp
      moreover have "s @ [e] = s @ e # []" by simp
      ultimately show ?thesis using tok(2) unfolding token_checked_def by blast
    qed
    have new: "hello_sent (s @ [e]) u \<and> insert_checked n (s @ [e]) u" if u: "u \<in> set (fst (task_step t (pl_server ?p)))" for u
    proof -
      have "insert_checked n (s @ [e]) u"
        using u task_step_insert [of _ _ _ t "pl_server ?p"] checked unfolding insert_checked_def by (fastforce split: task.split)
      moreover have "hello_sent (s @ [e]) u"
        using u task_step_match [of _ _ _ _ t "pl_server ?p"] unfolding hello_sent_def by (fastforce split: task.split)
      ultimately show ?thesis by blast
    qed
    show ?thesis
    proof (rule goal)
      fix u assume "u \<in> set (pending (pool_step e ?p))"
      then have "u \<in> set (pending ?p) \<or> u \<in> set (fst (task_step t (pl_server ?p)))" unfolding run(1,2) by auto
      then show "hello_sent (s @ [e]) u \<and> insert_checked n (s @ [e]) u" using old new by blast
    next
      fix pid sid assume "registered (pl_server (pool_step e ?p)) pid = Some sid"
      from task_step_registered [OF w this [unfolded run(3)]] show "token_checked n (s @ [e]) pid sid"
        using reg old [OF t] by (auto simp: insert_checked_def)
    qed
  qed
qed

lemma hellos_known_run: "hellos_known n s"
proof (induction s rule: rev_induct)
  case Nil
  have "concat (replicate n ([] :: task list)) = []" by (induction n) simp_all
  then show ?case by (simp add: hellos_known_def pool_run_def pool_init_def server_init_def registered_def)
qed (rule hellos_known_step)

text \<open>C15: Registration is earned under threads too: however the threads overlap, a session that is
  registered for a pid sent a hello for that very pid, and the region of that hello that looks at
  the token ran at a moment when the token it presents was the one recorded for the pid.\<close>

theorem registered_under_threads:
  assumes "registered (pl_server (pool_run s (pool_init n server_init))) pid = Some sid"
  shows "\<exists>before e after children token i env msg. s = before @ e # after \<and> Call i (Message children env sid msg) \<in> set before \<and>
     compare_message_pid msg = Some pid \<and> im_token msg = Some token \<and>
     pl_done (pool_run (before @ [e]) (pool_init n server_init)) =
       pl_done (pool_run before (pool_init n server_init)) @ [Match children sid pid (Some token)] \<and>
     bs_tokens (sv_store (pl_server (pool_run before (pool_init n server_init)))) pid = Some token"
proof -
  have "token_checked n s pid sid" using hellos_known_run [of n s] assms by (simp add: hellos_known_def Let_def)
  then show ?thesis unfolding token_checked_def .
qed

lemma registered_under_threads_witness:
  "\<exists>before e after children token i env msg. concat (map alone [SetPort 80, Inject demo_env 7, demo_hello 1]) = before @ e # after \<and>
     Call i (Message children env 1 msg) \<in> set before \<and> compare_message_pid msg = Some 7 \<and> im_token msg = Some token \<and>
     pl_done (pool_run (before @ [e]) (pool_init 2 server_init)) =
       pl_done (pool_run before (pool_init 2 server_init)) @ [Match children 1 7 (Some token)] \<and>
     bs_tokens (sv_store (pl_server (pool_run before (pool_init 2 server_init)))) 7 = Some token"
proof -
  have "registered (pl_server (pool_run (concat (map alone [SetPort 80, Inject demo_env 7, demo_hello 1])) (pool_init 2 server_init))) 7 = Some 1"
    by code_simp
  from registered_under_threads [OF this] show ?thesis .
qed

section \<open>Overlaps that go wrong\<close>

text \<open>
  The table is filled before the session's flag is set. A close that falls between finds the
  session, closes its socket and answers true, but sees the flag unset and retires nothing: when
  the reader then notices the closed socket the end counts as a lost connection, the bootstrap is
  kept, and the capsule registers again.
\<close>

definition close_in_hello :: "turn list" where
  "close_in_hello = concat (map alone [SetPort 80, Inject demo_env 7]) @
     [Call 0 (demo_hello 1), Run 0, Run 0, Call 1 (CloseClient 7), Run 1, Run 1] @ replicate 4 (Run 0)"

lemma close_in_hello_retires_nothing:
  "let p = pool_run close_in_hello (pool_init 2 server_init); sv = pl_server p; sv' = server_step (LostSession 1) sv in
    list_all (\<lambda>_. False) (pending p) \<and> \<not> se_connected (sv_sessions sv 1) \<and> sv_clients sv = [(7, 1)] \<and>
    sv_kept sv' = [7] \<and> sv_clients (server_step (demo_hello 2) sv') = [(7, 2)]"
  by code_simp

text \<open>
  The front end's check that a pid is free, the publish and the rollback are three regions. When a
  hello falls between them, the injection that fails afterwards has taken the token of the capsule
  that just registered: it is registered without one, and refused once its connection is lost.
\<close>

definition failing_env :: injection_env where
  "failing_env = demo_env\<lparr>ie_load := (ie_load demo_env)\<lparr>rl_allocated := False\<rparr>\<rparr>"

definition hello_in_injection :: "turn list" where
  "hello_in_injection = concat (map alone [SetPort 80, Inject demo_env 7]) @ [Call 1 (Inject failing_env 7), Run 1] @
     alone (demo_hello 1) @ replicate 3 (Run 1)"

lemma hello_in_injection_loses_token:
  "let p = pool_run hello_in_injection (pool_init 2 server_init); sv = pl_server p in
    list_all (\<lambda>_. False) (pending p) \<and> sv_clients sv = [(7, 1)] \<and> bs_tokens (sv_store sv) 7 = None \<and>
    sv_clients (server_run [LostSession 1, demo_hello 2] sv) = []"
  by code_simp

text \<open>
  No overlap is needed for a capsule that is away: an injection of its pid that fails overwrites
  and then retires the bootstrap it was kept for, although the pid stays in the record.
\<close>

lemma failed_reinjection_retires_kept:
  "let sv = server_run (demo_setup @ [LostSession 1]) server_init; sv' = server_step (Inject failing_env 7) sv in
    bs_tokens (sv_store sv) 7 = Some demo_token \<and> fst (server_inject failing_env 7 sv) = failed \<and>
    bs_tokens (sv_store sv') 7 = None \<and> sv_kept sv' = [7] \<and> sv_clients (server_step (demo_hello 2) sv') = []"
  by code_simp

end
