(* ===== verification/Config_Stream.thy ===== *)
theory Config_Stream
  imports Gui_Panel
begin

text \<open>
  The bytes of a control session, from src/injector/server.hpp and src/common/async_io.hpp.
  Server says which configurations are sent to a session and in which order the coroutines that
  write them are spawned. Each coroutine suspends twice inside \<open>async_write_message\<close>, for the
  length and for the body, and nothing queues one behind another: here those writes happen in any
  order. One \<open>async_write\<close> is taken to put its buffer on the wire in one piece.
\<close>

section \<open>One socket\<close>

text \<open>A coroutine inside \<open>async_write_message\<close>, by the write it is suspended at.\<close>

datatype writer = At_Length "u8 list" | At_Body "u8 list"

record session_stream =
  ws_wire :: "u8 list"
  ws_writers :: "writer list"

definition session_stream_init :: session_stream where
  "session_stream_init = \<lparr>ws_wire = [], ws_writers = []\<rparr>"

definition spawn_writer :: "u8 list \<Rightarrow> session_stream \<Rightarrow> session_stream" where
  "spawn_writer buf s = s\<lparr>ws_writers := ws_writers s @ [At_Length buf]\<rparr>"

definition resume_writer :: "nat \<Rightarrow> session_stream \<Rightarrow> session_stream" where
  "resume_writer i s =
     (if i < length (ws_writers s)
      then (case ws_writers s ! i of
              At_Length buf \<Rightarrow> s\<lparr>ws_wire := ws_wire s @ le_bytes32 (of_nat (length buf)),
                ws_writers := (ws_writers s)[i := At_Body buf]\<rparr>
            | At_Body buf \<Rightarrow> s\<lparr>ws_wire := ws_wire s @ buf,
                ws_writers := take i (ws_writers s) @ drop (Suc i) (ws_writers s)\<rparr>)
      else s)"

section \<open>The server and its sockets\<close>

record control_net =
  cn_server :: injector_server
  cn_streams :: "nat \<Rightarrow> session_stream"

definition control_net_init :: control_net where
  "control_net_init = \<lparr>cn_server = server_init, cn_streams = (\<lambda>_. session_stream_init)\<rparr>"

text \<open>The configurations a command sends, in the order their coroutines are spawned.\<close>

definition newly_sent :: "injector_server \<Rightarrow> injector_server \<Rightarrow> (nat \<times> InjectorConfig) list" where
  "newly_sent sv sv' = drop (length (sv_sent sv)) (sv_sent sv')"

definition configs_for :: "nat \<Rightarrow> (nat \<times> InjectorConfig) list \<Rightarrow> InjectorConfig list" where
  "configs_for sid sent = map snd (filter (\<lambda>e. fst e = sid) sent)"

definition config_write ::
  "(InjectorMessage \<Rightarrow> u8 list) \<Rightarrow> nat \<times> InjectorConfig \<Rightarrow> (nat \<Rightarrow> session_stream) \<Rightarrow> nat \<Rightarrow> session_stream" where
  "config_write encode e ss = ss(fst e := spawn_writer (encode (create_message_config (snd e))) (ss (fst e)))"

datatype net_event = Command server_cmd | Resume nat nat

fun net_step :: "(InjectorMessage \<Rightarrow> u8 list) \<Rightarrow> net_event \<Rightarrow> control_net \<Rightarrow> control_net" where
  "net_step encode (Command c) n =
     (let sv = server_step c (cn_server n) in
      \<lparr>cn_server = sv, cn_streams = fold (config_write encode) (newly_sent (cn_server n) sv) (cn_streams n)\<rparr>)"
| "net_step encode (Resume sid i) n =
     n\<lparr>cn_streams := (cn_streams n)(sid := resume_writer i (cn_streams n sid))\<rparr>"

definition net_run :: "(InjectorMessage \<Rightarrow> u8 list) \<Rightarrow> net_event list \<Rightarrow> control_net \<Rightarrow> control_net" where
  "net_run encode es n = fold (net_step encode) es n"

text \<open>
  The runs in which no configuration is sent to a session while an earlier one is still being
  written, and never two at once.
\<close>

fun spaced :: "(InjectorMessage \<Rightarrow> u8 list) \<Rightarrow> nat \<Rightarrow> net_event list \<Rightarrow> control_net \<Rightarrow> bool" where
  "spaced encode sid [] n = True"
| "spaced encode sid (e # es) n =
     ((case e of
         Command c \<Rightarrow>
           (let new = configs_for sid (newly_sent (cn_server n) (server_step c (cn_server n))) in
            new = [] \<or> length new = 1 \<and> ws_writers (cn_streams n sid) = [])
       | Resume _ _ \<Rightarrow> True) \<and> spaced encode sid es (net_step encode e n))"

section \<open>Lemmas\<close>

lemma configs_for_append [simp]: "configs_for sid (a @ b) = configs_for sid a @ configs_for sid b"
  and configs_for_nil [simp]: "configs_for sid [] = []"
  by (simp_all add: configs_for_def)

text \<open>The list of what was sent only grows.\<close>

lemma sent_grows_inject_children: "sv_sent (inject_children children sv) = sv_sent sv"
  unfolding inject_children_def by (induction children arbitrary: sv) (simp_all split: prod.split)

lemma sent_grows_halt [simp]: "sv_sent (session_halt sid end sv) = sv_sent sv"
  by (simp add: session_halt_def Let_def process_close_def server_remove_def put_session_def
      split: session_end.split option.split prod.split)

lemma sent_grows: "\<exists>new. sv_sent (server_step c sv) = sv_sent sv @ new"
proof (cases c)
  case (Message children env sid msg)
  have hello: "\<exists>new. sv_sent (process_hello children sid pid token sv) = sv_sent sv @ new" for pid token
    by (simp add: process_hello_def Let_def send_config_def put_session_def sent_grows_inject_children
        server_open_def split: prod.split bool.split)
  have "\<exists>new. sv_sent (case server_inject env pid sv of (verdict, sv1) \<Rightarrow>
      sv1\<lparr>sv_subpids := sv_subpids sv1 @ [(ucast pid, verdict_ok verdict)]\<rparr>) = sv_sent sv @ new" for pid
    using server_inject_fields(5) [of env pid sv] by (cases "server_inject env pid sv") simp
  with hello show ?thesis using Message by (simp add: process_injectee_def split: option.split)
next
  case (CloseClient pid)
  then show ?thesis by (simp add: server_close_def split: option.split)
qed (simp_all add: set_port_def set_proxy_def config_proxy_def clear_proxy_def set_proxy_credentials_def
    clear_proxy_credentials_def enable_log_def enable_subprocess_def broadcast_config_def Let_def split: option.split)

lemma newly_sent: "sv_sent (server_step c sv) = sv_sent sv @ newly_sent sv (server_step c sv)"
  using sent_grows [of c sv] by (auto simp: newly_sent_def)

lemma written_streams:
  "ws_writers (fold (config_write encode) sent ss sid) =
     ws_writers (ss sid) @ map (\<lambda>cfg. At_Length (encode (create_message_config cfg))) (configs_for sid sent) \<and>
   ws_wire (fold (config_write encode) sent ss sid) = ws_wire (ss sid)"
  by (induction sent arbitrary: ss) (simp_all add: config_write_def spawn_writer_def configs_for_def)

section \<open>One writer at a time\<close>

abbreviation config_frame :: "(InjectorMessage \<Rightarrow> u8 list) \<Rightarrow> InjectorConfig \<Rightarrow> u8 list" where
  "config_frame encode cfg \<equiv> async_write_message encode (create_message_config cfg)"

text \<open>
  At most one coroutine is inside \<open>async_write_message\<close>: the wire holds the frames of all
  configurations, the last one as far as that coroutine has come.
\<close>

definition one_writer :: "(InjectorMessage \<Rightarrow> u8 list) \<Rightarrow> InjectorConfig list \<Rightarrow> session_stream \<Rightarrow> bool" where
  "one_writer encode cfgs s \<longleftrightarrow>
     (case ws_writers s of
        [] \<Rightarrow> ws_wire s = concat (map (config_frame encode) cfgs)
      | [w] \<Rightarrow>
          cfgs \<noteq> [] \<and>
          (let buf = encode (create_message_config (last cfgs));
               done = concat (map (config_frame encode) (butlast cfgs)) in
           w = At_Length buf \<and> ws_wire s = done \<or>
           w = At_Body buf \<and> ws_wire s = done @ le_bytes32 (of_nat (length buf)))
      | _ \<Rightarrow> False)"

lemma one_writer_cases:
  assumes "one_writer encode cfgs s"
  obtains (idle) "ws_writers s = []" "ws_wire s = concat (map (config_frame encode) cfgs)"
  | (at_length) cfg before where "cfgs = before @ [cfg]" "ws_writers s = [At_Length (encode (create_message_config cfg))]"
      "ws_wire s = concat (map (config_frame encode) before)"
  | (at_body) cfg before where "cfgs = before @ [cfg]" "ws_writers s = [At_Body (encode (create_message_config cfg))]"
      "ws_wire s = concat (map (config_frame encode) before) @ le_bytes32 (of_nat (length (encode (create_message_config cfg))))"
proof -
  consider "ws_writers s = []" | w where "ws_writers s = [w]" "cfgs \<noteq> []"
    using assms by (auto simp: one_writer_def split: list.splits)
  then show thesis
  proof cases
    case 1
    then show ?thesis using assms idle by (simp add: one_writer_def)
  next
    case 2
    then obtain before cfg where "cfgs = before @ [cfg]" by (metis rev_exhaust)
    then show ?thesis using 2 assms at_length at_body by (auto simp: one_writer_def Let_def)
  qed
qed

lemma one_writer_resume:
  assumes "one_writer encode cfgs s"
  shows "one_writer encode cfgs (resume_writer i s)"
  using assms
proof (cases rule: one_writer_cases)
  case idle
  then show ?thesis using assms by (simp add: resume_writer_def)
next
  case (at_length cfg before)
  then show ?thesis using assms by (auto simp: resume_writer_def one_writer_def Let_def)
next
  case (at_body cfg before)
  then show ?thesis using assms
    by (auto simp: resume_writer_def one_writer_def Let_def async_write_message_def)
qed

lemma one_writer_step:
  assumes "one_writer encode (configs_for sid (sv_sent (cn_server n))) (cn_streams n sid)"
    and "spaced encode sid (e # es) n"
  shows "one_writer encode (configs_for sid (sv_sent (cn_server (net_step encode e n)))) (cn_streams (net_step encode e n) sid)"
proof (cases e)
  case (Resume sid' i)
  then show ?thesis using assms(1) by (auto intro: one_writer_resume)
next
  case (Command c)
  let ?new = "configs_for sid (newly_sent (cn_server n) (server_step c (cn_server n)))"
  have sent: "configs_for sid (sv_sent (server_step c (cn_server n))) = configs_for sid (sv_sent (cn_server n)) @ ?new"
    by (metis newly_sent configs_for_append)
  consider "?new = []" | cfg where "?new = [cfg]" "ws_writers (cn_streams n sid) = []"
    using assms(2) Command by (auto simp: Let_def length_Suc_conv)
  then show ?thesis
  proof cases
    case 1
    then have "fold (config_write encode) (newly_sent (cn_server n) (server_step c (cn_server n))) (cn_streams n) sid = cn_streams n sid"
      by (intro session_stream.equality) (simp_all add: written_streams)
    with 1 Command sent assms(1) show ?thesis by (simp add: Let_def)
  next
    case 2
    have "ws_wire (cn_streams n sid) = concat (map (config_frame encode) (configs_for sid (sv_sent (cn_server n))))"
      using assms(1) 2(2) by (simp add: one_writer_def)
    with 2 Command sent show ?thesis by (simp add: Let_def one_writer_def written_streams)
  qed
qed

lemma one_writer_run:
  assumes "one_writer encode (configs_for sid (sv_sent (cn_server n))) (cn_streams n sid)" and "spaced encode sid es n"
  shows "one_writer encode (configs_for sid (sv_sent (cn_server (net_run encode es n)))) (cn_streams (net_run encode es n) sid)"
  using assms
proof (induction es arbitrary: n)
  case (Cons e es)
  from Cons.prems(2) have "spaced encode sid es (net_step encode e n)" by simp
  from Cons.IH [OF one_writer_step [OF Cons.prems] this] show ?case by (simp add: net_run_def)
qed (simp add: net_run_def)

text \<open>C18: A capsule gets every configuration it was sent, whole and in order: when the server's
  commands send a session its configurations one at a time, each after the one before has been
  written, what has arrived once the last one is written reads as exactly those configurations,
  however the writes to other sessions fall between.\<close>

theorem spaced_configs_arrive:
  assumes "spaced encode sid es control_net_init"
    and "ws_writers (cn_streams (net_run encode es control_net_init) sid) = []"
    and "\<forall>cfg \<in> set (configs_for sid (sv_sent (cn_server (net_run encode es control_net_init)))).
      (\<exists>r. decode (encode (create_message_config cfg)) = Some (create_message_config cfg, r)) \<and>
      length (encode (create_message_config cfg)) < 2 ^ 31"
  shows "let n = net_run encode es control_net_init; cfgs = configs_for sid (sv_sent (cn_server n)) in
    read_messages decode (length cfgs) (ws_wire (cn_streams n sid)) = Some (map create_message_config cfgs)"
proof -
  let ?n = "net_run encode es control_net_init"
  let ?cfgs = "configs_for sid (sv_sent (cn_server ?n))"
  have "one_writer encode ?cfgs (cn_streams ?n sid)"
    using assms(1) by (intro one_writer_run)
      (simp_all add: one_writer_def control_net_init_def server_init_def session_stream_init_def)
  then have "ws_wire (cn_streams ?n sid) = concat (map (async_write_message encode) (map create_message_config ?cfgs))"
    using assms(2) by (simp add: one_writer_def comp_def)
  moreover have "read_messages decode (length (map create_message_config ?cfgs))
      (concat (map (async_write_message encode) (map create_message_config ?cfgs)) @ []) = Some (map create_message_config ?cfgs)"
    using assms(3) by (intro read_frames) simp
  ultimately show ?thesis by (simp add: Let_def)
qed

definition demo_encode :: "InjectorMessage \<Rightarrow> u8 list" where
  "demo_encode m = [if (case jm_config m of None \<Rightarrow> None | Some c \<Rightarrow> cf_log c) = Some True then 1 else 0]"

definition demo_decode :: "u8 list \<Rightarrow> (InjectorMessage \<times> u8 list) option" where
  "demo_decode b = Some (create_message_config ((sv_config server_init)\<lparr>cf_log := (if hd b = 1 then Some True else None)\<rparr>), [])"

definition demo_net :: "net_event list" where
  "demo_net = map Command demo_setup @ [Resume 1 0, Resume 1 0, Command (EnableLog True), Resume 1 0, Resume 1 0]"

lemma demo_net_states:
  "spaced demo_encode 1 demo_net control_net_init"
  "ws_writers (cn_streams (net_run demo_encode demo_net control_net_init) 1) = []"
  "configs_for 1 (sv_sent (cn_server (net_run demo_encode demo_net control_net_init))) =
    [sv_config server_init, (sv_config server_init)\<lparr>cf_log := Some True\<rparr>]"
  by code_simp+

lemma demo_coder:
  "demo_decode (demo_encode (create_message_config (sv_config server_init))) = Some (create_message_config (sv_config server_init), [])"
  "demo_decode (demo_encode (create_message_config ((sv_config server_init)\<lparr>cf_log := Some True\<rparr>))) =
    Some (create_message_config ((sv_config server_init)\<lparr>cf_log := Some True\<rparr>), [])"
  by code_simp+

lemma demo_length: "length (demo_encode m) = 1"
  by (simp add: demo_encode_def)

lemma spaced_configs_arrive_witness:
  "let n = net_run demo_encode demo_net control_net_init; cfgs = configs_for 1 (sv_sent (cn_server n)) in
    read_messages demo_decode (length cfgs) (ws_wire (cn_streams n 1)) = Some (map create_message_config cfgs)"
proof (rule spaced_configs_arrive)
  show "\<forall>cfg \<in> set (configs_for 1 (sv_sent (cn_server (net_run demo_encode demo_net control_net_init)))).
      (\<exists>r. demo_decode (demo_encode (create_message_config cfg)) = Some (create_message_config cfg, r)) \<and>
      length (demo_encode (create_message_config cfg)) < 2 ^ 31"
    unfolding demo_net_states using demo_coder by (simp add: demo_length)
qed (rule demo_net_states)+

section \<open>Two writers at once\<close>

text \<open>Each is suspended at its length when the other's is written: the lengths go first.\<close>

lemma overlapped_writes:
  assumes "ws_writers s = [At_Length a, At_Length b]"
  shows "resume_writer 0 (resume_writer 0 (resume_writer 1 (resume_writer 0 s))) =
    \<lparr>ws_wire = ws_wire s @ le_bytes32 (of_nat (length a)) @ le_bytes32 (of_nat (length b)) @ a @ b, ws_writers = []\<rparr>"
  using assms by (cases s) (simp add: resume_writer_def)

text \<open>The capsule hands its coder the second length and a cut-off first body, and loses the frame.\<close>

lemma overlapped_writes_misread:
  assumes "4 \<le> length a" and "length a < 2 ^ 31"
  shows "async_read_message decode (le_bytes32 (of_nat (length a)) @ le_bytes32 (of_nat (length b)) @ a @ b) =
    (case decode (le_bytes32 (of_nat (length b)) @ take (length a - 4) a) of
       None \<Rightarrow> None
     | Some (m, _) \<Rightarrow> Some (m, drop (length a - 4) a @ b))"
proof -
  have "sint (of_nat (length a) :: u32) = int (length a)"
    using assms(2) by (simp add: signed_of_nat signed_take_bit_int_eq_self)
  then show ?thesis
    using assms(1) by (simp add: async_read_message_def Let_def split: option.split)
qed

text \<open>
  The proxy switch of the window does exactly that: it makes two calls back to back, and both
  coroutines stand at their first write.
\<close>

lemma proxy_click_overlaps:
  assumes click: "proxy_click make_address True panel = Inr cmds"
    and one: "sv_clients (cn_server n) = [(pid, sid)]" and idle: "ws_writers (cn_streams n sid) = []"
  shows "\<exists>a b. ws_writers (cn_streams (net_run encode (map Command cmds) n) sid) =
    [At_Length (encode (create_message_config a)), At_Length (encode (create_message_config b))]"
proof -
  obtain v ip user pass where cmds: "cmds = [SetProxy ip v, panel_credentials user pass]"
    using click by (auto simp: proxy_click_def Let_def split: if_splits option.splits)
  have new: "\<exists>cfg. newly_sent sv (server_step c sv) = [(sid, cfg)] \<and> sv_clients (server_step c sv) = [(pid, sid)]"
    if "c = SetProxy ip v \<or> c = panel_credentials user pass" "sv_clients sv = [(pid, sid)]" for c sv
    using that by (auto simp: newly_sent_def panel_credentials_def set_proxy_def config_proxy_def clear_proxy_credentials_def
        set_proxy_credentials_def broadcast_config_def clients_snapshot_def Let_def)
  let ?sv = "cn_server n"
  let ?sv' = "server_step (SetProxy ip v) ?sv"
  obtain a where a: "newly_sent ?sv ?sv' = [(sid, a)]" "sv_clients ?sv' = [(pid, sid)]"
    using new [of "SetProxy ip v"] one by blast
  obtain b where b: "newly_sent ?sv' (server_step (panel_credentials user pass) ?sv') = [(sid, b)]"
    using new [of "panel_credentials user pass"] a(2) by blast
  show ?thesis
    using cmds a(1) b idle
    by (auto simp del: server_step.simps simp: net_run_def Let_def config_write_def spawn_writer_def)
qed

end
