(* ===== verification/Remote_Load.thy ===== *)
theory Remote_Load
  imports Injector Proxy_Endpoint
begin

unbundle bit_operations_syntax

text \<open>
  The Windows resources behind an injection: the remote allocation with its reads and writes and the
  paths of src/common/winraii.hpp, the calls \<open>load_into\<close> makes on the target in their order, the
  search for the capsule and the WoW64 helper of src/injector/injector.hpp, and the helper itself,
  src/wow64/address_dumper.cpp. File existence, process creation and the answers of Windows are
  parameters.
\<close>

section \<open>Remote memory\<close>

type_synonym memory = "nat \<Rightarrow> u8"

definition put_bytes :: "nat \<Rightarrow> u8 list \<Rightarrow> memory \<Rightarrow> memory" where
  "put_bytes addr bs mem = (\<lambda>a. if addr \<le> a \<and> a < addr + length bs then bs ! (a - addr) else mem a)"

text \<open>
  \<open>ok\<close> is the answer of WriteProcessMemory or ReadProcessMemory. \<open>buf\<close> holds at least n octets; an
  allocation that failed has no address to write to.
\<close>

definition vm_write :: "bool \<Rightarrow> virtual_memory \<Rightarrow> u8 list \<Rightarrow> nat \<Rightarrow> memory \<Rightarrow> nat option \<times> memory" where
  "vm_write ok vm buf n mem =
     (case vm_addr vm of
        None \<Rightarrow> (None, mem)
      | Some addr \<Rightarrow> if ok then (Some n, put_bytes addr (take n buf) mem) else (None, mem))"

definition vm_read :: "bool \<Rightarrow> virtual_memory \<Rightarrow> nat \<Rightarrow> memory \<Rightarrow> u8 list option" where
  "vm_read ok vm n mem =
     (case vm_addr vm of
        None \<Rightarrow> None
      | Some addr \<Rightarrow> if ok then Some (map (\<lambda>i. mem (addr + i)) [0..<n]) else None)"

text \<open>What was written is read back.\<close>

lemma vm_read_write:
  assumes "vm_write True vm buf n mem = (Some k, mem')" and "length buf = n"
  shows "vm_read True vm n mem' = Some buf"
  using assms by (auto simp: vm_write_def vm_read_def put_bytes_def intro: nth_equalityI split: option.splits)

text \<open>UTF-16 on the little-endian target.\<close>

definition wide_bytes :: "wchar list \<Rightarrow> u8 list" where
  "wide_bytes ws = concat (map (\<lambda>c. [ucast c, ucast (drop_bit 8 c)]) ws)"

definition wide_at :: "memory \<Rightarrow> nat \<Rightarrow> wchar" where
  "wide_at mem a = ucast (mem a) OR push_bit 8 (ucast (mem (a + 1)))"

text \<open>A function that takes a wide string at the address reads s: its units, then the terminator.\<close>

definition wide_string_at :: "memory \<Rightarrow> nat \<Rightarrow> wchar list \<Rightarrow> bool" where
  "wide_string_at mem a s \<longleftrightarrow> list_all (\<lambda>i. wide_at mem (a + 2 * i) = (s @ [0]) ! i) [0..<length s + 1]"

lemma wide_bytes_length [simp]: "length (wide_bytes ws) = 2 * length ws"
  by (induction ws) (simp_all add: wide_bytes_def)

lemma wide_bytes_nth:
  "i < length ws \<Longrightarrow> wide_bytes ws ! (2 * i) = ucast (ws ! i) \<and> wide_bytes ws ! (2 * i + 1) = ucast (drop_bit 8 (ws ! i))"
proof (induction ws arbitrary: i)
  case (Cons w ws)
  then show ?case by (cases i) (simp_all add: wide_bytes_def)
qed simp

lemma word16_octets: "(ucast (ucast c :: u8) :: u16) OR push_bit 8 (ucast (ucast (drop_bit 8 c) :: u8)) = c"
proof (rule bit_word_eqI)
  fix n assume "n < LENGTH(16)"
  then consider "n < 8" | k where "n = 8 + k" "k < 8" by (cases "n < 8") (auto dest!: le_Suc_ex simp: not_less)
  then show "bit ((ucast (ucast c :: u8) :: u16) OR push_bit 8 (ucast (ucast (drop_bit 8 c) :: u8))) n = bit c n"
    by cases (auto simp: bit_simps)
qed

text \<open>The bytes \<open>load_into\<close> writes, the terminator behind \<open>filename.data()\<close> included, are the string.\<close>

lemma path_written:
  assumes "vm_addr vm = Some addr"
    and "vm_write True vm (wide_bytes (filename @ [0])) ((length filename + 1) * 2) mem = (Some k, mem')"
  shows "wide_string_at mem' addr filename"
proof -
  let ?ws = "filename @ [0]"
  have mem': "mem' = put_bytes addr (wide_bytes ?ws) mem" using assms by (simp add: vm_write_def)
  have "wide_at mem' (addr + 2 * i) = ?ws ! i" if "i < length filename + 1" for i
  proof -
    have "mem' (addr + 2 * i) = wide_bytes ?ws ! (2 * i)" "mem' (addr + 2 * i + 1) = wide_bytes ?ws ! (2 * i + 1)"
      using that by (simp_all add: mem' put_bytes_def)
    then show ?thesis using wide_bytes_nth [of i ?ws] that by (simp add: wide_at_def word16_octets)
  qed
  then show ?thesis by (simp add: wide_string_at_def list_all_iff)
qed

section \<open>The calls of a remote load\<close>

datatype remote_call =
    Virtual_Alloc nat
  | Write_Memory nat "u8 list"
  | Remote_Thread u64 nat
  | Wait_Thread
  | Ask_Resident
  | Ask_Exit_Code
  | Virtual_Free nat
  | Forget_Bootstrap

definition free_calls :: "virtual_memory \<Rightarrow> remote_call list" where
  "free_calls vm = (case vm_addr vm of None \<Rightarrow> [] | Some addr \<Rightarrow> [Virtual_Free addr])"

definition current_load_library :: "u64 \<Rightarrow> u64 \<Rightarrow> bool \<Rightarrow> u64" where
  "current_load_library load_library load_library_wow64 isWoW64 = (if isWoW64 then load_library_wow64 else load_library)"

text \<open>
  \<open>load_into\<close> as what it asks of the system, the destructor of \<open>mem\<close> included: \<open>allocated\<close> is the
  address, the answers are those \<open>load_into\<close> has.
\<close>

definition load_calls :: "wchar list \<Rightarrow> u64 \<Rightarrow> nat option \<Rightarrow> remote_load \<Rightarrow> remote_call list" where
  "load_calls filename loader allocated rl =
     (let mem = virtual_memory_new allocated in
      Virtual_Alloc ((length filename + 1) * 2) #
      (case vm_addr mem of
         None \<Rightarrow> Forget_Bootstrap # free_calls mem
       | Some addr \<Rightarrow>
           Write_Memory addr (wide_bytes (filename @ [0])) #
           (if \<not> rl_written rl then Forget_Bootstrap # free_calls mem
            else if loader = 0 then Forget_Bootstrap # free_calls mem
            else Remote_Thread loader addr #
              (if \<not> rl_thread rl then Forget_Bootstrap # free_calls mem
               else Wait_Thread #
                 (if \<not> rl_finished rl then
                    Ask_Resident #
                    (if rl_resident rl then Wait_Thread # free_calls mem
                     else free_calls mem @ Forget_Bootstrap # free_calls (vm_free mem))
                  else Ask_Exit_Code #
                    (if rl_exit_code rl = None \<or> rl_exit_code rl = Some 0
                     then free_calls mem @ Forget_Bootstrap # free_calls (vm_free mem)
                     else free_calls mem))))))"

definition touches :: "nat \<Rightarrow> remote_call \<Rightarrow> bool" where
  "touches addr c \<longleftrightarrow> (\<exists>bs. c = Write_Memory addr bs) \<or> (\<exists>f. c = Remote_Thread f addr)"

lemmas vm_defs = virtual_memory_new_def vm_free_def free_calls_def

text \<open>The bootstrap is rolled back exactly where \<open>load_into\<close> says no.\<close>

lemma load_calls_rollback:
  assumes "rl_allocated rl = (allocated \<noteq> None)" and "rl_loader rl = (loader \<noteq> 0)"
  shows "Forget_Bootstrap \<in> set (load_calls filename loader allocated rl) \<longleftrightarrow>
    \<not> fst (fst (load_into pid token rl already b))"
  using assms
  by (cases allocated) (auto simp: load_calls_def vm_defs load_into_success Let_def split: if_splits)

text \<open>C20: Every remote load gives the memory it allocated in the target back, once, whatever happens on
  the way, and nothing is written there and no thread is started on it afterwards; a load that
  could not allocate frees nothing.\<close>

theorem remote_memory_freed_once:
  "case allocated of
     None \<Rightarrow> \<not> list_ex (\<lambda>c. \<exists>a. c = Virtual_Free a) (load_calls filename loader allocated rl)
   | Some addr \<Rightarrow>
       (\<exists>before after. load_calls filename loader allocated rl = before @ Virtual_Free addr # after \<and>
         \<not> list_ex (\<lambda>c. \<exists>a. c = Virtual_Free a) (before @ after) \<and> \<not> list_ex (touches addr) after)"
proof (cases allocated)
  case None
  then show ?thesis by (simp add: load_calls_def vm_defs)
next
  case (Some addr)
  have last: "\<exists>before after. pre @ Virtual_Free addr # post = before @ Virtual_Free addr # after \<and>
      \<not> list_ex (\<lambda>c. \<exists>a. c = Virtual_Free a) (before @ after) \<and> \<not> list_ex (touches addr) after"
    if "\<not> list_ex (\<lambda>c. \<exists>a. c = Virtual_Free a) (pre @ post)" "\<not> list_ex (touches addr) post" for pre post
    using that by blast
  let ?a = "[Virtual_Alloc ((length filename + 1) * 2), Write_Memory addr (wide_bytes (filename @ [0]))]"
  let ?t = "?a @ [Remote_Thread loader addr]"
  consider "load_calls filename loader allocated rl = ?a @ [Forget_Bootstrap, Virtual_Free addr]"
    | "load_calls filename loader allocated rl = ?t @ [Forget_Bootstrap, Virtual_Free addr]"
    | "load_calls filename loader allocated rl = ?t @ [Wait_Thread, Ask_Resident, Wait_Thread, Virtual_Free addr]"
    | "load_calls filename loader allocated rl = ?t @ [Wait_Thread, Ask_Resident, Virtual_Free addr, Forget_Bootstrap]"
    | "load_calls filename loader allocated rl = ?t @ [Wait_Thread, Ask_Exit_Code, Virtual_Free addr, Forget_Bootstrap]"
    | "load_calls filename loader allocated rl = ?t @ [Wait_Thread, Ask_Exit_Code, Virtual_Free addr]"
    using Some by (cases "rl_written rl"; cases "loader = 0"; cases "rl_thread rl"; cases "rl_finished rl"; cases "rl_resident rl";
      cases "rl_exit_code rl = None \<or> rl_exit_code rl = Some 0"; simp add: load_calls_def vm_defs Let_def)
  then have "\<exists>before after. load_calls filename loader allocated rl = before @ Virtual_Free addr # after \<and>
         \<not> list_ex (\<lambda>c. \<exists>a. c = Virtual_Free a) (before @ after) \<and> \<not> list_ex (touches addr) after"
  proof cases
    case 1
    then show ?thesis using last [of "?a @ [Forget_Bootstrap]" "[]"] by simp
  next
    case 2
    then show ?thesis using last [of "?t @ [Forget_Bootstrap]" "[]"] by simp
  next
    case 3
    then show ?thesis using last [of "?t @ [Wait_Thread, Ask_Resident, Wait_Thread]" "[]"] by simp
  next
    case 4
    then show ?thesis using last [of "?t @ [Wait_Thread, Ask_Resident]" "[Forget_Bootstrap]"] by (simp add: touches_def)
  next
    case 5
    then show ?thesis using last [of "?t @ [Wait_Thread, Ask_Exit_Code]" "[Forget_Bootstrap]"] by (simp add: touches_def)
  next
    case 6
    then show ?thesis using last [of "?t @ [Wait_Thread, Ask_Exit_Code]" "[]"] by simp
  qed
  then show ?thesis using Some by simp
qed

section \<open>Paths\<close>

text \<open>The module's file name as the fixed buffer of 1024 units holds it.\<close>

definition get_current_filename :: "wchar list \<Rightarrow> wchar list" where
  "get_current_filename module_path = takeWhile (\<lambda>c. c \<noteq> 0) (take 1024 module_path)"

text \<open>\<open>query process size\<close> is QueryFullProcessImageNameW with a buffer of that size; no process, no handle.\<close>

definition get_process_filepath :: "('h option \<Rightarrow> nat \<Rightarrow> wchar list option) \<Rightarrow> (DWORD \<Rightarrow> 'h option) \<Rightarrow> DWORD \<Rightarrow> wchar list option" where
  "get_process_filepath query open_process pid = (let size = 260 in query (open_process pid) size)"

text \<open>\<open>std::filesystem::path::replace_filename\<close>: the part behind the last separator is exchanged.\<close>

definition replace_filename :: "wchar list \<Rightarrow> string \<Rightarrow> wchar list" where
  "replace_filename path name = take (length path - length (base_name path)) path @ map widen name"

definition find_injectee :: "(wchar list \<Rightarrow> bool) \<Rightarrow> wchar list \<Rightarrow> bool \<Rightarrow> wchar list option" where
  "find_injectee exists self_binary_path isWoW64 =
     (let path = replace_filename self_binary_path (if isWoW64 then injectee_wow64_filename else injectee_filename) in
      if \<not> exists path then None else Some path)"

definition port_mapping_name :: string where
  "port_mapping_name = ''ENCAPSULE_PORT_IPC_''"

definition get_port_mapping_name :: "DWORD \<Rightarrow> string" where
  "get_port_mapping_name pid = port_mapping_name @ decimal (unat pid)"

lemma base_name_suffix: "drop (length path - length (base_name path)) path = base_name path"
proof -
  have "path = rev (dropWhile (\<lambda>c. \<not> path_separator c) (rev path)) @ base_name path"
    unfolding base_name_def by (metis rev_append rev_rev_ident takeWhile_dropWhile_id)
  then show ?thesis by (metis append_eq_conv_conj length_append add_diff_cancel_right')
qed

lemma base_name_append:
  assumes "\<not> list_ex path_separator name" shows "base_name (dir @ 0x5C # name) = name"
proof -
  have "\<And>c. c \<in> set (rev name) \<Longrightarrow> \<not> path_separator c" using assms by (auto simp: list_ex_iff)
  from takeWhile_append2 [of "rev name" "\<lambda>c. \<not> path_separator c" "0x5C # rev dir", OF this]
  show ?thesis by (simp add: base_name_def path_separator_def)
qed

text \<open>The capsule is looked for beside the tool, under the name of the target's bitness.\<close>

lemma capsule_beside_tool:
  assumes "\<not> list_ex path_separator exe"
  shows "find_injectee exists (dir @ 0x5C # exe) wow =
    (let path = dir @ 0x5C # map widen (if wow then ''encapsule-injectee32.dll'' else ''encapsule-injectee.dll'')
     in if exists path then Some path else None)"
  using base_name_append [OF assms, of dir]
  by (simp add: find_injectee_def replace_filename_def injectee_filename_def injectee_wow64_filename_def Let_def)

text \<open>No two processes share a mapping name.\<close>

lemma mapping_name_inj: "get_port_mapping_name pid = get_port_mapping_name pid' \<longleftrightarrow> pid = pid'"
proof
  assume "get_port_mapping_name pid = get_port_mapping_name pid'"
  then have "port_digits 0 (decimal (unat pid)) = port_digits 0 (decimal (unat pid'))"
    by (simp add: get_port_mapping_name_def)
  then show "pid = pid'" by (simp add: port_digits_decimal)
qed simp

section \<open>The WoW64 helper\<close>

definition wow64_address_dumper_filename :: string where
  "wow64_address_dumper_filename = ''wow64-address-dumper.exe''"

text \<open>
  \<open>launch\<close> is CreateProcessW: 0 when it fails, and what it wrote of the process. \<open>exit_code\<close> waits for
  the process and is \<open>None\<close> when its exit code cannot be read.
\<close>

definition create_process :: "(wchar list \<Rightarrow> DWORD \<Rightarrow> int \<times> 'p) \<Rightarrow> wchar list \<Rightarrow> DWORD \<Rightarrow> 'p option" where
  "create_process launch command creation_flags =
     (case launch command creation_flags of (ok, process_info) \<Rightarrow> if ok = 0 then None else Some process_info)"

definition create_process_utf8 ::
  "(string \<Rightarrow> wchar list option) \<Rightarrow> (wchar list \<Rightarrow> DWORD \<Rightarrow> int \<times> 'p) \<Rightarrow> string \<Rightarrow> DWORD \<Rightarrow> 'p option" where
  "create_process_utf8 to_wide_char launch path creation_flags =
     (let wpath = utf8_decode to_wide_char path in create_process launch wpath creation_flags)"

definition CREATE_NO_WINDOW :: DWORD where
  "CREATE_NO_WINDOW = 0x08000000"

definition get_wow64_load_library ::
  "(wchar list \<Rightarrow> bool) \<Rightarrow> (wchar list \<Rightarrow> DWORD \<Rightarrow> int \<times> 'p) \<Rightarrow> ('p \<Rightarrow> u32 option) \<Rightarrow> wchar list \<Rightarrow> u64 option" where
  "get_wow64_load_library exists launch exit_code self =
     (let path = replace_filename self wow64_address_dumper_filename in
      if \<not> exists path then None
      else (case create_process launch path CREATE_NO_WINDOW of
              None \<Rightarrow> None
            | Some pi \<Rightarrow> (case exit_code pi of None \<Rightarrow> None | Some ec \<Rightarrow> Some (ucast ec))))"

definition load_library_wow64 ::
  "(wchar list \<Rightarrow> bool) \<Rightarrow> (wchar list \<Rightarrow> DWORD \<Rightarrow> int \<times> 'p) \<Rightarrow> ('p \<Rightarrow> u32 option) \<Rightarrow> wchar list \<Rightarrow> u64" where
  "load_library_wow64 exists launch exit_code self =
     (case get_wow64_load_library exists launch exit_code self of None \<Rightarrow> 0 | Some f \<Rightarrow> f)"

text \<open>\<open>main\<close> of the helper, a 32-bit program; \<open>get_proc\<close> and \<open>get_module\<close> are GetProcAddress and GetModuleHandleA.\<close>

definition address_dumper_main :: "('m \<Rightarrow> string \<Rightarrow> u32) \<Rightarrow> (string \<Rightarrow> 'm) \<Rightarrow> string list \<Rightarrow> u32" where
  "address_dumper_main get_proc get_module argv =
     (let lib = (if length argv > 2 then argv ! 2 else ''kernel32.dll'');
          func = (if length argv > 1 then argv ! 1 else ''LoadLibraryW'')
      in get_proc (get_module lib) func)"

text \<open>
  The helper as the process that is started, known by its command line; \<open>argv_of\<close> is how its runtime
  splits that line.
\<close>

definition dumper_exit ::
  "('m \<Rightarrow> string \<Rightarrow> u32) \<Rightarrow> (string \<Rightarrow> 'm) \<Rightarrow> (wchar list \<Rightarrow> string list) \<Rightarrow> wchar list \<Rightarrow> u32 option" where
  "dumper_exit get_proc get_module argv_of command = Some (address_dumper_main get_proc get_module (argv_of command))"

lemmas dumper_defs = load_library_wow64_def get_wow64_load_library_def create_process_def dumper_exit_def address_dumper_main_def

text \<open>Without a blank in the path the address comes back whole, one in the upper half included.\<close>

lemma dumper_address:
  assumes "exists (replace_filename self wow64_address_dumper_filename)"
    and "length (argv_of (replace_filename self wow64_address_dumper_filename)) = 1"
  shows "load_library_wow64 exists (\<lambda>command flags. (1, command)) (dumper_exit get_proc get_module argv_of) self =
    ucast (get_proc (get_module ''kernel32.dll'') ''LoadLibraryW'')"
  using assms by (simp add: dumper_defs)

text \<open>
  The command line is the bare path. When the tool lies in a directory with a blank in its name, the
  helper takes the rest of its own path for the name of the function, does not find it, and the
  tool is left without an address for its 32-bit targets.
\<close>

lemma blank_in_path_loses_wow64:
  assumes "exists (replace_filename self wow64_address_dumper_filename)"
    and "argv_of (replace_filename self wow64_address_dumper_filename) = [prog, rest]"
    and "get_proc (get_module ''kernel32.dll'') rest = 0"
  shows "load_library_wow64 exists (\<lambda>command flags. (1, command)) (dumper_exit get_proc get_module argv_of) self = 0"
    and "\<not> fst (fst (load_into pid token
      (rl\<lparr>rl_loader := current_load_library f
         (load_library_wow64 exists (\<lambda>command flags. (1, command)) (dumper_exit get_proc get_module argv_of) self) True \<noteq> 0\<rparr>)
      already b))"
  using assms by (simp_all add: dumper_defs current_load_library_def load_into_success)

text \<open>A path of 260 units or more does not fit the buffer a process is asked for its path with.\<close>

lemma long_path_unseen:
  assumes "\<And>h size. length image_path \<ge> size \<Longrightarrow> query h size = None" and "length image_path \<ge> 260"
  shows "get_process_filepath query open_process pid = None"
  using assms by (simp add: get_process_filepath_def)

text \<open>
  The remote thread may still be inside LoadLibraryW when the five seconds are over. When the capsule
  is not in the module list yet, the path it reads is freed at once; the other branch waits.
\<close>

lemma freed_under_running_loader:
  assumes "rl_written rl" "loader \<noteq> 0" "rl_thread rl" "\<not> rl_finished rl" "\<not> rl_resident rl"
  shows "load_calls filename loader (Some addr) rl =
    [Virtual_Alloc ((length filename + 1) * 2), Write_Memory addr (wide_bytes (filename @ [0])), Remote_Thread loader addr,
     Wait_Thread, Ask_Resident, Virtual_Free addr, Forget_Bootstrap]"
  using assms by (simp add: load_calls_def vm_defs Let_def)

end
