(* ===== verification/Hook_Install.thy ===== *)
theory Hook_Install
  imports Hook_Env
begin

text \<open>
  src/common/minhook.hpp and the part of src/injectee/hook.hpp that finds ConnectEx: the thin wrapper
  over MinHook, the \<open>original\<close> slot of each hook, and the installation of the whole set on MinHook's
  own state. MinHook is third-party code, a parameter; its documented behaviour is \<open>minhook_law\<close>.
  Function addresses are 64-bit words, null is 0, MH_OK is 0.
\<close>

section \<open>The wrapper\<close>

record 'm min_hook =
  mh_initialize :: "'m \<Rightarrow> u32 \<times> 'm"
  mh_uninitialize :: "'m \<Rightarrow> u32 \<times> 'm"
  mh_enable_hook :: "u64 \<Rightarrow> 'm \<Rightarrow> u32 \<times> 'm"
  mh_disable_hook :: "u64 \<Rightarrow> 'm \<Rightarrow> u32 \<times> 'm"
  mh_create_hook :: "u64 \<Rightarrow> u64 \<Rightarrow> 'm \<Rightarrow> (u32 \<times> u64 option) \<times> 'm"
  mh_remove_hook :: "u64 \<Rightarrow> 'm \<Rightarrow> u32 \<times> 'm"

definition status_ok :: "u32 \<Rightarrow> bool" where
  "status_ok v \<longleftrightarrow> v = 0"

definition status_error :: "u32 \<Rightarrow> bool" where
  "status_error v \<longleftrightarrow> v \<noteq> 0"

definition minhook_init :: "'m min_hook \<Rightarrow> 'm \<Rightarrow> u32 \<times> 'm" where
  "minhook_init mh m = mh_initialize mh m"

definition minhook_deinit :: "'m min_hook \<Rightarrow> 'm \<Rightarrow> u32 \<times> 'm" where
  "minhook_deinit mh m = mh_uninitialize mh m"

definition minhook_enable :: "'m min_hook \<Rightarrow> u64 \<Rightarrow> 'm \<Rightarrow> u32 \<times> 'm" where
  "minhook_enable mh api m = mh_enable_hook mh api m"

definition minhook_disable :: "'m min_hook \<Rightarrow> u64 \<Rightarrow> 'm \<Rightarrow> u32 \<times> 'm" where
  "minhook_disable mh api m = mh_disable_hook mh api m"

text \<open>MH_ALL_HOOKS is the null pointer.\<close>

definition all_hooks_target :: u64 where
  "all_hooks_target = 0"

definition minhook_enable_all :: "'m min_hook \<Rightarrow> 'm \<Rightarrow> u32 \<times> 'm" where
  "minhook_enable_all mh m = minhook_enable mh all_hooks_target m"

definition minhook_disable_all :: "'m min_hook \<Rightarrow> 'm \<Rightarrow> u32 \<times> 'm" where
  "minhook_disable_all mh m = minhook_disable mh all_hooks_target m"

text \<open>\<open>original\<close> is an out-parameter: written when MinHook writes it.\<close>

definition minhook_create :: "'m min_hook \<Rightarrow> u64 \<Rightarrow> u64 \<Rightarrow> u64 \<Rightarrow> 'm \<Rightarrow> (u32 \<times> u64) \<times> 'm" where
  "minhook_create mh target detour original m =
     (case mh_create_hook mh target detour m of
        ((status, None), m') \<Rightarrow> ((status, original), m')
      | ((status, Some trampoline), m') \<Rightarrow> ((status, trampoline), m'))"

definition minhook_remove :: "'m min_hook \<Rightarrow> u64 \<Rightarrow> 'm \<Rightarrow> u32 \<times> 'm" where
  "minhook_remove mh target m = mh_remove_hook mh target m"

section \<open>The hooks of the capsule\<close>

text \<open>\<open>original\<close> of each hook, the pointer \<open>ConnectEx\<close>, and \<open>wsa_started\<close>.\<close>

record 'm hook_statics =
  hs_minhook :: 'm
  hs_original :: "hook_name \<Rightarrow> u64"
  hs_connect_ex :: u64
  hs_wsa_started :: bool

definition hook_statics_init :: "'m \<Rightarrow> 'm hook_statics" where
  "hook_statics_init m = \<lparr>hs_minhook = m, hs_original = (\<lambda>_. 0), hs_connect_ex = 0, hs_wsa_started = False\<rparr>"

text \<open>
  \<open>syscall\<close> and \<open>detour\<close> are the addresses the templates are instantiated with. \<open>started\<close> is what
  WSAStartup returns and \<open>extension\<close> the pointer WSAIoctl writes, null when it writes none.
\<close>

record hook_addresses =
  ha_syscall :: "hook_name \<Rightarrow> u64"
  ha_detour :: "hook_name \<Rightarrow> u64"
  ha_started :: int
  ha_extension :: u64

definition GetConnectEx :: "hook_addresses \<Rightarrow> 'm hook_statics \<Rightarrow> u64 \<times> 'm hook_statics" where
  "GetConnectEx ha hs =
     (if ha_started ha \<noteq> 0 then (0, hs) else (ha_extension ha, hs\<lparr>hs_wsa_started := True\<rparr>))"

definition api_create :: "'m min_hook \<Rightarrow> u64 \<Rightarrow> u64 \<Rightarrow> hook_name \<Rightarrow> 'm hook_statics \<Rightarrow> u32 \<times> 'm hook_statics" where
  "api_create mh target detour h hs =
     (case minhook_create mh target detour (hs_original hs h) (hs_minhook hs) of
        ((status, original), m) \<Rightarrow> (status, hs\<lparr>hs_minhook := m, hs_original := (hs_original hs)(h := original)\<rparr>))"

definition connect_ex_create :: "'m min_hook \<Rightarrow> hook_addresses \<Rightarrow> 'm hook_statics \<Rightarrow> u32 \<times> 'm hook_statics" where
  "connect_ex_create mh ha hs =
     (let (target, hs1) = GetConnectEx ha hs
      in api_create mh target (ha_detour ha Hook_ConnectEx) Hook_ConnectEx (hs1\<lparr>hs_connect_ex := target\<rparr>))"

definition create_hook :: "'m min_hook \<Rightarrow> hook_addresses \<Rightarrow> hook_name \<Rightarrow> 'm hook_statics \<Rightarrow> u32 \<times> 'm hook_statics" where
  "create_hook mh ha h hs =
     (if h = Hook_ConnectEx then connect_ex_create mh ha hs else api_create mh (ha_syscall ha h) (ha_detour ha h) h hs)"

definition remove_hook :: "'m min_hook \<Rightarrow> hook_addresses \<Rightarrow> hook_name \<Rightarrow> 'm hook_statics \<Rightarrow> 'm hook_statics" where
  "remove_hook mh ha h hs =
     hs\<lparr>hs_minhook := snd (minhook_remove mh (if h = Hook_ConnectEx then hs_connect_ex hs else ha_syscall ha h) (hs_minhook hs))\<rparr>"

text \<open>\<open>create_hooks<T, Ts...>\<close> with its unrolling.\<close>

fun install_hooks :: "'m min_hook \<Rightarrow> hook_addresses \<Rightarrow> hook_name list \<Rightarrow> 'm hook_statics \<Rightarrow> u32 \<times> 'm hook_statics" where
  "install_hooks mh ha [] hs = (0, hs)"
| "install_hooks mh ha (t # ts) hs =
     (let (status, hs1) = create_hook mh ha t hs in
      if status_error status then (status, hs1)
      else let (status', hs2) = install_hooks mh ha ts hs1 in
        if status_error status' then (status', remove_hook mh ha t hs2) else (0, hs2))"

section \<open>Against MinHook's documentation\<close>

text \<open>
  \<open>hooked m\<close> are the targets with a hook. A target that is not null, can be patched and has no hook
  yet gets one, and the trampoline written is not null; any other is refused and nothing changes;
  removal forgets a target.
\<close>

definition minhook_law :: "'m min_hook \<Rightarrow> ('m \<Rightarrow> u64 set) \<Rightarrow> (u64 \<Rightarrow> bool) \<Rightarrow> bool" where
  "minhook_law mh hooked patchable \<longleftrightarrow>
     (\<forall>target detour m.
        (if target \<noteq> 0 \<and> patchable target \<and> target \<notin> hooked m
         then \<exists>t m'. t \<noteq> 0 \<and> mh_create_hook mh target detour m = ((0, Some t), m') \<and> hooked m' = insert target (hooked m)
         else \<exists>e m'. e \<noteq> 0 \<and> mh_create_hook mh target detour m = ((e, None), m') \<and> hooked m' = hooked m)) \<and>
     (\<forall>target m. hooked (snd (mh_remove_hook mh target m)) = hooked m - {target})"

definition hook_target :: "hook_addresses \<Rightarrow> hook_name \<Rightarrow> u64" where
  "hook_target ha h =
     (if h = Hook_ConnectEx then (if ha_started ha = 0 then ha_extension ha else 0) else ha_syscall ha h)"

lemma create_hook_result:
  assumes "minhook_law mh hooked patchable"
  obtains (created) hs' t where "create_hook mh ha h hs = (0, hs')" "hook_target ha h \<noteq> 0" "patchable (hook_target ha h)"
      "hook_target ha h \<notin> hooked (hs_minhook hs)" "hooked (hs_minhook hs') = insert (hook_target ha h) (hooked (hs_minhook hs))"
      "t \<noteq> 0" "hs_original hs' = (hs_original hs)(h := t)"
      "hs_connect_ex hs' = (if h = Hook_ConnectEx then hook_target ha h else hs_connect_ex hs)"
  | (refused) e hs' where "e \<noteq> 0" "create_hook mh ha h hs = (e, hs')" "hooked (hs_minhook hs') = hooked (hs_minhook hs)"
      "\<not> (hook_target ha h \<noteq> 0 \<and> patchable (hook_target ha h) \<and> hook_target ha h \<notin> hooked (hs_minhook hs))"
      "h \<noteq> Hook_ConnectEx \<Longrightarrow> hs_connect_ex hs' = hs_connect_ex hs"
proof -
  let ?t = "hook_target ha h" and ?m = "hs_minhook hs"
  define hs0 where "hs0 = (if h = Hook_ConnectEx then (snd (GetConnectEx ha hs))\<lparr>hs_connect_ex := ?t\<rparr> else hs)"
  have hs0: "hs_minhook hs0 = ?m" "hs_original hs0 = hs_original hs"
    "hs_connect_ex hs0 = (if h = Hook_ConnectEx then ?t else hs_connect_ex hs)"
    by (simp_all add: hs0_def GetConnectEx_def)
  have create: "create_hook mh ha h hs = api_create mh ?t (ha_detour ha h) h hs0"
    by (simp add: create_hook_def connect_ex_create_def hs0_def hook_target_def GetConnectEx_def)
  show thesis
  proof (cases "?t \<noteq> 0 \<and> patchable ?t \<and> ?t \<notin> hooked ?m")
    case True
    then obtain t m' where "t \<noteq> 0" "mh_create_hook mh ?t (ha_detour ha h) ?m = ((0, Some t), m')" "hooked m' = insert ?t (hooked ?m)"
      using assms unfolding minhook_law_def by metis
    with True show thesis
      by (intro created [of "hs0\<lparr>hs_minhook := m', hs_original := (hs_original hs)(h := t)\<rparr>" t])
        (simp_all add: create api_create_def minhook_create_def hs0)
  next
    case False
    then obtain e m' where "e \<noteq> 0" "mh_create_hook mh ?t (ha_detour ha h) ?m = ((e, None), m')" "hooked m' = hooked ?m"
      using assms unfolding minhook_law_def by metis
    with False show thesis
      by (intro refused [of e "hs0\<lparr>hs_minhook := m', hs_original := (hs_original hs)(h := hs_original hs h)\<rparr>"])
        (simp_all add: create api_create_def minhook_create_def hs0)
  qed
qed

text \<open>Which hooks MinHook takes: the answer the abstract installation of Hook_Env is given.\<close>

definition hook_accepted :: "hook_addresses \<Rightarrow> (u64 \<Rightarrow> bool) \<Rightarrow> hook_name \<Rightarrow> bool" where
  "hook_accepted ha patchable h \<longleftrightarrow> hook_target ha h \<noteq> 0 \<and> patchable (hook_target ha h)"

text \<open>The targets that carry a hook, for a set of hook names.\<close>

definition installed :: "hook_addresses \<Rightarrow> hook_name set \<Rightarrow> u64 set" where
  "installed ha hs = hook_target ha ` hs"

lemma install_hooks_result:
  assumes "minhook_law mh hooked patchable" and "inj_on (hook_target ha) (set ts)" and "distinct ts"
    and "hook_target ha ` set ts \<inter> hooked (hs_minhook hs) = {}"
  shows "let (status, hs') = install_hooks mh ha ts hs in
    (status = 0 \<longleftrightarrow> list_all (hook_accepted ha patchable) ts) \<and>
    hooked (hs_minhook hs') = (if status = 0 then hooked (hs_minhook hs) \<union> hook_target ha ` set ts else hooked (hs_minhook hs)) \<and>
    (status = 0 \<longrightarrow> (\<forall>h \<in> set ts. hs_original hs' h \<noteq> 0)) \<and>
    (\<forall>h. h \<notin> set ts \<longrightarrow> status = 0 \<longrightarrow> hs_original hs' h = hs_original hs h) \<and>
    (Hook_ConnectEx \<notin> set ts \<longrightarrow> hs_connect_ex hs' = hs_connect_ex hs)"
  using assms(2,3,4)
proof (induction ts arbitrary: hs)
  case (Cons t ts)
  show ?case
  proof (cases rule: create_hook_result [OF assms(1), of ha t hs, case_names created refused])
    case (refused e hs')
    have "hook_target ha t \<notin> hooked (hs_minhook hs)" using Cons.prems(3) by auto
    then show ?thesis using refused by (auto simp: status_error_def hook_accepted_def)
  next
    case (created hs1 tr)
    have "hook_target ha ` set ts \<inter> hooked (hs_minhook hs1) = {}"
      using Cons.prems created(5) by (auto simp: inj_on_def)
    from Cons.IH [OF _ _ this] Cons.prems(1,2) obtain status hs2 where
      i: "install_hooks mh ha ts hs1 = (status, hs2)" "status = 0 \<longleftrightarrow> list_all (hook_accepted ha patchable) ts"
      "hooked (hs_minhook hs2) = (if status = 0 then hooked (hs_minhook hs1) \<union> hook_target ha ` set ts else hooked (hs_minhook hs1))"
      "status = 0 \<Longrightarrow> \<forall>h \<in> set ts. hs_original hs2 h \<noteq> 0"
      "\<forall>h. h \<notin> set ts \<longrightarrow> status = 0 \<longrightarrow> hs_original hs2 h = hs_original hs1 h"
      "Hook_ConnectEx \<notin> set ts \<longrightarrow> hs_connect_ex hs2 = hs_connect_ex hs1"
      by (cases "install_hooks mh ha ts hs1") (auto simp: Let_def)
    show ?thesis
    proof (cases "status = 0")
      case True
      have "hs_original hs2 t = tr" using i(5) created(7) Cons.prems(2) True by simp
      moreover have "hook_accepted ha patchable t" using created(2,3) by (simp add: hook_accepted_def)
      ultimately show ?thesis using created i True by (auto simp: status_error_def)
    next
      case False
      have "(if t = Hook_ConnectEx then hs_connect_ex hs2 else ha_syscall ha t) = hook_target ha t"
        using i(6) created(8) Cons.prems(2) by (auto simp: hook_target_def)
      moreover have "hooked (snd (mh_remove_hook mh target m)) = hooked m - {target}" for target m
        using assms(1) unfolding minhook_law_def by blast
      ultimately have "hooked (hs_minhook (remove_hook mh ha t hs2)) = hooked (hs_minhook hs)"
        using i(3) False created(4,5) by (simp add: remove_hook_def minhook_remove_def)
      moreover have "hs_connect_ex (remove_hook mh ha t hs2) = hs_connect_ex hs2" by (simp add: remove_hook_def)
      ultimately show ?thesis using created i False by (auto simp: status_error_def)
    qed
  qed
qed simp

lemma all_hooks_facts: "distinct all_hooks" "h \<in> set all_hooks"
  by (simp add: all_hooks_def) (cases h; simp add: all_hooks_def)

lemma install_all:
  assumes "minhook_law mh hooked patchable" and "inj (hook_target ha)" and "hooked m = {}"
    and i: "install_hooks mh ha all_hooks (hook_statics_init m) = (status, hs)"
  shows "status = 0 \<longleftrightarrow> list_all (hook_accepted ha patchable) all_hooks"
    and "hooked (hs_minhook hs) = (if status = 0 then hook_target ha ` set all_hooks else {})"
    and "status = 0 \<Longrightarrow> hs_original hs h \<noteq> 0"
proof -
  have "hook_target ha ` set all_hooks \<inter> hooked (hs_minhook (hook_statics_init m)) = {}"
    and "hooked (hs_minhook (hook_statics_init m)) = {}"
    using assms(3) by (simp_all add: hook_statics_init_def)
  with install_hooks_result [OF assms(1) inj_on_subset [OF assms(2) subset_UNIV] all_hooks_facts(1) this(1)] i
  show "status = 0 \<longleftrightarrow> list_all (hook_accepted ha patchable) all_hooks"
    "hooked (hs_minhook hs) = (if status = 0 then hook_target ha ` set all_hooks else {})"
    "status = 0 \<Longrightarrow> hs_original hs h \<noteq> 0"
    using all_hooks_facts(2) by (simp_all add: Let_def)
qed

text \<open>The hook set on MinHook's own state is what the abstract installation says: it succeeds under
  the same answers, and leaves hooks on exactly the targets of the hooks that one leaves. Where it
  succeeds no detour can find the pointer of its original function null.\<close>

theorem hooks_installed_with_originals:
  assumes "minhook_law mh hooked patchable" and "inj (hook_target ha)" and "hooked m = {}"
  shows "let (status, hs) = install_hooks mh ha all_hooks (hook_statics_init m);
             (err, created) = hook_create_all (hook_accepted ha patchable) {}
         in (status_ok status \<longleftrightarrow> err = None) \<and> hooked (hs_minhook hs) = installed ha created \<and>
            (err = None \<longrightarrow> (\<forall>h. hs_original hs h \<noteq> 0))"
proof -
  obtain status hs where i: "install_hooks mh ha all_hooks (hook_statics_init m) = (status, hs)" by (metis prod.exhaust)
  note r = install_all [OF assms i]
  have "hook_create_all (hook_accepted ha patchable) {} =
      (case find (\<lambda>t. \<not> hook_accepted ha patchable t) all_hooks of None \<Rightarrow> (None, set all_hooks) | Some t \<Rightarrow> (Some t, {}))"
    unfolding hook_create_all_def
    using create_hooks_result [OF all_hooks_facts(1), of "{}" "hook_accepted ha patchable"] by (simp only: Int_empty_right Un_empty_left simp_thms)
  moreover have "(find (\<lambda>t. \<not> hook_accepted ha patchable t) all_hooks = None) = (status = 0)"
    using r(1) by (auto simp: find_None_iff list_all_iff)
  ultimately show ?thesis
    using i r(2,3) by (auto simp: status_ok_def installed_def split: option.splits)
qed

definition demo_minhook :: "(u64 list) min_hook" where
  "demo_minhook = \<lparr>mh_initialize = (\<lambda>m. (0, m)), mh_uninitialize = (\<lambda>m. (0, m)), mh_enable_hook = (\<lambda>_ m. (0, m)),
     mh_disable_hook = (\<lambda>_ m. (0, m)),
     mh_create_hook = (\<lambda>target detour m. if target \<noteq> 0 \<and> target \<notin> set m then ((0, Some 1), target # m) else ((1, None), m)),
     mh_remove_hook = (\<lambda>target m. (0, removeAll target m))\<rparr>"

definition demo_addresses :: hook_addresses where
  "demo_addresses = \<lparr>ha_syscall = (\<lambda>h. case h of Hook_connect \<Rightarrow> 1 | Hook_WSAConnect \<Rightarrow> 2 | Hook_WSAConnectByList \<Rightarrow> 3
     | Hook_WSAConnectByNameA \<Rightarrow> 4 | Hook_WSAConnectByNameW \<Rightarrow> 5 | Hook_CreateProcessA \<Rightarrow> 6 | Hook_CreateProcessW \<Rightarrow> 7
     | Hook_ioctlsocket \<Rightarrow> 8 | Hook_WSAAsyncSelect \<Rightarrow> 9 | Hook_WSAEventSelect \<Rightarrow> 10 | Hook_closesocket \<Rightarrow> 11 | Hook_ConnectEx \<Rightarrow> 0),
     ha_detour = (\<lambda>_. 0), ha_started = 0, ha_extension = 12\<rparr>"

lemma hooks_installed_with_originals_witness:
  "let (status, hs) = install_hooks demo_minhook demo_addresses all_hooks (hook_statics_init []);
       (err, created) = hook_create_all (hook_accepted demo_addresses (\<lambda>_. True)) {}
   in (status_ok status \<longleftrightarrow> err = None) \<and> set (hs_minhook hs) = installed demo_addresses created \<and>
      (err = None \<longrightarrow> (\<forall>h. hs_original hs h \<noteq> 0))"
proof (rule hooks_installed_with_originals)
  show "minhook_law demo_minhook set (\<lambda>_. True)" by (simp add: minhook_law_def demo_minhook_def)
  show "inj (hook_target demo_addresses)"
    by (rule injI) (simp add: hook_target_def demo_addresses_def split: hook_name.splits if_splits)
qed simp

text \<open>Winsock that cannot be started, or has no ConnectEx, fails the whole set.\<close>

lemma no_connect_ex_no_hooks:
  assumes "minhook_law mh hooked patchable" and "inj (hook_target ha)" and "hooked m = {}"
    and "ha_started ha \<noteq> 0 \<or> ha_extension ha = 0"
  shows "status_error (fst (install_hooks mh ha all_hooks (hook_statics_init m)))"
proof -
  obtain status hs where i: "install_hooks mh ha all_hooks (hook_statics_init m) = (status, hs)" by (metis prod.exhaust)
  have "\<not> hook_accepted ha patchable Hook_ConnectEx" using assms(4) by (auto simp: hook_accepted_def hook_target_def)
  then have "\<not> list_all (hook_accepted ha patchable) all_hooks" by (simp add: all_hooks_def)
  then show ?thesis using install_all(1) [OF assms(1-3) i] i by (simp add: status_error_def)
qed

end
