(* ===== verification/Cli_Parser.thy ===== *)
theory Cli_Parser
  imports Cli
begin

text \<open>
  The front half of src/injector/injector_cli.cpp: the option table that \<open>create_parser\<close> declares, and
  \<open>main\<close> from the argument vector on, with what it does when argparse throws. argparse itself is a
  parameter: a function from the table and the arguments to what parsing ends in. The help texts
  are left out of the table.
\<close>

section \<open>The option table\<close>

datatype opt_value = Ints "int list" | Texts "string list" | One_Text string | Flag bool

record argument =
  ar_names :: "string list"
  ar_default :: opt_value
  ar_implicit :: "opt_value option"
  ar_append :: bool
  ar_exits :: bool

definition list_argument :: "string \<Rightarrow> string \<Rightarrow> opt_value \<Rightarrow> argument" where
  "list_argument short name initial =
     \<lparr>ar_names = [short, name], ar_default = initial, ar_implicit = None, ar_append = True, ar_exits = False\<rparr>"

definition flag_argument :: "string \<Rightarrow> string \<Rightarrow> argument" where
  "flag_argument short name =
     \<lparr>ar_names = [short, name], ar_default = Flag False, ar_implicit = Some (Flag True), ar_append = False, ar_exits = False\<rparr>"

text \<open>\<open>-v\<close> runs an action that prints the copyright text and exits.\<close>

definition create_parser :: "argument list" where
  "create_parser =
     [(flag_argument ''-v'' ''--version'')\<lparr>ar_exits := True\<rparr>,
      list_argument ''-i'' ''--pid'' (Ints []),
      list_argument ''-n'' ''--name'' (Texts []),
      list_argument ''-P'' ''--path'' (Texts []),
      list_argument ''-r'' ''--name-regexp'' (Texts []),
      list_argument ''-R'' ''--path-regexp'' (Texts []),
      list_argument ''-e'' ''--exec'' (Texts []),
      flag_argument ''-l'' ''--enable-log'',
      \<lparr>ar_names = [''-p'', ''--set-proxy''], ar_default = One_Text [], ar_implicit = None, ar_append = False, ar_exits = False\<rparr>,
      flag_argument ''-w'' ''--new-console-window'',
      flag_argument ''-s'' ''--subprocess'']"

text \<open>What \<open>parse_args\<close> ends in: values by option name, an exception with its text, a throwable of
  another kind, or the action of \<open>-v\<close>.\<close>

datatype parse_end = Parsed "string \<Rightarrow> opt_value" | Throws string | Throws_unknown | Version_asked

type_synonym arg_parser = "argument list \<Rightarrow> string list \<Rightarrow> parse_end"

text \<open>\<open>parser.get<T>\<close>: an option the table does not have, or one of another type, throws.\<close>

definition declared :: "string \<Rightarrow> argument option" where
  "declared name = find (\<lambda>a. name \<in> set (ar_names a)) create_parser"

definition get_value :: "(string \<Rightarrow> opt_value) \<Rightarrow> string \<Rightarrow> opt_value option" where
  "get_value vals name = (if declared name = None then None else Some (vals name))"

definition get_ints :: "(string \<Rightarrow> opt_value) \<Rightarrow> string \<Rightarrow> int list option" where
  "get_ints vals name = (case get_value vals name of Some (Ints l) \<Rightarrow> Some l | _ \<Rightarrow> None)"

definition get_texts :: "(string \<Rightarrow> opt_value) \<Rightarrow> string \<Rightarrow> string list option" where
  "get_texts vals name = (case get_value vals name of Some (Texts l) \<Rightarrow> Some l | _ \<Rightarrow> None)"

definition get_text :: "(string \<Rightarrow> opt_value) \<Rightarrow> string \<Rightarrow> string option" where
  "get_text vals name = (case get_value vals name of Some (One_Text s) \<Rightarrow> Some s | _ \<Rightarrow> None)"

definition get_flag :: "(string \<Rightarrow> opt_value) \<Rightarrow> string \<Rightarrow> bool option" where
  "get_flag vals name = (case get_value vals name of Some (Flag b) \<Rightarrow> Some b | _ \<Rightarrow> None)"

section \<open>Main from its arguments\<close>

text \<open>The values \<open>main\<close> reads, \<open>-w\<close> besides.\<close>

definition read_options :: "(string \<Rightarrow> opt_value) \<Rightarrow> (cli_options \<times> bool) option" where
  "read_options vals =
     Option.bind (get_ints vals ''-i'') (\<lambda>pids.
     Option.bind (get_texts vals ''-n'') (\<lambda>names.
     Option.bind (get_texts vals ''-P'') (\<lambda>paths.
     Option.bind (get_texts vals ''-r'') (\<lambda>re_names.
     Option.bind (get_texts vals ''-R'') (\<lambda>re_paths.
     Option.bind (get_texts vals ''-e'') (\<lambda>execs.
     Option.bind (get_text vals ''-p'') (\<lambda>proxy.
     Option.bind (get_flag vals ''-l'') (\<lambda>log.
     Option.bind (get_flag vals ''-s'') (\<lambda>subprocess.
     Option.bind (get_flag vals ''-w'') (\<lambda>console.
       Some (\<lparr>op_pids = pids, op_names = names, op_paths = paths, op_re_names = re_names, op_re_paths = re_paths,
              op_execs = execs, op_log = log, op_subprocess = subprocess, op_proxy = proxy\<rparr>, console)))))))))))"

definition CREATE_NEW_CONSOLE :: u32 where
  "CREATE_NEW_CONSOLE = 0x10"

definition creation_flags :: "bool \<Rightarrow> u32" where
  "creation_flags console = (if console then CREATE_NEW_CONSOLE else 0)"

definition encapsule_copyright :: "string \<Rightarrow> string" where
  "encapsule_copyright version =
     ''encapsule '' @ version @ [CHR 0x0A, CHR 0x0A] @ ''Copyright (c) PragmaTwice'' @ [CHR 0x0A] @
     ''Licensed under the Apache License, Version 2.0''"

text \<open>An exit with its code and text, the run of \<open>cli_main\<close>, or an exception out of \<open>main\<close>.\<close>

datatype cli_end = Exits nat string | Main cli_outcome | Escapes

definition cli_entry ::
  "string \<Rightarrow> arg_parser \<Rightarrow> (u32 \<Rightarrow> string \<Rightarrow> DWORD option) \<Rightarrow> cli_env \<Rightarrow> string list \<Rightarrow> cli_end" where
  "cli_entry version parse execute env argv =
     (case parse create_parser argv of
        Throws what \<Rightarrow> Exits 1 (sanitize_parse_error what)
      | Throws_unknown \<Rightarrow> Exits 1 ''the command line could not be parsed''
      | Version_asked \<Rightarrow> Exits 0 (encapsule_copyright version)
      | Parsed vals \<Rightarrow>
          (case read_options vals of
             None \<Rightarrow> Escapes
           | Some (opts, console) \<Rightarrow> Main (cli_main (env\<lparr>ce_execute := execute (creation_flags console)\<rparr>) opts)))"

section \<open>Lemmas\<close>

text \<open>argparse's documented behaviour: a value has the type of the option's default.\<close>

fun same_type :: "opt_value \<Rightarrow> opt_value \<Rightarrow> bool" where
  "same_type (Ints _) (Ints _) = True"
| "same_type (Texts _) (Texts _) = True"
| "same_type (One_Text _) (One_Text _) = True"
| "same_type (Flag _) (Flag _) = True"
| "same_type _ _ = False"

definition typed_values :: "(string \<Rightarrow> opt_value) \<Rightarrow> bool" where
  "typed_values vals \<longleftrightarrow> list_all (\<lambda>a. list_all (\<lambda>name. same_type (ar_default a) (vals name)) (ar_names a)) create_parser"

lemma same_type_cases:
  "same_type (Ints l) v \<longleftrightarrow> (\<exists>k. v = Ints k)" "same_type (Texts t) v \<longleftrightarrow> (\<exists>k. v = Texts k)"
  "same_type (One_Text s) v \<longleftrightarrow> (\<exists>k. v = One_Text k)" "same_type (Flag b) v \<longleftrightarrow> (\<exists>k. v = Flag k)"
  by (cases v; simp)+

lemmas table_defs = create_parser_def list_argument_def flag_argument_def

text \<open>No two options share a name.\<close>

lemma names_distinct: "distinct (concat (map ar_names create_parser))"
  by code_simp

lemma names_declared:
  "list_all (\<lambda>name. declared name \<noteq> None) [''-i'', ''-n'', ''-P'', ''-r'', ''-R'', ''-e'', ''-p'', ''-l'', ''-s'', ''-w'']"
  by code_simp

text \<open>Every option \<open>main\<close> reads is in the table, with the type it is read at.\<close>

lemma reads_what_is_declared:
  assumes "typed_values vals"
  shows "\<exists>opts console. read_options vals = Some (opts, console) \<and>
    Ints (op_pids opts) = vals ''-i'' \<and> Texts (op_names opts) = vals ''-n'' \<and> Texts (op_execs opts) = vals ''-e'' \<and>
    One_Text (op_proxy opts) = vals ''-p''"
proof -
  have "\<exists>l. vals ''-i'' = Ints l" "\<exists>l. vals ''-n'' = Texts l" "\<exists>l. vals ''-P'' = Texts l" "\<exists>l. vals ''-r'' = Texts l"
    "\<exists>l. vals ''-R'' = Texts l" "\<exists>l. vals ''-e'' = Texts l" "\<exists>s. vals ''-p'' = One_Text s" "\<exists>b. vals ''-l'' = Flag b"
    "\<exists>b. vals ''-s'' = Flag b" "\<exists>b. vals ''-w'' = Flag b"
    using assms by (simp_all add: typed_values_def table_defs same_type_cases)
  then show ?thesis
    using names_declared by (auto simp: read_options_def get_ints_def get_texts_def get_text_def get_flag_def get_value_def)
qed

text \<open>The tool never dies of its command line: whatever parsing ends in, an exception of any kind
  included, \<open>main\<close> exits with a code and a text or goes on to run, and no exception leaves it; a
  text that comes from the parser has been scrubbed.\<close>

theorem command_line_never_escapes:
  assumes "\<And>vals. parse create_parser argv = Parsed vals \<Longrightarrow> typed_values vals"
  shows "case cli_entry version parse execute env argv of
      Escapes \<Rightarrow> False
    | Exits code shown \<Rightarrow>
        (code = 0 \<and> parse create_parser argv = Version_asked \<and> shown = encapsule_copyright version) \<or>
        (code = 1 \<and> (\<exists>what. parse create_parser argv = Throws what \<and> shown = sanitize_parse_error what)) \<or>
        (code = 1 \<and> parse create_parser argv = Throws_unknown \<and> shown = ''the command line could not be parsed'')
    | Main outcome \<Rightarrow> (\<exists>opts env'. outcome = cli_main env' opts)"
proof (cases "parse create_parser argv")
  case (Parsed vals)
  then obtain opts console where "read_options vals = Some (opts, console)"
    using reads_what_is_declared assms by blast
  then show ?thesis using Parsed by (auto simp: cli_entry_def)
qed (simp_all add: cli_entry_def)

definition demo_values :: "string \<Rightarrow> opt_value" where
  "demo_values name = (case declared name of None \<Rightarrow> Flag False | Some a \<Rightarrow> ar_default a)"

lemma command_line_never_escapes_witness:
  "case cli_entry ''1'' (\<lambda>table argv. Parsed demo_values) (\<lambda>_ _. None) cli_demo_env [] of
      Escapes \<Rightarrow> False
    | Exits code shown \<Rightarrow>
        (code = 0 \<and> Parsed demo_values = Version_asked \<and> shown = encapsule_copyright ''1'') \<or>
        (code = 1 \<and> (\<exists>what. Parsed demo_values = Throws what \<and> shown = sanitize_parse_error what)) \<or>
        (code = 1 \<and> Parsed demo_values = Throws_unknown \<and> shown = ''the command line could not be parsed'')
    | Main outcome \<Rightarrow> (\<exists>opts env'. outcome = cli_main env' opts)"
proof (rule command_line_never_escapes)
  have "typed_values demo_values" by code_simp
  then show "Parsed demo_values = Parsed vals \<Longrightarrow> typed_values vals" for vals by simp
qed

text \<open>A command line without options reads the defaults and is told what is missing.\<close>

lemma no_options_exit:
  "cli_entry version (\<lambda>table argv. Parsed demo_values) execute env argv =
    Main (Cli_exit 2 ''Expected at least one of `-i`, `-n` or `-e`'')"
proof -
  have "map_option (\<lambda>(opts, console). no_selector opts) (read_options demo_values) = Some True" by code_simp
  then show ?thesis by (auto simp: cli_entry_def cli_main_def split: option.splits)
qed

end
