(* ===== verification/Box_Drawing.thy ===== *)
theory Box_Drawing
  imports Text_Box Dynamic_List
begin

text \<open>
  The drawing half of src/injector/ui_elements/text_box.cpp: the highlight of the selection, the caret
  and its blinking. What is drawn is the list of the canvas operations; the function posted to
  the view after half a second is an event. Coordinates are of any ordered type; \<open>ctx\<close> and \<open>right\<close>
  are the bounds the box is drawn in, and the theme gives the width of the caret.
\<close>

datatype 'c draw_op =
    Fill_Rect "'c rect"
  | Fill_Path "('c \<times> 'c) list"
  | Stroke_Line "'c \<times> 'c" "'c \<times> 'c"
  | Draw_Text string

section \<open>Glyph bounds\<close>

text \<open>
  \<open>data() + i\<close>: a pointer into the text or to its end. Left, top and bottom of \<open>info.bounds\<close>; its right
  edge is never used. \<open>None\<close> when \<open>glyph_info\<close> leaves the bounds unset: the callers do not look.
\<close>

definition text_offset :: "int \<Rightarrow> 'c text_box \<Rightarrow> nat option" where
  "text_offset i b = (if 0 \<le> i \<and> i \<le> int (length (tb_text b)) then Some (nat i) else None)"

definition glyph_bounds :: "('c :: {plus, minus, times}) text_ctx \<Rightarrow> string \<Rightarrow> nat \<Rightarrow> ('c \<times> 'c \<times> 'c) option" where
  "glyph_bounds ctx txt s =
     (case glyph_pos ctx txt s of
        Some (Some (x, y)) \<Rightarrow> Some (x, y - tc_ascent ctx, y + tc_descent ctx)
      | _ \<Rightarrow> None)"

section \<open>The selection\<close>

definition selection_op :: "('c :: {ord, plus}) text_ctx \<Rightarrow> 'c \<Rightarrow> 'c \<times> 'c \<times> 'c \<Rightarrow> 'c \<times> 'c \<times> 'c \<Rightarrow> 'c draw_op" where
  "selection_op ctx right r1 r2 =
     (case (r1, r2) of
        ((start_x, top1, bottom1), (end_x, top2, bottom2)) \<Rightarrow>
          if top1 = top2 then Fill_Rect \<lparr>re_left = start_x, re_top = top1, re_right = end_x, re_bottom = bottom1\<rparr>
          else Fill_Path [(start_x, top1), (right, top1), (right, top2), (end_x, top2), (end_x, bottom2),
                 (tc_left ctx, bottom2), (tc_left ctx, bottom1), (start_x, bottom1)])"

definition draw_selection :: "('c :: {ord, plus, minus, times}) text_ctx \<Rightarrow> 'c \<Rightarrow> 'c text_box \<Rightarrow> 'c draw_op list option" where
  "draw_selection ctx right b =
     (if tb_start b = -1 then Some []
      else if tb_text b = [] then Some []
      else Option.bind (text_offset (tb_start b) b) (\<lambda>s.
           Option.bind (glyph_bounds ctx (tb_text b) s) (\<lambda>r1.
           Option.bind (text_offset (tb_end b) b) (\<lambda>e.
           Option.bind (glyph_bounds ctx (tb_text b) e) (\<lambda>r2. Some [selection_op ctx right r1 r2])))))"

section \<open>The caret\<close>

text \<open>The box with the flags of the caret, and the number of posted functions still to run.\<close>

record 'c drawn_box =
  db_box :: "'c text_box"
  db_show_caret :: bool
  db_caret_started :: bool
  db_posted :: nat

definition drawn_box_init :: "'c text_box \<Rightarrow> 'c drawn_box" where
  "drawn_box_init b = \<lparr>db_box = b, db_show_caret = True, db_caret_started = False, db_posted = 0\<rparr>"

text \<open>\<open>half\<close> is half the caret's width.\<close>

definition caret_bounds :: "('c :: {ord, plus, minus, times}) text_ctx \<Rightarrow> 'c text_box \<Rightarrow> ('c \<times> 'c \<times> 'c) option option" where
  "caret_bounds ctx b =
     (if tb_text b = [] then Some (Some (tc_left ctx, tc_top ctx, tc_top ctx + line_height ctx))
      else if tb_start b = tb_end b then
        (case Option.bind (text_offset (tb_start b) b) (glyph_bounds ctx (tb_text b)) of
           None \<Rightarrow> None
         | Some caret \<Rightarrow> Some (Some caret))
      else Some None)"

definition draw_caret :: "('c :: {ord, plus, minus, times}) text_ctx \<Rightarrow> 'c \<Rightarrow> 'c drawn_box \<Rightarrow> ('c draw_op list \<times> 'c drawn_box) option" where
  "draw_caret ctx half d =
     (let b = db_box d in
      if tb_start b = -1 then Some ([], d)
      else if \<not> tb_focus b then Some ([], d)
      else map_option (\<lambda>caret.
        case caret of
          None \<Rightarrow> ([], d)
        | Some (left, upper, lower) \<Rightarrow>
            (if db_show_caret d then [Stroke_Line (left + half, upper) (left + half, lower)] else [],
             if db_caret_started d then d else d\<lparr>db_caret_started := True, db_posted := db_posted d + 1\<rparr>))
        (caret_bounds ctx b))"

text \<open>The posted function.\<close>

definition caret_blink :: "'c drawn_box \<Rightarrow> 'c drawn_box" where
  "caret_blink d = d\<lparr>db_show_caret := \<not> db_show_caret d, db_caret_started := False, db_posted := db_posted d - 1\<rparr>"

definition draw_box :: "('c :: {ord, plus, minus, times}) text_ctx \<Rightarrow> 'c \<Rightarrow> 'c \<Rightarrow> 'c drawn_box \<Rightarrow> ('c draw_op list \<times> 'c drawn_box) option" where
  "draw_box ctx right half d =
     Option.bind (draw_selection ctx right (db_box d)) (\<lambda>selection.
     Option.bind (draw_caret ctx half d) (\<lambda>(caret, d').
       Some (selection @ [Draw_Text (tb_text (db_box d))] @ caret, d')))"

text \<open>The mouse, a key and typed text show the caret first; the other events leave the flags alone.\<close>

definition shows_caret :: "'c box_event \<Rightarrow> bool" where
  "shows_caret ev = (case ev of Click btn \<Rightarrow> mb_left btn | Key _ _ \<Rightarrow> True | Typed \<Rightarrow> True | _ \<Rightarrow> False)"

definition box_handles ::
  "text_lib \<Rightarrow> ('c :: {ord, plus, minus, times, uminus}) text_ctx \<Rightarrow> 'c box_event \<Rightarrow> 'c drawn_box \<Rightarrow> 'c drawn_box option" where
  "box_handles lib ctx ev d =
     map_option (\<lambda>b. d\<lparr>db_box := b, db_show_caret := db_show_caret d \<or> shows_caret ev\<rparr>) (box_step lib ctx ev (db_box d))"

definition box_cursor :: "('p \<Rightarrow> bool) \<Rightarrow> 'p \<Rightarrow> bool" where
  "box_cursor includes p = (if includes p then True else False)"

definition line_break :: "text_lib \<Rightarrow> string \<Rightarrow> nat \<Rightarrow> bool" where
  "line_break lib txt p = tl_newline lib (tl_codepoint lib txt p)"

text \<open>The box as the window drives it: events, draws, and the posted function while one waits.\<close>

inductive drawn_step ::
  "text_lib \<Rightarrow> ('c :: {ord, plus, minus, times, uminus}) drawn_box \<Rightarrow> 'c drawn_box \<Rightarrow> bool" for lib where
  handled: "box_handles lib ctx ev d = Some d' \<Longrightarrow> drawn_step lib d d'"
| drawn: "draw_box ctx right half d = Some (ops, d') \<Longrightarrow> drawn_step lib d d'"
| blinked: "db_posted d > 0 \<Longrightarrow> drawn_step lib d (caret_blink d)"

inductive drawn_reach ::
  "text_lib \<Rightarrow> ('c :: {ord, plus, minus, times, uminus}) drawn_box \<Rightarrow> 'c drawn_box \<Rightarrow> bool" for lib where
  start: "drawn_reach lib (drawn_box_init b) (drawn_box_init b)"
| step: "drawn_reach lib d0 d \<Longrightarrow> drawn_step lib d d' \<Longrightarrow> drawn_reach lib d0 d'"

section \<open>What a filled path covers\<close>

text \<open>
  A point is inside a path of horizontal and vertical edges when an odd number of its vertical edges
  lie to the right of it.
\<close>

definition path_edges :: "('c \<times> 'c) list \<Rightarrow> (('c \<times> 'c) \<times> ('c \<times> 'c)) list" where
  "path_edges path = zip path (rotate1 path)"

fun edge_crosses :: "('c :: linorder) \<Rightarrow> 'c \<Rightarrow> ('c \<times> 'c) \<times> ('c \<times> 'c) \<Rightarrow> bool" where
  "edge_crosses x y ((x1, y1), (x2, y2)) \<longleftrightarrow> x1 = x2 \<and> x < x1 \<and> min y1 y2 \<le> y \<and> y < max y1 y2"

definition inside_path :: "('c :: linorder \<times> 'c) list \<Rightarrow> 'c \<Rightarrow> 'c \<Rightarrow> bool" where
  "inside_path path x y \<longleftrightarrow> odd (length (filter (edge_crosses x y) (path_edges path)))"

text \<open>What is selected from the place (ax, at) to (bx, bt) further down: the rest of the first row, the
  rows between, the last row up to its place.\<close>

definition selected_area :: "('c :: linorder) \<Rightarrow> 'c \<Rightarrow> 'c \<times> 'c \<times> 'c \<Rightarrow> 'c \<times> 'c \<times> 'c \<Rightarrow> 'c \<Rightarrow> 'c \<Rightarrow> bool" where
  "selected_area left right first_row last_row x y =
     (case (first_row, last_row) of
        ((ax, at, ab), (bx, bt, bb)) \<Rightarrow>
          at \<le> y \<and> y < ab \<and> ax \<le> x \<and> x < right \<or>
          ab \<le> y \<and> y < bt \<and> left \<le> x \<and> x < right \<or>
          bt \<le> y \<and> y < bb \<and> left \<le> x \<and> x < bx)"

text \<open>The eight corners of a selection, in either direction, by their four vertical edges.\<close>

lemma selection_edges:
  fixes x :: "'c :: linorder"
  shows "length (filter (edge_crosses x y)
      (path_edges [(ax, at), (right, at), (right, bt), (bx, bt), (bx, bb), (left, bb), (left, ab), (ax, ab)])) =
    of_bool (x < right \<and> min at bt \<le> y \<and> y < max at bt) + of_bool (x < bx \<and> min bt bb \<le> y \<and> y < max bt bb) +
    of_bool (x < left \<and> min bb ab \<le> y \<and> y < max bb ab) + of_bool (x < ax \<and> min ab at \<le> y \<and> y < max ab at)"
proof -
  have none: "\<not> edge_crosses x y ((x1, h), (x2, h))" for x1 x2 h :: 'c by auto
  show ?thesis
    by (simp add: path_edges_def none del: edge_crosses.simps) (simp add: of_bool_def)
qed

lemma path_covers_selection:
  fixes left :: "'c :: linorder"
  assumes "left \<le> ax" "ax \<le> right" "left \<le> bx" "bx \<le> right" "at < ab" "ab \<le> bt" "bt < bb"
  shows "inside_path [(ax, at), (right, at), (right, bt), (bx, bt), (bx, bb), (left, bb), (left, ab), (ax, ab)] x y \<longleftrightarrow>
      selected_area left right (ax, at, ab) (bx, bt, bb) x y" (is ?forward)
    and "inside_path [(bx, bt), (right, bt), (right, at), (ax, at), (ax, ab), (left, ab), (left, bb), (bx, bb)] x y \<longleftrightarrow>
      selected_area left right (ax, at, ab) (bx, bt, bb) x y" (is ?backward)
proof -
  have "at < bt" "ab < bb" using assms by auto
  with assms have mm: "min at bt = at" "max at bt = bt" "min bt at = at" "max bt at = bt" "min bt bb = bt" "max bt bb = bb"
    "min bb bt = bt" "max bb bt = bb" "min bb ab = ab" "max bb ab = bb" "min ab bb = ab" "max ab bb = bb"
    "min ab at = at" "max ab at = ab" "min at ab = at" "max at ab = ab"
    by (auto simp: min_def max_def)
  consider "y < at" | "at \<le> y" "y < ab" | "ab \<le> y" "y < bt" | "bt \<le> y" "y < bb" | "bb \<le> y" by force
  then have "?forward \<and> ?backward"
  proof cases
    case 1
    then have "y < ab" "y < bt" "y < bb" "\<not> at \<le> y" "\<not> ab \<le> y" "\<not> bt \<le> y" using assms by auto
    with 1 show ?thesis by (simp add: inside_path_def selection_edges selected_area_def mm)
  next
    case 2
    then have "y < bt" "y < bb" "\<not> ab \<le> y" "\<not> bt \<le> y" using assms by auto
    with 2 show ?thesis using assms(2) by (simp add: inside_path_def selection_edges selected_area_def mm) auto
  next
    case 3
    then have "at \<le> y" "y < bb" "\<not> y < ab" "\<not> bt \<le> y" using assms by auto
    with 3 show ?thesis using assms(1,2) by (simp add: inside_path_def selection_edges selected_area_def mm) auto
  next
    case 4
    then have "at \<le> y" "ab \<le> y" "\<not> y < ab" "\<not> y < bt" using assms by auto
    with 4 show ?thesis using assms(3) by (simp add: inside_path_def selection_edges selected_area_def mm) auto
  next
    case 5
    then have "at \<le> y" "ab \<le> y" "bt \<le> y" "\<not> y < ab" "\<not> y < bt" "\<not> y < bb" using assms by auto
    with 5 show ?thesis by (simp add: inside_path_def selection_edges selected_area_def mm)
  qed
  then show ?forward ?backward by blast+
qed

text \<open>C40: The highlight covers exactly what is selected: with the two ends of the selection in different
  rows, and whichever of them is the anchor, the path the box fills contains the points of the first
  row behind the upper end, of the rows between, and of the last row in front of the lower end, and
  no others.\<close>

theorem selection_paints_selected:
  fixes ctx :: "('c :: {linorder, plus, minus, times}) text_ctx"
  assumes ends: "tb_start b = int i \<and> tb_end b = int j \<or> tb_start b = int j \<and> tb_end b = int i"
    and inside: "i \<le> length (tb_text b)" "j \<le> length (tb_text b)" "tb_text b \<noteq> []"
    and upper: "glyph_bounds ctx (tb_text b) i = Some (ax, at, ab)" "tc_left ctx \<le> ax" "ax \<le> right" "at < ab"
    and lower: "glyph_bounds ctx (tb_text b) j = Some (bx, bt, bb)" "tc_left ctx \<le> bx" "bx \<le> right" "ab \<le> bt" "bt < bb"
  shows "\<exists>path. draw_selection ctx right b = Some [Fill_Path path] \<and>
    (\<forall>x y. inside_path path x y = selected_area (tc_left ctx) right (ax, at, ab) (bx, bt, bb) x y)"
proof -
  have "at \<noteq> bt" using upper(4) lower(4) by auto
  have offsets: "text_offset (int i) b = Some i" "text_offset (int j) b = Some j"
    using inside by (simp_all add: text_offset_def)
  from ends show ?thesis
  proof
    assume e: "tb_start b = int i \<and> tb_end b = int j"
    then have "draw_selection ctx right b = Some [Fill_Path [(ax, at), (right, at), (right, bt), (bx, bt), (bx, bb),
        (tc_left ctx, bb), (tc_left ctx, ab), (ax, ab)]]"
      using offsets inside(3) upper(1) lower(1) \<open>at \<noteq> bt\<close> by (simp add: draw_selection_def selection_op_def)
    then show ?thesis using path_covers_selection(1) [OF upper(2,3) lower(2,3) upper(4) lower(4,5)] by blast
  next
    assume e: "tb_start b = int j \<and> tb_end b = int i"
    then have "draw_selection ctx right b = Some [Fill_Path [(bx, bt), (right, bt), (right, at), (ax, at), (ax, ab),
        (tc_left ctx, ab), (tc_left ctx, bb), (bx, bb)]]"
      using offsets inside(3) upper(1) lower(1) \<open>at \<noteq> bt\<close> by (simp add: draw_selection_def selection_op_def)
    then show ?thesis using path_covers_selection(2) [OF upper(2,3) lower(2,3) upper(4) lower(4,5)] by blast
  qed
qed

text \<open>Two rows of two glyphs each, ten wide and ten high; the selection runs back from the second row.\<close>

definition two_rows :: "int text_ctx" where
  "two_rows = \<lparr>tc_left = 0, tc_top = 0, tc_ascent = 8, tc_descent = 2, tc_leading = 0,
     tc_rows = (\<lambda>_. [\<lparr>tr_begin = 0, tr_end = 2, tr_width = 20, tr_glyphs = [(0, 0, 10), (1, 10, 20)]\<rparr>,
                     \<lparr>tr_begin = 2, tr_end = 4, tr_width = 20, tr_glyphs = [(2, 0, 10), (3, 10, 20)]\<rparr>]),
     tc_float = int\<rparr>"

lemma selection_paints_selected_witness:
  "\<exists>path. draw_selection two_rows 100 ((text_box_init ''abcd'' 0 [])\<lparr>tb_start := 3, tb_end := 1\<rparr>) = Some [Fill_Path path] \<and>
    (\<forall>x y. inside_path path x y = selected_area (tc_left two_rows) 100 (10, 0, 10) (10, 10, 20) x y)"
proof (rule selection_paints_selected [of _ 1 3])
  show "glyph_bounds two_rows (tb_text ((text_box_init ''abcd'' 0 [])\<lparr>tb_start := 3, tb_end := 1\<rparr>)) 1 = Some (10, 0, 10)"
    "glyph_bounds two_rows (tb_text ((text_box_init ''abcd'' 0 [])\<lparr>tb_start := 3, tb_end := 1\<rparr>)) 3 = Some (10, 10, 20)"
    by code_simp+
qed (simp_all add: two_rows_def text_box_init_def)

section \<open>Blinking\<close>

text \<open>At most one posted function waits, exactly while \<open>_caret_started\<close> says so.\<close>

definition blink_ok :: "'c drawn_box \<Rightarrow> bool" where
  "blink_ok d \<longleftrightarrow> db_posted d = of_bool (db_caret_started d)"

lemma draw_caret_cases:
  assumes "draw_caret ctx half d = Some (ops, d')"
  shows "d' = d \<or> \<not> db_caret_started d \<and> d' = d\<lparr>db_caret_started := True, db_posted := db_posted d + 1\<rparr>"
proof (cases "tb_start (db_box d) = -1 \<or> \<not> tb_focus (db_box d)")
  case True
  then show ?thesis using assms by (auto simp: draw_caret_def Let_def split: if_splits)
next
  case False
  then obtain caret where c: "caret_bounds ctx (db_box d) = Some caret" using assms by (auto simp: draw_caret_def Let_def)
  show ?thesis
  proof (cases caret)
    case None
    then show ?thesis using assms False c by (simp add: draw_caret_def Let_def)
  next
    case (Some r)
    obtain left upper lower where "r = (left, upper, lower)" by (metis prod.exhaust)
    then show ?thesis using assms False c Some by (simp add: draw_caret_def Let_def split: if_splits)
  qed
qed

lemma draw_caret_blink: "draw_caret ctx half d = Some (ops, d') \<Longrightarrow> blink_ok d \<Longrightarrow> blink_ok d'"
  using draw_caret_cases by (fastforce simp: blink_ok_def)

lemma drawn_step_blink: "drawn_step lib d d' \<Longrightarrow> blink_ok d \<Longrightarrow> blink_ok d'"
proof (induction rule: drawn_step.induct)
  case (handled ctx ev d d')
  then show ?case by (auto simp: box_handles_def blink_ok_def)
next
  case (drawn ctx right half d ops d')
  then obtain ops' where "draw_caret ctx half d = Some (ops', d')"
    by (auto simp: draw_box_def bind_eq_Some_conv)
  then show ?case using draw_caret_blink drawn.prems by blast
next
  case (blinked d)
  then show ?case by (cases "db_caret_started d") (simp_all add: blink_ok_def caret_blink_def)
qed

text \<open>The caret blinks in step: however often the box is drawn and whatever is typed or clicked
  between, at most one blink is under way, so the caret changes at most once in the half second it
  is posted for.\<close>

theorem one_blink_at_a_time:
  assumes "drawn_reach lib d0 d"
  shows "db_posted d \<le> 1 \<and> (db_caret_started d \<longleftrightarrow> db_posted d = 1)"
proof -
  have "blink_ok d"
    using assms
  proof induction
    case (start b)
    show ?case by (simp add: drawn_box_init_def blink_ok_def)
  qed (rule drawn_step_blink)
  then show ?thesis by (cases "db_caret_started d") (simp_all add: blink_ok_def)
qed

text \<open>A drawn caret always has its next blink posted.\<close>

lemma drawn_caret_blinks:
  assumes "draw_caret ctx half d = Some (ops, d')" and "tb_start (db_box d) \<noteq> -1" and "tb_focus (db_box d)"
    and "tb_text (db_box d) = [] \<or> tb_start (db_box d) = tb_end (db_box d)"
  shows "db_caret_started d'"
  using assms by (auto simp: draw_caret_def caret_bounds_def Let_def split: if_splits option.splits prod.splits)

text \<open>
  \<open>draw\<close> uses the bounds of a glyph without asking whether any were found: with the caret at an
  offset no glyph of its row reaches, as behind the last glyph of a row that ends in a line feed, what
  it strokes is whatever the structure held.
\<close>

definition unset_row :: "int text_ctx" where
  "unset_row = two_rows\<lparr>tc_rows := (\<lambda>_. [\<lparr>tr_begin = 0, tr_end = 2, tr_width = 10, tr_glyphs = [(0, 0, 10)]\<rparr>,
     \<lparr>tr_begin = 2, tr_end = 3, tr_width = 10, tr_glyphs = [(2, 0, 10)]\<rparr>])\<rparr>"

lemma caret_without_glyph_unset:
  "draw_caret unset_row 1 (drawn_box_init ((text_box_init (''a'' @ [CHR 0x0A] @ ''b'') 0 [])\<lparr>tb_start := 1, tb_end := 1, tb_focus := True\<rparr>)) = None"
  by code_simp

end
