(* ===== verification/Gui_Program.thy ===== *)
theory Gui_Program
  imports Server
begin

text \<open>
  src/injector/injector_gui.cpp: the window program as two threads around one server. \<open>do_server\<close> takes
  a port and serves the sessions on a thread of its own; the window's thread makes the calls of the
  controls from the moment the window is there, before the port or after it. A signal stops the
  serving, closing the window ends the program.
\<close>

datatype gui_phase = Starting | Serving | Io_stopped | Terminated | Closed

record gui_program =
  gp_server :: injector_server
  gp_phase :: gui_phase

definition gui_main :: gui_program where
  "gui_main = \<lparr>gp_server = server_init, gp_phase = Starting\<rparr>"

text \<open>\<open>Bound port\<close>: the acceptor of \<open>do_server\<close> got that port, or its constructor threw, which ends the
  process. \<open>Io\<close>: a handler on the server's thread. \<open>App\<close>: a call out of a control.\<close>

datatype gui_event = Bound "u16 option" | Io server_cmd | App server_cmd | Signal | Window_closed

definition do_server :: "u16 option \<Rightarrow> gui_program \<Rightarrow> gui_program" where
  "do_server port g =
     (case port of
        None \<Rightarrow> g\<lparr>gp_phase := Terminated\<rparr>
      | Some p \<Rightarrow> g\<lparr>gp_server := set_port p (gp_server g), gp_phase := Serving\<rparr>)"

text \<open>The calls the two threads make of their own.\<close>

definition io_call :: "server_cmd \<Rightarrow> bool" where
  "io_call c = (case c of Message _ _ _ _ \<Rightarrow> True | LostSession _ \<Rightarrow> True | _ \<Rightarrow> False)"

definition app_call :: "server_cmd \<Rightarrow> bool" where
  "app_call c = (case c of Message _ _ _ _ \<Rightarrow> False | LostSession _ \<Rightarrow> False | SetPort _ \<Rightarrow> False | _ \<Rightarrow> True)"

fun gui_step :: "gui_event \<Rightarrow> gui_program \<Rightarrow> gui_program" where
  "gui_step (Bound port) g = (if gp_phase g = Starting then do_server port g else g)"
| "gui_step (Io c) g = (if gp_phase g = Serving \<and> io_call c then g\<lparr>gp_server := server_step c (gp_server g)\<rparr> else g)"
| "gui_step (App c) g =
     (if gp_phase g \<notin> {Terminated, Closed} \<and> app_call c then g\<lparr>gp_server := server_step c (gp_server g)\<rparr> else g)"
| "gui_step Signal g = (if gp_phase g = Serving then g\<lparr>gp_phase := Io_stopped\<rparr> else g)"
| "gui_step Window_closed g = (if gp_phase g = Terminated then g else g\<lparr>gp_phase := Closed\<rparr>)"

definition gui_run :: "gui_event list \<Rightarrow> gui_program \<Rightarrow> gui_program" where
  "gui_run es g = fold gui_step es g"

text \<open>Until the port is there no session exists and nobody has been injected.\<close>

definition gui_ok :: "gui_program \<Rightarrow> bool" where
  "gui_ok g \<longleftrightarrow> server_ok (gp_server g) \<and>
     (gp_phase g = Starting \<longrightarrow> sv_port (gp_server g) = no_port \<and> sv_clients (gp_server g) = [] \<and>
        sv_store (gp_server g) = bootstrap_store_new \<and> (\<forall>sid. \<not> se_opened (sv_sessions (gp_server g) sid)))"

lemma gui_ok_init: "gui_ok gui_main"
  by (simp add: gui_ok_def gui_main_def server_ok_init) (simp add: server_init_def session_init_def)

lemma app_call_quiet:
  assumes "app_call c" and "sv_port sv = no_port" and "sv_clients sv = []"
  shows "sv_port (server_step c sv) = no_port" "sv_clients (server_step c sv) = []"
    "sv_store (server_step c sv) = sv_store sv" "sv_sessions (server_step c sv) = sv_sessions sv"
  using assms
  by (cases c; simp add: app_call_def server_inject_def server_close_def clients_find_def set_proxy_def config_proxy_def
      clear_proxy_def set_proxy_credentials_def clear_proxy_credentials_def enable_log_def enable_subprocess_def
      broadcast_config_def Let_def)+

lemma gui_ok_step: "gui_ok g \<Longrightarrow> gui_ok (gui_step e g)"
proof (cases e)
  case (Bound port)
  assume ok: "gui_ok g"
  have "server_ok (set_port p sv) = server_ok sv" for p sv by (simp add: set_port_def)
  then show ?thesis using ok Bound by (auto simp: gui_ok_def do_server_def split: option.split)
next
  case (Io c)
  assume "gui_ok g"
  then show ?thesis using Io server_ok_step by (auto simp: gui_ok_def)
next
  case (App c)
  assume "gui_ok g"
  then show ?thesis using App server_ok_step app_call_quiet by (auto simp: gui_ok_def)
qed (auto simp: gui_ok_def)

interpretation gui: invariant_steps gui_step gui_ok gui_main
  by unfold_locales (simp_all add: gui_ok_step gui_ok_init)

text \<open>A click before the port is there answers that the server has not started, and leaves no trace.\<close>

lemma early_click_answered:
  assumes "gp_phase (gui_run es gui_main) = Starting"
  shows "server_inject env pid (gp_server (gui_run es gui_main)) = (not_started, gp_server (gui_run es gui_main))"
proof -
  have "gui_ok (gui_run es gui_main)" unfolding gui_run_def by (rule gui.always_inv)
  then show ?thesis using assms by (simp add: gui_ok_def server_inject_def)
qed

text \<open>
  The value that stands for no port is a port: it is in the range Windows hands out. A tool that is
  given it listens, and answers every click and every report of a child that it has not started.
\<close>

lemma sentinel_is_a_port:
  "gp_phase (do_server (Some 65535) gui_main) = Serving \<and>
   server_inject env pid (gp_server (do_server (Some 65535) gui_main)) = (not_started, gp_server (do_server (Some 65535) gui_main))"
  by (simp add: do_server_def gui_main_def set_port_def server_inject_def no_port_def)

text \<open>After a signal the window goes on without its server: what the capsules send is not read.\<close>

lemma signal_leaves_window:
  assumes "gp_phase g = Serving"
  shows "gui_step (Io c) (gui_step Signal g) = gui_step Signal g \<and>
    (app_call c \<longrightarrow> gp_server (gui_step (App c) (gui_step Signal g)) = server_step c (gp_server g))"
  using assms by simp

end
