(* ===== verification/Spec2Isabelle.thy ===== *)
theory Spec2Isabelle
  imports Fakeip_Range Fakeip_Directory Fake_Owner Udp_Association Udp_State Socks5_Session Text_Utils Proxy_Endpoint Ipc_Schema
    Report_Queue Winnet Client_Config Client_Session Services Hook_Effects Server Injectee_Main Cli Gui_Panel Gui_Window Tooltip Scope_Bind
    Server_Threads Config_Stream Remote_Load Hook_Install Cli_Parser Box_Drawing Gui_Program
begin

text \<open>
  encapsule forces the TCP connections of chosen Windows processes through a SOCKS5 proxy. An
  injector (src/injector: a command line tool and a window) puts a DLL, the capsule
  (src/injectee), into each process. The capsule hooks the connect functions of winsock, and keeps
  a control session with the injector, which pushes the proxy to use. src/common holds what both
  sides share. This development models both sides and their protocol, states what each part
  promises, and composes the parts: the two theorems of this theory follow an injection to a
  registered session, and the front end's proxy to the bytes on the wire.

  \<^bold>\<open>Theories, in the order data flows\<close>

  \<^item> Prelude: integer types, row loops, character classes, and the contract of a component driven
    by a list of operations (\<open>guarded_steps\<close>, \<open>invariant_steps\<close>), interpreted by every component
    with an invariant. Bounded_Fifo: the contract of a bounded queue, interpreted by the report
    queue and the datagram queues.
  \<^item> Text_Utils, Proxy_Endpoint (src/common/utils.hpp): trimming, wildcard match against a
    declarative glob, the regex wrapper; \<open>parse_proxy_url\<close> with its printing inverse and
    \<open>sanitize_parse_error\<close> with a non-interference theorem.
  \<^item> Ipc_Schema (src/common/schema.hpp, async_io.hpp): the four messages as records of optional
    fields, the opcode helpers, the length-prefixed framing, the mapping payload.
    Report_Queue (src/common/queue.hpp): \<open>blocking_queue\<close> with each lock region one step.
  \<^item> Process_Scan (src/common/winraii.hpp): walks over the process snapshot, the watch rule, the
    descriptor of the bootstrap mapping, the remote allocation.
  \<^item> Injector (src/injector/injector.hpp): token and mapping records, publish, remote load with
    every rollback, residency test, process selectors. Its contract to the server is the locale
    \<open>bootstrap_records\<close>. Remote_Load (injector.hpp, winraii.hpp, src/wow64/address_dumper.cpp): the
    calls of a remote load, the target's memory, the paths, and the helper for 32-bit targets.
  \<^item> Server (src/injector/server.hpp): client table, kept bootstraps, verdicts, configuration,
    sessions. \<open>server_step\<close> has one command per handler and per front-end call, each run as a whole.
    Server_Threads takes the handlers apart into their locked regions, which any number of threads
    interleave: registration is still earned by the token, what is left of the server's invariant,
    and the overlaps that go wrong.
    Config_Stream (server.hpp, async_io.hpp): the coroutines that write configurations, and the bytes
    on each socket.
  \<^item> Cli (src/injector/injector_cli.cpp, injector_cli.hpp), Gui_Panel
    (src/injector/injector_gui.hpp): the decisions of the two front ends as server commands.
    Cli_Parser: the option table of the command line and how its values are read. Gui_Program
    (src/injector/injector_gui.cpp): the window's two threads around one server.
  \<^item> Reports (operator<< of schema.hpp, the process_connect handlers): the lines printed of a report.
    Text_Box, Dynamic_List, Tooltip (src/injector/ui_elements): the log box, the process list with
    its windowed drawing, the tip of a button. Box_Drawing: the highlight and the blinking caret of
    the log box. Gui_Window (injector_gui.hpp): the window as sessions,
    panels and posted functions drive it, against a specification of its log (\<open>log_spec\<close>).
  \<^item> Client_Config, Client_Session (src/injectee/client.hpp): the routing slice that wipes itself,
    the pinned configuration, and the session with its reconnect schedule as a step relation.
    Injectee_Main (src/injectee/injectee.cpp): bootstrap read and retry, client thread, DllMain,
    the end of the process included.
    Scope_Bind (winraii.hpp): how the client thread publishes its objects to the detours.
  \<^item> Sockaddr, Winnet (src/injectee/winnet.hpp): socket addresses as octet lists.
    Socks5_Wire, Socks5_Session (src/injectee/socks5.hpp): builders and parsers, and the exchanges
    on a socket. Services (src/injectee/services.inc and the lookups of hook.hpp).
  \<^item> Hook_Env, Hook_Connect, Hook_Effects (src/injectee/hook.hpp): globals, blocking scope,
    installation; the four connect detours; what a detour does to the rest of the process.
    Hook_Install (src/common/minhook.hpp, hook.hpp): the wrapper over MinHook, ConnectEx and its
    lookup, and the installation of the set with the pointers to the original functions.
  \<^item> Fakeip_Range, Fakeip_Table (src/injectee/fakeip.hpp), Fake_Map (src/injectee/fake_map.hpp):
    the fake-address pool and the connect decision; the contract is the locale \<open>name_table\<close>.
    Fake_Owner: the shared owner object, with its calls in any order of the threads.
    Fakeip_Directory: the pool as a directory from addresses to names (\<open>dir_step\<close>), which the
    table refines (the locale \<open>refinement\<close> of Prelude).
    Udp_Association, Udp_State (src/injectee/udp_state.hpp): the tables of the UDP relay.

  \<^bold>\<open>How the code is rendered\<close>

  Integers are words of their width; octet strings are lists; a struct is a record, an
  \<open>optional\<close> an option, an enum a datatype. State is passed explicitly. A mutex region is one
  step; a handler of the server is one step in Server and the list of its regions in
  Server_Threads. Exceptions, undefined accesses and refusals are values (\<open>winnet_error\<close>, \<open>detour_crash\<close>,
  \<open>Inl\<close> of a sum). What is not under src/ is an argument: the functions behind the hooks and the
  socket calls (\<open>hook_env\<close>, \<open>winsock\<close>), asio's \<open>make_address\<close>, std::regex, the random device,
  \<open>getservbyname\<close>, the answers of Windows to an injection (\<open>injection_env\<close>, \<open>remote_load\<close>), to a
  snapshot and to loading the module (\<open>attach_env\<close>), MinHook (\<open>min_hook\<close>), argparse, protopuf's coder. Where a theorem needs
  documented behaviour of one of them it is a named hypothesis (\<open>stream_law\<close>, \<open>wire_law\<close>,
  \<open>numeric_only\<close>, \<open>option_law\<close>, \<open>minhook_law\<close>) with an instance in the theorem's witness. Where
  the code can run into undefined behaviour the theorem says when (\<open>undefined_event\<close> for a forged
  report, \<open>on_no_rows\<close> for a key in a text without rows) instead of leaving the case out.

  \<^bold>\<open>Bounds and termination\<close>

  No definition runs on fuel. Loops are structural recursions or functions with a termination
  proof (\<open>filename_wildcard_match\<close>, \<open>scrub_message\<close>, \<open>probe_from\<close>, \<open>run_tasks\<close>); only \<open>replace_all\<close>
  and the \<open>walk\<close> over the text box, which may run for ever on an empty pattern or a library that does
  not advance, are partial functions, and their callers are shown to return.
  The reconnect schedule is shown to give up within its budget (\<open>reconnect_gives_up\<close>), the
  bootstrap retry to end after nineteen probes. Capacities are those of the code: 256 fake
  slots, 32 associations, 4096 kept bootstraps, 255 octets of a credential.

  \<^bold>\<open>What the lemma groups show\<close>

  Each component has an invariant kept by all of its operations; the behaviour of each operation
  on every branch; and what it promises its client: routing fails closed and stays pinned
  (Client_Config, Hook_Connect), only a capsule with its token registers (Server, and under any
  schedule of the threads Server_Threads) and a lost one can come back (Server), the table and the
  record of kept bootstraps stay sound under any schedule (Server_Threads), spaced configurations
  arrive whole (Config_Stream), a quarantined or excluded fake address is never handed out
  (Fakeip_Table),
  datagrams and reports are accounted for, wire formats round-trip. Lemmas at the end of a theory
  that show the code doing what it should not are findings of the manifest.

  \<^bold>\<open>Not modelled\<close>

  The nesting of the window's tiles, their sizes and colours; the text of a time stamp; the sharing of
  the process rows between the window's two threads (a handler that changes them is one step); the
  RAII classes of winraii.hpp that hold one handle and no other state; the destructors and the
  defaulted members a record has no counterpart of; memory orders (a detour's single read of each
  global is modelled, the hardware's reordering is not); the internals of asio, protopuf, MinHook,
  argparse and the window toolkit: a coroutine is the list of its completions, in any order, and
  one asynchronous write puts its buffer on the wire in one piece.
\<close>


section \<open>Bootstrap: from the injection to a registered session\<close>

lemma inject_published:
  assumes "verdict_ok (fst (server_inject env pid sv))"
  shows "sv_port sv \<noteq> no_port \<and> registered sv pid = None \<and>
    (\<exists>payload. get_port_mapping_payload (ie_draw env) (sv_port sv) = Some payload \<and>
       bs_tokens (sv_store (snd (server_inject env pid sv))) pid = Some (token_of payload) \<and>
       bs_mappings (sv_store (snd (server_inject env pid sv))) pid = Some payload)"
proof -
  have n: "sv_port sv \<noteq> no_port" "\<not> clients_contains pid (sv_clients sv)"
    using assms by (auto simp: server_inject_def verdict_ok_def split: if_splits)
  obtain ok r store where i: "injector_inject env pid (sv_port sv) (sv_store sv) = ((ok, r), store)" by (metis prod.exhaust)
  have ok: ok using assms n i by (cases ok) (simp_all add: server_inject_def verdict_ok_def)
  then have "sv_store (snd (server_inject env pid sv)) = store" using i n by (simp add: server_inject_def)
  moreover have "\<exists>payload. get_port_mapping_payload (ie_draw env) (sv_port sv) = Some payload \<and>
      bs_tokens store pid = Some (token_of payload) \<and> bs_mappings store pid = Some payload"
    using ok i by (rule_tac inject_cases [of env pid "sv_port sv" "sv_store sv"]) auto
  ultimately show ?thesis using n by (auto simp: clients_contains_def registered_def)
qed

text \<open>C2: The bootstrap closes its circle: after an injection that the server reports as a success, a
  client thread that reads the mapping published for its pid dials the server's port, and the
  hello it then sends is accepted, registers exactly that pid to that session, and is answered
  with the configuration in force.\<close>

theorem injected_capsule_registers:
  assumes "server_inject env pid sv = (verdict, sv1)" and "verdict_ok verdict"
    and "bs_mappings (sv_store sv1) pid = Some payload" and "pm_port payload \<noteq> 0"
    and "md_thread (do_client found (get_ipc_payload (content payload)) md) = Running port token"
    and "ec_token c = token"
  shows "port = sv_port sv \<and>
    registered (process_injectee children env' sid (session_hello pid c) sv1) pid = Some sid \<and>
    last_sent sid (process_injectee children env' sid (session_hello pid c) sv1) = Some (sv_config sv1)"
proof -
  have ok: "verdict_ok (fst (server_inject env pid sv))" "snd (server_inject env pid sv) = sv1" using assms(1,2) by simp_all
  from inject_published [OF ok(1)] ok(2) assms(3) have
    p: "registered sv pid = None" "get_port_mapping_payload (ie_draw env) (sv_port sv) = Some payload"
      "bs_tokens (sv_store sv1) pid = Some (token_of payload)" by auto
  have "pm_port payload = sv_port sv" using p(2) by (auto simp: get_port_mapping_payload_def)
  moreover have "port = pm_port payload" "token = token_of payload"
    using assms(4,5) by (simp_all add: do_client_def get_ipc_payload_def token_of_def Let_def)
  moreover have "registered sv1 pid = None" using p(1) registered_inject [of env pid sv] ok(2) by simp
  moreover have "compare_message_pid (session_hello pid c) = Some pid" "im_token (session_hello pid c) = Some token"
    using assms(6) by (simp_all add: session_hello_def)
  ultimately show ?thesis
    using p(3) by (simp add: process_injectee_fields registered_hello last_sent_def token_matches_iff)
qed

definition demo_client :: injectee_client where
  "demo_client = injectee_client_new (blocking_queue_new 4) injectee_config_init demo_token 0"

lemma injected_capsule_registers_witness:
  "registered (process_injectee [] demo_env 3 (session_hello 7 demo_client)
     (snd (server_inject demo_env 7 (set_port 80 server_init)))) 7 = Some 3"
proof -
  let ?r = "server_inject demo_env 7 (set_port 80 server_init)"
  have v: "verdict_ok (fst ?r)" by code_simp
  have m: "bs_mappings (sv_store (snd ?r)) 7 = Some \<lparr>pm_port = 80, pm_token = demo_token\<rparr>" by code_simp
  have t: "md_thread (do_client (\<lambda>_. no_mapping) (get_ipc_payload (content \<lparr>pm_port = 80, pm_token = demo_token\<rparr>))
      module_loaded) = Running 80 demo_token" by code_simp
  have e: "?r = (fst ?r, snd ?r)" by simp
  have c: "ec_token demo_client = demo_token" by (simp add: demo_client_def injectee_client_new_def)
  show ?thesis using injected_capsule_registers [OF e v m _ t c, of "[]" demo_env 3] by simp
qed

section \<open>Routing: from the front end's proxy to the bytes on the wire\<close>

text \<open>The socket carries a byte stream, and neither its options, nor the question for its type, nor
  dialling writes anything to it.\<close>

definition wire_law ::
  "'w hook_env \<Rightarrow> SOCKET \<Rightarrow> (u8 list \<Rightarrow> 'w \<Rightarrow> int \<times> 'w) \<Rightarrow> ('w \<Rightarrow> u8 list) \<Rightarrow> ('w \<Rightarrow> u8 list) \<Rightarrow> bool" where
  "wire_law env s original inq outq \<longleftrightarrow> stream_law (he_winsock env s) inq outq \<and>
     (\<forall>w. outq (snd (he_so_type env s w)) = outq w) \<and> (\<forall>a b w. outq (he_set_timeouts env s a b w) = outq w) \<and>
     (\<forall>b w. outq (he_set_nonblocking env s b w) = outq w) \<and> (\<forall>addr w. outq (snd (original addr w)) = outq w)"

lemma wire_scope:
  assumes "wire_law env s original inq outq"
  shows "outq (scope_leave env s saved old w) = outq w"
    and "scope_enter env s t w = (old', w0) \<Longrightarrow> outq w0 = outq w"
    and "outq (snd (socket_stream_type env s w)) = outq w"
proof -
  show "outq (scope_leave env s saved old w) = outq w" using assms by (simp add: wire_law_def scope_leave_def Let_def)
  show "scope_enter env s t w = (old', w0) \<Longrightarrow> outq w0 = outq w"
    using assms by (auto simp: wire_law_def scope_enter_def split: prod.splits)
  show "outq (snd (socket_stream_type env s w)) = outq w"
    using assms unfolding wire_law_def socket_stream_type_def
    by (cases "he_so_type env s w"; cases "fst (he_so_type env s w)") (auto dest: spec [of _ w])
qed

text \<open>What a session was sent is what its capsule routes by.\<close>

lemma pushed_route:
  assumes "registered (server_run cmds server_init) pid = Some sid"
    and "last_sent sid (server_run cmds server_init) = Some (last_config ops injector_config_init)"
  shows "ro_proxy (config_get (config_run ops)) = cf_addr (sv_config (server_run cmds server_init)) \<and>
    route_creds (config_get (config_run ops)) =
      \<lparr>cr_username = credential_text (cf_username (sv_config (server_run cmds server_init))),
       cr_password = credential_text (cf_password (sv_config (server_run cmds server_init)))\<rparr>"
proof -
  have cfg: "last_config ops injector_config_init = sv_config (server_run cmds server_init)"
    using all_current_run [of cmds] assms by (auto simp: all_current_def)
  have init: "config_ok injectee_config_init" "ij_pinned injectee_config_init = injector_config_init"
    by (simp_all add: config_ok_def injectee_config_init_def)
  have "config_ok (config_run ops)" "ij_pinned (config_run ops) = sv_config (server_run cmds server_init)"
    using config_run_pin [OF init(1), of ops] init(2) cfg by (simp_all add: config_run_def)
  then show ?thesis using config_get_route by (simp add: route_creds_def)
qed

text \<open>C1: What the front end configures is what the wire carries: take any registered session of any
  run of the server with an IPv4 proxy set, a capsule whose last configuration is the last one
  that session was sent (whatever it received or lost before), and a connect of a stream socket
  to a routable destination. If the detour reports success, the real connect was called with the
  proxy's address on the sockets as the blocking scope left them, and succeeded. All that was
  written to the socket is the greeting, the configured login if and only if the proxy chose it
  (it then accepted it), and the request for exactly that destination, which the proxy granted.\<close>

theorem configured_proxy_end_to_end:
  assumes "sv = server_run cmds server_init" and "registered sv pid = Some sid"
    and "last_sent sid sv = Some (last_config ops injector_config_init)"
    and "cf_addr (sv_config sv) = Some (from_asio (AddressV4 a) port)"
    and "ps_config p = Some (config_run ops)"
    and "is_inet name" and "\<not> is_localhost name" and "\<not> sockequal (sockaddr_in_bytes (htonl_octets a) port) name"
    and "fst (socket_stream_type env s (ps_net p)) \<noteq> not_stream"
    and "wire_law env s original inq outq"
    and "connect_detour env original syscall s name p = (Inr 0, p')"
  shows "let creds = \<lparr>cr_username = credential_text (cf_username (sv_config sv)),
           cr_password = credential_text (cf_password (sv_config sv))\<rparr> in
    \<exists>old w0 w1 auth request answer reply rest.
      scope_enter env s SOCKS_HANDSHAKE_TIMEOUT_MS (snd (socket_stream_type env s (ps_net p))) = (old, w0) \<and>
      original (sockaddr_in_bytes (htonl_octets a) port) w0 = (0, w1) \<and>
      outq (ps_net p') = outq (ps_net p) @ greeting_bytes creds @ auth @ request \<and> inq w1 = answer @ reply @ rest \<and>
      (answer = [5, 0] \<and> auth = [] \<or>
       answer = [5, 2, 1, 0] \<and> credentials_enabled creds \<and> socks5_build_auth (cr_username creds) (cr_password creds) = Some auth) \<and>
      socks5_build_request_from_sockaddr (Some name) = Some request \<and> take 2 reply = [5, 0]"
proof -
  have route: "ro_proxy (config_get (config_run ops)) = Some (from_asio (AddressV4 a) port)"
    and creds: "route_creds (config_get (config_run ops)) = \<lparr>cr_username = credential_text (cf_username (sv_config sv)),
           cr_password = credential_text (cf_password (sv_config sv))\<rparr>"
    using pushed_route [of cmds pid sid ops] assms(1-4) by simp_all
  let ?creds = "route_creds (config_get (config_run ops))"
  have success: "fst (connect_detour env original syscall s name p) = Inr 0" "snd (connect_detour env original syscall s name p) = p'"
    using assms(11) by simp_all
  from connect_through_proxy [OF assms(5) route to_sockaddr_from_asio(1) assms(8,6,7,9), of original original syscall] success
  obtain old w0 w1 w2 w3 where
    e: "scope_enter env s SOCKS_HANDSHAKE_TIMEOUT_MS (snd (socket_stream_type env s (ps_net p))) = (old, w0)"
    and c: "original (sockaddr_in_bytes (htonl_octets a) port) w0 = (0, w1)"
    and h: "socks5_handshake (he_winsock env s) ?creds w1 = (True, w2)"
    and r: "socks5_request_sockaddr (he_winsock env s) (Some name) w2 = (SOCKS_SUCCESS, w3)"
    and f: "ps_net p' = scope_leave env s (nbio_load s p) old w3"
    by auto
  note wire = wire_scope [OF assms(10)]
  have law: "stream_law (he_winsock env s) inq outq" and dial: "\<forall>addr w. outq (snd (original addr w)) = outq w"
    using assms(10) by (auto simp: wire_law_def)
  have "\<exists>auth answer. outq w2 = outq w1 @ greeting_bytes ?creds @ auth \<and> inq w1 = answer @ inq w2 \<and>
    (answer = [5, 0] \<and> auth = [] \<or>
     answer = [5, 2, 1, 0] \<and> credentials_enabled ?creds \<and> socks5_build_auth (cr_username ?creds) (cr_password ?creds) = Some auth)"
    using handshake_facts [OF law h, THEN conjunct1, THEN mp, OF TrueI]
  proof (elim disjE conjE exE)
    assume "inq w1 = [5, 0] @ inq w2" "outq w2 = outq w1 @ greeting_bytes ?creds"
    then show ?thesis by (intro exI [of _ "[]"] exI [of _ "[5, 0]"]) simp
  next
    fix login
    assume "credentials_enabled ?creds" "socks5_build_auth (cr_username ?creds) (cr_password ?creds) = Some login"
      "inq w1 = [5, 2, 1, 0] @ inq w2" "outq w2 = outq w1 @ greeting_bytes ?creds @ login"
    then show ?thesis by (intro exI [of _ login] exI [of _ "[5, 2, 1, 0]"]) simp
  qed
  then obtain auth answer where auth: "outq w2 = outq w1 @ greeting_bytes ?creds @ auth" "inq w1 = answer @ inq w2"
    "answer = [5, 0] \<and> auth = [] \<or>
     answer = [5, 2, 1, 0] \<and> credentials_enabled ?creds \<and> socks5_build_auth (cr_username ?creds) (cr_password ?creds) = Some auth"
    by blast
  obtain request reply where q: "socks5_build_request_from_sockaddr (Some name) = Some request" "outq w3 = outq w2 @ request"
    "inq w2 = reply @ inq w3" "take 2 reply = [5, 0]"
    using request_facts [OF law r] by blast
  have "outq w1 = outq w0" using dial c by (metis snd_conv)
  then have out: "outq (ps_net p') = outq (ps_net p) @ greeting_bytes ?creds @ auth @ request"
    using wire(1) wire(2) [OF e] wire(3) auth(1) q(2) by (simp add: f)
  have "inq w1 = answer @ reply @ inq w3" using auth(2) q(3) by simp
  with out e c auth(3) q(1,4) show ?thesis unfolding Let_def creds [symmetric] by blast
qed

definition demo_route :: "server_cmd list" where
  "demo_route = [SetPort 80, SetProxy (AddressV4 0x0A000001) 1080, Inject demo_env 7, demo_hello 1]"

definition demo_victim :: "(u8 list \<times> u8 list) process" where
  "demo_victim = \<lparr>ps_queue = None, ps_config = Some (config_run [SetConfig (sv_config (server_run demo_route server_init)), DropConfig]),
     ps_nbio = None, ps_net = ([5, 0, 5, 0, 0, 1, 0, 0, 0, 0, 0, 0], [])\<rparr>"

definition demo_destination :: "u8 list" where
  "demo_destination = sockaddr_in_bytes (93, 184, 216, 34) 443"

lemma configured_proxy_end_to_end_witness:
  "snd (ps_net (snd (connect_detour ideal_env (\<lambda>a w. (0, w)) ''connect'' 7 demo_destination demo_victim))) =
     greeting_bytes \<lparr>cr_username = [], cr_password = []\<rparr> @ [5, 1, 0, 1, 93, 184, 216, 34, 1, 187]"
proof -
  let ?sv = "server_run demo_route server_init"
  let ?d = "connect_detour ideal_env (\<lambda>a w. (0, w)) ''connect'' 7 demo_destination demo_victim"
  let ?none = "\<lparr>cr_username = [], cr_password = []\<rparr> :: socks5_credentials"
  have cfg: "sv_config ?sv = injector_config_init\<lparr>cf_addr := Some (from_asio (AddressV4 0x0A000001) 1080)\<rparr>"
    by code_simp
  have h: "htonl_octets 0x0A000001 = (10, 0, 0, 1)" by code_simp
  have r: "registered ?sv 7 = Some 1" by code_simp
  have l: "last_sent 1 ?sv = Some (last_config [SetConfig (sv_config ?sv), DropConfig] injector_config_init)"
    by code_simp
  have p: "cf_addr (sv_config ?sv) = Some (from_asio (AddressV4 0x0A000001) 1080)" by (simp add: cfg)
  have v: "ps_config demo_victim = Some (config_run [SetConfig (sv_config ?sv), DropConfig])" by (simp add: demo_victim_def)
  have g: "fst ?d = Inr 0" by code_simp
  then have g: "?d = (Inr 0, snd ?d)" by (metis prod.collapse)
  have law: "wire_law ideal_env 7 (\<lambda>a w. (0, w)) fst snd" using ideal_socket_law by (simp add: wire_law_def ideal_env_def)
  have ne: "\<not> sockequal (sockaddr_in_bytes (htonl_octets 0x0A000001) 1080) demo_destination"
    unfolding h demo_destination_def by (rule ideal_env_facts)
  have inet: "is_inet demo_destination" "\<not> is_localhost demo_destination"
    unfolding demo_destination_def by (rule ideal_env_facts)+
  have req: "socks5_build_request_from_sockaddr (Some demo_destination) = Some [5, 1, 0, 1, 93, 184, 216, 34, 1, 187]" by code_simp
  have creds: "\<lparr>cr_username = credential_text (cf_username (sv_config ?sv)), cr_password = credential_text (cf_password (sv_config ?sv))\<rparr> = ?none"
    by (simp add: cfg credential_text_def injector_config_init_def)
  have out: "snd (ps_net demo_victim) = []" by (simp add: demo_victim_def)
  have "\<not> credentials_enabled ?none" by code_simp
  then show ?thesis
    using configured_proxy_end_to_end [OF refl r l p v inet ne ideal_env_facts(7) law g]
    unfolding creds Let_def req out by auto
qed

end
